(* ===== verification/Prelude.thy ===== *)
theory Prelude
  imports Main
begin

text \<open>
  Shared vocabulary of the development.  Go strings and byte slices are both byte
  sequences, so both are HOL strings (lists of 8-bit characters).  The theory holds the
  result types (an operation may return or panic), the functions of Go's
  \<^verbatim>\<open>strings\<close> package that the program calls, decimal printing (the
  \<^verbatim>\<open>%d\<close> of \<^verbatim>\<open>fmt\<close>), signed 64-bit wrap-around, and the
  generic lemmas on them.
\<close>

named_theorems text_simps
named_theorems key_simps

section \<open>Results\<close>

text \<open>A Go call either returns or panics; the string is the run-time error.\<close>

datatype 'a outcome = Ret 'a | Panic string

type_synonym gerr = string
type_synonym bytes = string

fun outcome_bind :: "'a outcome \<times> 'w \<Rightarrow> ('a \<Rightarrow> 'w \<Rightarrow> 'b outcome \<times> 'w) \<Rightarrow> 'b outcome \<times> 'w" where
  "outcome_bind (Ret a, w) f = f a w"
| "outcome_bind (Panic p, w) f = (Panic p, w)"

lemma outcome_bind_Ret_iff:
  "outcome_bind r f = (Ret b, w') \<longleftrightarrow> (\<exists>a w. r = (Ret a, w) \<and> f a w = (Ret b, w'))"
  by (cases r; cases "fst r") auto

text \<open>Reading a result off an evaluated case distinction.\<close>

lemma case_Ret_Inr_D:
  "(case x of (Ret (Inr a), s) \<Rightarrow> P a s | _ \<Rightarrow> False) \<Longrightarrow> \<exists>a s. x = (Ret (Inr a), s) \<and> P a s"
  by (auto split: prod.splits outcome.splits sum.splits)

lemma case_None_D: "(case x of (None, s) \<Rightarrow> P s | _ \<Rightarrow> False) \<Longrightarrow> \<exists>s. x = (None, s) \<and> P s"
  by (auto split: prod.splits option.splits)

section \<open>The strings package\<close>

fun str_split :: "char \<Rightarrow> string \<Rightarrow> string list" where
  "str_split c [] = [[]]"
| "str_split c (x # xs) =
     (if x = c then [] # str_split c xs
      else (case str_split c xs of [] \<Rightarrow> [[x]] | y # ys \<Rightarrow> (x # y) # ys))"

fun str_join :: "string \<Rightarrow> string list \<Rightarrow> string" where
  "str_join sep [] = []"
| "str_join sep [x] = x"
| "str_join sep (x # y # ys) = x @ sep @ str_join sep (y # ys)"

definition has_prefix :: "string \<Rightarrow> string \<Rightarrow> bool" where
  "has_prefix p s \<longleftrightarrow> take (length p) s = p"

definition trim_prefix :: "string \<Rightarrow> string \<Rightarrow> string" where
  "trim_prefix p s = (if has_prefix p s then drop (length p) s else s)"

definition trim_left :: "char \<Rightarrow> string \<Rightarrow> string" where
  "trim_left c s = dropWhile (\<lambda>x. x = c) s"

definition trim_right :: "char \<Rightarrow> string \<Rightarrow> string" where
  "trim_right c s = rev (dropWhile (\<lambda>x. x = c) (rev s))"

fun str_contains :: "string \<Rightarrow> string \<Rightarrow> bool" where
  "str_contains [] p = (p = [])"
| "str_contains (x # xs) p = (has_prefix p (x # xs) \<or> str_contains xs p)"

lemma str_split_not_Nil [simp]: "str_split c s \<noteq> []"
  by (induction s) (auto split: list.splits)

lemma str_split_last_free: "c \<notin> set (last (str_split c s))"
  by (induction s) (auto split: list.splits)

lemma str_split_free: "t \<in> set (str_split c s) \<Longrightarrow> c \<notin> set t"
  by (induction s arbitrary: t) (auto split: list.splits if_splits)

lemma str_split_no_sep: "c \<notin> set s \<Longrightarrow> str_split c s = [s]"
  by (induction s) auto

lemma str_split_append:
  "c \<notin> set s \<Longrightarrow> str_split c (s @ c # t) = s # str_split c t"
  by (induction s) auto

lemma str_join_Cons: "xs \<noteq> [] \<Longrightarrow> str_join sep (x # xs) = x @ sep @ str_join sep xs"
  by (cases xs) auto

lemma concat_str_split: "concat (str_split c s) = filter (\<lambda>x. x \<noteq> c) s"
proof (induction s)
  case (Cons x xs)
  then show ?case by (cases "str_split c xs") auto
qed simp

lemma str_join_split: "str_join [c] (str_split c s) = s"
proof (induction s)
  case Nil
  then show ?case by simp
next
  case (Cons x xs)
  obtain y ys where y: "str_split c xs = y # ys"
    by (meson list.exhaust str_split_not_Nil)
  have tail: "str_join [c] (y # ys) = xs" using Cons.IH y by simp
  show ?case
  proof (cases "x = c")
    case True
    then show ?thesis using tail y by (simp add: str_join_Cons)
  next
    case False
    then show ?thesis using tail y by (cases ys) auto
  qed
qed

lemma str_split_last_append:
  "c \<notin> set t \<Longrightarrow> last (str_split c (s @ c # t)) = t"
proof (induction s)
  case Nil
  then show ?case by (simp add: str_split_no_sep)
next
  case (Cons x xs)
  obtain y ys where "str_split c (xs @ c # t) = y # ys"
    by (meson list.exhaust str_split_not_Nil)
  moreover have "ys \<noteq> []"
    using Cons calculation
    by (metis in_set_conv_decomp last.simps str_join.simps(2) str_join_split)
  ultimately show ?case using Cons by auto
qed

lemma has_prefix_append [simp]: "has_prefix p (p @ s)"
  by (simp add: has_prefix_def)

lemma has_prefix_iff: "has_prefix p s \<longleftrightarrow> (\<exists>t. s = p @ t)"
  by (auto simp: has_prefix_def) (metis append_take_drop_id)

lemma trim_prefix_append [simp]: "trim_prefix p (p @ s) = s"
  by (simp add: trim_prefix_def)

lemma str_contains_iff: "str_contains s p \<longleftrightarrow> (\<exists>u v. s = u @ p @ v)"
proof (induction s)
  case Nil
  then show ?case by auto
next
  case (Cons x xs)
  have "(\<exists>u v. x # xs = u @ p @ v) \<longleftrightarrow>
        (\<exists>v. x # xs = p @ v) \<or> (\<exists>u v. xs = u @ p @ v)"
    by (metis append_Cons append_Nil list.exhaust list.sel(3))
  then show ?case using Cons by (simp add: has_prefix_iff)
qed

lemma trim_left_head: "trim_left c s = x # xs \<Longrightarrow> x \<noteq> c"
  by (auto simp: trim_left_def dropWhile_eq_Cons_conv)

section \<open>Decimal numbers\<close>

definition digit_char :: "nat \<Rightarrow> char" where
  "digit_char d = char_of (48 + d)"

fun show_nat :: "nat \<Rightarrow> string" where
  "show_nat n = (if n < 10 then [digit_char n] else show_nat (n div 10) @ [digit_char (n mod 10)])"

declare show_nat.simps [simp del]

definition show_int :: "int \<Rightarrow> string" where
  "show_int i = (if i < 0 then CHR ''-'' # show_nat (nat (- i)) else show_nat (nat i))"

definition read_digits :: "string \<Rightarrow> nat" where
  "read_digits s = fold (\<lambda>c n. 10 * n + (of_char c - 48)) s 0"

lemma of_char_digit_char: "d < 10 \<Longrightarrow> of_char (digit_char d) = (48 + d :: nat)"
  by (simp add: digit_char_def)

lemma read_digits_snoc: "read_digits (s @ [c]) = 10 * read_digits s + (of_char c - 48)"
  by (simp add: read_digits_def)

lemma read_show_nat: "read_digits (show_nat n) = n"
proof (induction n rule: show_nat.induct)
  case (1 n)
  show ?case
  proof (cases "n < 10")
    case True
    then show ?thesis
      by (simp add: show_nat.simps [of n] read_digits_def of_char_digit_char)
  next
    case False
    then show ?thesis
      using 1 by (simp add: show_nat.simps [of n] read_digits_snoc of_char_digit_char)
  qed
qed

lemma show_nat_inj [key_simps]: "show_nat m = show_nat n \<longleftrightarrow> m = n"
  by (metis read_show_nat)

lemma show_nat_chars: "c \<in> set (show_nat n) \<Longrightarrow> 48 \<le> (of_char c :: nat) \<and> (of_char c :: nat) < 58"
proof (induction n rule: show_nat.induct)
  case (1 n)
  then show ?case
    by (auto simp: show_nat.simps [of n] of_char_digit_char split: if_splits)
qed

lemma show_nat_not_Nil [simp]: "show_nat n \<noteq> []"
  by (subst show_nat.simps) auto

lemma show_nat_no_colon [key_simps]: "CHR '':'' \<notin> set (show_nat n)"
  using show_nat_chars [of "CHR '':''" n] by auto

lemma show_nat_no_brace [key_simps]: "CHR ''{'' \<notin> set (show_nat n)"
  using show_nat_chars [of "CHR ''{''" n] by auto

text \<open>Splitting a text at the first occurrence of a separator is unique.\<close>

lemma append_sep_eq:
  assumes "c \<notin> set a" "c \<notin> set a'"
  shows "a @ c # b = a' @ c # b' \<longleftrightarrow> a = a' \<and> b = b'"
  using assms by (auto simp: append_eq_append_conv2 append_eq_Cons_conv Cons_eq_append_conv)

lemma append_last_sep_eq:
  assumes "c \<notin> set b" "c \<notin> set b'"
  shows "a @ c # b = a' @ c # b' \<longleftrightarrow> a = a' \<and> b = b'"
  using assms by (auto simp: append_eq_append_conv2 append_eq_Cons_conv Cons_eq_append_conv)

section \<open>Signed 64-bit integers\<close>

text \<open>The value an \<^verbatim>\<open>int64\<close> holds after its bits are those of \<open>x\<close>.\<close>

definition i64 :: "int \<Rightarrow> int" where
  "i64 x = (x + 2 ^ 63) mod 2 ^ 64 - 2 ^ 63"

lemma i64_range: "- (2 ^ 63) \<le> i64 x \<and> i64 x < 2 ^ 63"
  by (simp add: i64_def)

lemma i64_id: "- (2 ^ 63) \<le> x \<Longrightarrow> x < 2 ^ 63 \<Longrightarrow> i64 x = x"
  by (simp add: i64_def)

lemma i64_uint: "0 \<le> x \<Longrightarrow> x < 2 ^ 64 \<Longrightarrow> i64 x = (if x < 2 ^ 63 then x else x - 2 ^ 64)"
proof (cases "x < 2 ^ 63")
  case False
  assume x: "0 \<le> x" "x < 2 ^ 64"
  have "(x + 2 ^ 63) mod 2 ^ 64 = (x + 2 ^ 63 - 2 ^ 64) mod 2 ^ 64"
    by (simp only: minus_mod_self2)
  also have "\<dots> = x + 2 ^ 63 - 2 ^ 64"
    using x False by (intro mod_pos_pos_trivial) auto
  finally show ?thesis using False by (simp add: i64_def)
qed (simp add: i64_id)

section \<open>Lists updated by index\<close>

definition bump_at :: "nat \<Rightarrow> nat list \<Rightarrow> nat list" where
  "bump_at i xs = (if i < length xs then xs[i := Suc (xs ! i)] else xs)"

end
