(* ===== verification/Redis.thy ===== *)
theory Redis
  imports Prelude
begin

text \<open>
  The Redis server the program talks to.  The server is not part of the repository, so
  it is a parameter: a record of the commands the program issues, each a function on an
  arbitrary world type \<open>'w\<close>.  What the proofs use of the documented behaviour of those
  commands is the locale \<open>redis_contract\<close>, stated over three views of the world: the
  integer a key holds, its text, and its time to live.  \<open>mem_redis\<close> is a key-value store
  that satisfies the contract, so the contract is not empty, and it is what the
  witnesses run on.  The theory also holds \<^verbatim>\<open>pkg/utils/cache.go\<close>.
\<close>

section \<open>The commands\<close>

text \<open>
  \<open>rd_eval\<close> is the client side of running a Lua script: given what the script does on the
  server it yields what the client sees.  \<open>rd_get\<close> yields no text for a missing key.
\<close>

record 'w redis =
  rd_get :: "string \<Rightarrow> 'w \<Rightarrow> (gerr + string option) \<times> 'w"
  rd_set :: "string \<Rightarrow> bytes \<Rightarrow> int \<Rightarrow> 'w \<Rightarrow> gerr option \<times> 'w"
  rd_incrby :: "string \<Rightarrow> int \<Rightarrow> 'w \<Rightarrow> (gerr + int) \<times> 'w"
  rd_decrby :: "string \<Rightarrow> int \<Rightarrow> 'w \<Rightarrow> (gerr + int) \<times> 'w"
  rd_expire :: "string \<Rightarrow> int \<Rightarrow> 'w \<Rightarrow> (gerr + bool) \<times> 'w"
  rd_eval :: "('w \<Rightarrow> (gerr + int) \<times> 'w) \<Rightarrow> 'w \<Rightarrow> (gerr + int) \<times> 'w"

section \<open>What the program relies on\<close>

definition counter_of :: "('w \<Rightarrow> string \<Rightarrow> int option) \<Rightarrow> 'w \<Rightarrow> string \<Rightarrow> int" where
  "counter_of cval w k = (case cval w k of None \<Rightarrow> 0 | Some c \<Rightarrow> c)"

locale redis_contract =
  fixes R :: "('w, 'x) redis_scheme"
    and cval :: "'w \<Rightarrow> string \<Rightarrow> int option"
    and ctext :: "'w \<Rightarrow> string \<Rightarrow> string option"
    and cttl :: "'w \<Rightarrow> string \<Rightarrow> int option"
  assumes get_ok: "rd_get R k w = (Inr t, w') \<Longrightarrow>
      t = ctext w k \<and> cval w' = cval w \<and> ctext w' = ctext w \<and> cttl w' = cttl w"
    and incrby_ok: "rd_incrby R k n w = (Inr v, w') \<Longrightarrow>
      v = counter_of cval w k + n \<and> cval w' = (cval w)(k \<mapsto> v) \<and>
      (\<forall>j. j \<noteq> k \<longrightarrow> ctext w' j = ctext w j) \<and> cttl w' = cttl w"
    and decrby_ok: "rd_decrby R k n w = (Inr v, w') \<Longrightarrow>
      v = counter_of cval w k - n \<and> cval w' = (cval w)(k \<mapsto> v) \<and>
      (\<forall>j. j \<noteq> k \<longrightarrow> ctext w' j = ctext w j) \<and> cttl w' = cttl w"
    and expire_ok: "rd_expire R k s w = (Inr b, w') \<Longrightarrow> 0 < s \<Longrightarrow> cval w k \<noteq> None \<Longrightarrow>
      cval w' = cval w \<and> ctext w' = ctext w \<and> cttl w' = (cttl w)(k \<mapsto> s)"
    and eval_ok: "rd_eval R f w = (Inr v, w') \<Longrightarrow> f w = (Inr v, w')"
begin

lemmas redis_laws = get_ok incrby_ok decrby_ok expire_ok

lemma counter_of_upd: "cval w' = (cval w)(k \<mapsto> v) \<Longrightarrow>
    counter_of cval w' j = (if j = k then v else counter_of cval w j)"
  by (simp add: counter_of_def)

end

section \<open>A key-value store that satisfies it\<close>

text \<open>Each live key holds a text and, when it expires, its remaining seconds.\<close>

type_synonym kv = "string \<Rightarrow> (string \<times> int option) option"

definition read_int :: "string \<Rightarrow> int option" where
  "read_int s =
     (case s of
        [] \<Rightarrow> None
      | c # cs \<Rightarrow>
          let digits = (\<lambda>t. t \<noteq> [] \<and> list_all (\<lambda>x. 48 \<le> (of_char x :: nat) \<and> (of_char x :: nat) < 58) t)
          in if c = CHR ''-'' then (if digits cs then Some (- int (read_digits cs)) else None)
             else if digits s then Some (int (read_digits s)) else None)"

definition in_i64 :: "int \<Rightarrow> bool" where
  "in_i64 x \<longleftrightarrow> - (2 ^ 63) \<le> x \<and> x < 2 ^ 63"

definition kv_num :: "kv \<Rightarrow> string \<Rightarrow> int option" where
  "kv_num w k = (case w k of None \<Rightarrow> None | Some (t, _) \<Rightarrow> read_int t)"

definition kv_txt :: "kv \<Rightarrow> string \<Rightarrow> string option" where
  "kv_txt w k = map_option fst (w k)"

definition kv_ttl :: "kv \<Rightarrow> string \<Rightarrow> int option" where
  "kv_ttl w k = (case w k of None \<Rightarrow> None | Some (_, x) \<Rightarrow> x)"

definition kv_incrby :: "string \<Rightarrow> int \<Rightarrow> kv \<Rightarrow> (gerr + int) \<times> kv" where
  "kv_incrby k n w =
     (case w k of
        None \<Rightarrow> if in_i64 n then (Inr n, w(k \<mapsto> (show_int n, None)))
                else (Inl ''ERR value is not an integer or out of range'', w)
      | Some (t, x) \<Rightarrow>
          (case read_int t of
             None \<Rightarrow> (Inl ''ERR value is not an integer or out of range'', w)
           | Some c \<Rightarrow>
               if in_i64 (c + n) then (Inr (c + n), w(k \<mapsto> (show_int (c + n), x)))
               else (Inl ''ERR increment or decrement would overflow'', w)))"

definition kv_expire :: "string \<Rightarrow> int \<Rightarrow> kv \<Rightarrow> (gerr + bool) \<times> kv" where
  "kv_expire k s w =
     (case w k of
        None \<Rightarrow> (Inr False, w)
      | Some (t, _) \<Rightarrow> if s \<le> 0 then (Inr True, w(k := None)) else (Inr True, w(k \<mapsto> (t, Some s))))"

definition mem_redis :: "kv redis" where
  "mem_redis =
     \<lparr>rd_get = (\<lambda>k w. (Inr (kv_txt w k), w)),
      rd_set = (\<lambda>k v s w. (None, w(k \<mapsto> (v, if s = 0 then None else Some s)))),
      rd_incrby = kv_incrby,
      rd_decrby = (\<lambda>k n. kv_incrby k (- n)),
      rd_expire = kv_expire,
      rd_eval = (\<lambda>f. f)\<rparr>"

lemma read_show_int: "read_int (show_int v) = Some v"
proof -
  have digits: "list_all (\<lambda>x. 48 \<le> (of_char x :: nat) \<and> (of_char x :: nat) < 58) (show_nat n)" for n
    using show_nat_chars by (auto simp: list_all_iff)
  have nonneg: "read_int (show_nat n) = Some (int n)" for n
  proof -
    obtain c cs where s: "show_nat n = c # cs" by (meson list.exhaust show_nat_not_Nil)
    have "c \<noteq> CHR ''-''" using show_nat_chars [of c n] s by auto
    then show ?thesis using digits [of n] s read_show_nat [of n] by (simp add: read_int_def)
  qed
  show ?thesis
    using nonneg digits by (simp add: show_int_def read_int_def read_show_nat)
qed

lemma kv_incrby_shape:
  assumes "kv_incrby k n w = (Inr v, w')"
  shows "v = counter_of kv_num w k + n \<and> w' = w(k \<mapsto> (show_int v, kv_ttl w k))"
proof (cases "w k")
  case None
  then show ?thesis
    using assms by (auto simp: kv_incrby_def counter_of_def kv_num_def kv_ttl_def split: if_splits)
next
  case (Some p)
  then show ?thesis
    using assms
    by (cases p) (auto simp: kv_incrby_def counter_of_def kv_num_def kv_ttl_def
        split: if_splits option.splits)
qed

lemma kv_views_upd:
  "kv_num (w(k \<mapsto> (show_int v, x))) = (kv_num w)(k \<mapsto> v)"
  "kv_ttl (w(k \<mapsto> (t, x))) = (kv_ttl w)(k := x)"
  "kv_txt (w(k \<mapsto> (t, x))) = (kv_txt w)(k \<mapsto> t)"
  by (simp_all add: kv_num_def kv_ttl_def kv_txt_def fun_eq_iff read_show_int)

lemma kv_incrby_ok:
  assumes "kv_incrby k n w = (Inr v, w')"
  shows "v = counter_of kv_num w k + n \<and> kv_num w' = (kv_num w)(k \<mapsto> v) \<and>
    (\<forall>j. j \<noteq> k \<longrightarrow> kv_txt w' j = kv_txt w j) \<and> kv_ttl w' = kv_ttl w"
  using kv_incrby_shape [OF assms] by (simp add: kv_views_upd)

interpretation mem: redis_contract mem_redis kv_num kv_txt kv_ttl
proof (unfold_locales, goal_cases)
  case (1 k w t w')
  then show ?case by (auto simp: mem_redis_def)
next
  case (2 k n w v w')
  then show ?case by (simp add: mem_redis_def kv_incrby_ok)
next
  case (3 k n w v w')
  then have "kv_incrby k (- n) w = (Inr v, w')" by (simp add: mem_redis_def)
  from kv_incrby_ok [OF this] show ?case by simp
next
  case (4 k s w b w')
  then obtain t x where w: "w k = Some (t, x)" "read_int t \<noteq> None"
    by (auto simp: kv_num_def split: option.splits prod.splits)
  then have w': "w' = w(k \<mapsto> (t, Some s))"
    using 4 by (simp add: mem_redis_def kv_expire_def)
  have "kv_num w' = kv_num w" "kv_txt w' = kv_txt w" "kv_ttl w' = (kv_ttl w)(k \<mapsto> s)"
    using w by (simp_all add: w' kv_num_def kv_txt_def kv_ttl_def fun_eq_iff)
  then show ?case by simp
next
  case (5 f w v w')
  then show ?case by (simp add: mem_redis_def)
qed

section \<open>pkg/utils/cache.go\<close>

text \<open>
  \<^verbatim>\<open>IncreaseAndSetExpire\<close>: errors are logged and swallowed; durations are
  seconds.  Only the first increment of a key sets its expiry.
\<close>

definition increase_and_set_expire ::
  "('w, 'x) redis_scheme \<Rightarrow> string \<Rightarrow> int \<Rightarrow> int \<Rightarrow> 'w \<Rightarrow> 'w" where
  "increase_and_set_expire R key val expire_time w =
     (case rd_incrby R key val w of
        (Inl _, w1) \<Rightarrow> w1
      | (Inr result, w1) \<Rightarrow>
          if result = val \<and> 0 < expire_time then snd (rd_expire R key expire_time w1) else w1)"

end
