(* ===== verification/RateLimit.thy ===== *)
theory RateLimit
  imports Redis
begin

text \<open>
  The rate limiter: the Lua script \<^verbatim>\<open>ratelimit/v1/lua/ratelimit.lua\<close>
  that runs on the Redis server, \<^verbatim>\<open>RedisAllow\<close> of
  \<^verbatim>\<open>ratelimit/v1/lua.go\<close> that calls it, and \<^verbatim>\<open>RateLimiter\<close> of
  \<^verbatim>\<open>ratelimit/v1/ratelimit.go\<close>.  Parameters beside Redis: the clock, the
  key functions of the \<^verbatim>\<open>cachekey\<close> package, and \<open>tonum\<close>, Lua's
  \<^verbatim>\<open>tonumber\<close> on the text of a quota (quotas are integers).
\<close>

section \<open>Environment\<close>

record go_time =
  tm_day :: nat
  tm_unix :: int

record 'w limiter_env = "'w redis" +
  now :: "'w \<Rightarrow> go_time \<times> 'w"
  tonum :: "string \<Rightarrow> int option"
  key_erigon_total :: string
  key_chain_hour :: "nat \<Rightarrow> go_time \<Rightarrow> string"
  key_chain_day :: "nat \<Rightarrow> go_time \<Rightarrow> string"
  key_total_hour :: "go_time \<Rightarrow> string"
  key_total_day :: "go_time \<Rightarrow> string"

section \<open>The script\<close>

definition sec_quota_key :: "string \<Rightarrow> string \<Rightarrow> string" where
  "sec_quota_key chain_id api_key = ''q:s:'' @ chain_id @ '':'' @ api_key"

definition day_quota_key :: "string \<Rightarrow> string \<Rightarrow> string" where
  "day_quota_key chain_id api_key = ''q:d:'' @ chain_id @ '':'' @ api_key"

definition sec_rate_limit_key :: "string \<Rightarrow> string \<Rightarrow> string" where
  "sec_rate_limit_key chain_id api_key = ''s:'' @ chain_id @ '':'' @ api_key"

definition day_rate_limit_key :: "string \<Rightarrow> string \<Rightarrow> string \<Rightarrow> string" where
  "day_rate_limit_key chain_id api_key day = ''d:'' @ chain_id @ '':'' @ api_key @ '':'' @ day"

text \<open>
  The script's counting step, which it has twice: \<^verbatim>\<open>INCRBY\<close>, and
  \<^verbatim>\<open>EXPIRE\<close> when the counter was created by it.  A failing command aborts the
  script; what it did before stays done.
\<close>

definition lua_count :: "('w, 'x) redis_scheme \<Rightarrow> string \<Rightarrow> int \<Rightarrow> int \<Rightarrow> 'w \<Rightarrow> (gerr + int) \<times> 'w" where
  "lua_count R key n expire w =
     (case rd_incrby R key n w of
        (Inl e, w1) \<Rightarrow> (Inl e, w1)
      | (Inr current, w1) \<Rightarrow>
          if current = n then
            (case rd_expire R key expire w1 of
               (Inl e, w2) \<Rightarrow> (Inl e, w2)
             | (Inr _, w2) \<Rightarrow> (Inr current, w2))
          else (Inr current, w1))"

text \<open>\<^verbatim>\<open>tonumber(redis.call("GET", key))\<close>; a missing key is \<open>None\<close>.\<close>

definition lua_quota ::
  "('w, 'x) redis_scheme \<Rightarrow> (string \<Rightarrow> int option) \<Rightarrow> string \<Rightarrow> 'w \<Rightarrow> (gerr + int option) \<times> 'w" where
  "lua_quota R tn key w =
     (case rd_get R key w of
        (Inl e, w1) \<Rightarrow> (Inl e, w1)
      | (Inr t, w1) \<Rightarrow> (Inr (Option.bind t tn), w1))"

text \<open>The script after the per-second check.\<close>

definition lua_day_part ::
  "('w, 'x) redis_scheme \<Rightarrow> (string \<Rightarrow> int option) \<Rightarrow>
   string \<Rightarrow> string \<Rightarrow> string \<Rightarrow> int \<Rightarrow> string \<Rightarrow> 'w \<Rightarrow> (gerr + int) \<times> 'w" where
  "lua_day_part R tn api_key chain_id day n revert w =
     (case lua_quota R tn (day_quota_key chain_id api_key) w of
        (Inl e, w1) \<Rightarrow> (Inl e, w1)
      | (Inr None, w1) \<Rightarrow> (Inr (- 1), w1)
      | (Inr (Some day_quota), w1) \<Rightarrow>
          (case lua_count R (day_rate_limit_key chain_id api_key day) n 129600 w1 of
             (Inl e, w2) \<Rightarrow> (Inl e, w2)
           | (Inr current, w2) \<Rightarrow>
               if day_quota < current then
                 (if revert = ''1'' then
                    (case rd_decrby R (day_rate_limit_key chain_id api_key day) (current - day_quota) w2 of
                       (Inl e, w3) \<Rightarrow> (Inl e, w3)
                     | (Inr _, w3) \<Rightarrow> (Inr (- 3), w3))
                  else (Inr (- 3), w2))
               else (Inr 1, w2)))"

definition lua_ratelimit ::
  "('w, 'x) redis_scheme \<Rightarrow> (string \<Rightarrow> int option) \<Rightarrow>
   string \<Rightarrow> string \<Rightarrow> string \<Rightarrow> int \<Rightarrow> string \<Rightarrow> 'w \<Rightarrow> (gerr + int) \<times> 'w" where
  "lua_ratelimit R tn api_key chain_id day n revert w =
     (case lua_quota R tn (sec_quota_key chain_id api_key) w of
        (Inl e, w1) \<Rightarrow> (Inl e, w1)
      | (Inr None, w1) \<Rightarrow> (Inr (- 1), w1)
      | (Inr (Some sec_quota), w1) \<Rightarrow>
          (case lua_count R (sec_rate_limit_key chain_id api_key) n n w1 of
             (Inl e, w2) \<Rightarrow> (Inl e, w2)
           | (Inr current, w2) \<Rightarrow>
               if sec_quota < current then (Inr (- 2), w2)
               else lua_day_part R tn api_key chain_id day n revert w2))"

section \<open>lua.go\<close>

text \<open>The API key in braces is the cluster hash tag.\<close>

definition hash_tag :: "string \<Rightarrow> string" where
  "hash_tag api_key = ''{'' @ api_key @ ''}''"

definition redis_allow ::
  "('w, 'x) limiter_env_scheme \<Rightarrow> nat \<Rightarrow> string \<Rightarrow> go_time \<Rightarrow> int \<Rightarrow> bool \<Rightarrow> 'w \<Rightarrow> (gerr + int) \<times> 'w" where
  "redis_allow E chain_id api_key t n revert w =
     (if n \<le> 0 then (Inl ''n must be greater than 0'', w)
      else rd_eval E
        (lua_ratelimit E (tonum E) (hash_tag api_key) (show_nat chain_id) (show_nat (tm_day t)) n
           (if revert then ''1'' else ''0'')) w)"

section \<open>ratelimit.go\<close>

datatype limit_error = ExceededRateLimitError | ApiKeyNotExistError | OtherLimitError gerr

definition Allow :: int where "Allow = 1"
definition NotExist :: int where "NotExist = - 1"
definition ExceedSecondLimit :: int where "ExceedSecondLimit = - 2"
definition ExceedDayLimit :: int where "ExceedDayLimit = - 3"

lemmas limit_codes = Allow_def NotExist_def ExceedSecondLimit_def ExceedDayLimit_def

text \<open>The loop over the whitelist.\<close>

fun check_in_white_list :: "string list \<Rightarrow> string \<Rightarrow> bool" where
  "check_in_white_list [] api_key = False"
| "check_in_white_list (k # ks) api_key = (if k = api_key then True else check_in_white_list ks api_key)"

definition whitelist_day_key :: "nat \<Rightarrow> string \<Rightarrow> go_time \<Rightarrow> string" where
  "whitelist_day_key chain_id api_key t =
     ''d:'' @ show_nat chain_id @ '':{'' @ api_key @ ''}:'' @ show_nat (tm_day t)"

text \<open>
  \<^verbatim>\<open>allowWhitelist\<close>: whether the key is whitelisted, and the error of the
  counting, if any.  36 hours are 129600 seconds.
\<close>

definition allow_whitelist ::
  "('w, 'x) limiter_env_scheme \<Rightarrow> string list \<Rightarrow> nat \<Rightarrow> string \<Rightarrow> int \<Rightarrow> 'w \<Rightarrow> (bool \<times> gerr option) \<times> 'w" where
  "allow_whitelist E whitelist chain_id api_key n w =
     (if check_in_white_list whitelist api_key then
        (let (t, w1) = now E w;
             key = whitelist_day_key chain_id api_key t
         in case rd_incrby E key n w1 of
              (Inl e, w2) \<Rightarrow> ((True, Some e), w2)
            | (Inr count, w2) \<Rightarrow>
                if count = n then
                  (case rd_expire E key 129600 w2 of
                     (Inl e, w3) \<Rightarrow> ((True, Some e), w3)
                   | (Inr _, w3) \<Rightarrow> ((True, None), w3))
                else ((True, None), w2))
      else ((False, None), w))"

definition erigon_count :: "('w, 'x) limiter_env_scheme \<Rightarrow> int \<Rightarrow> 'w \<Rightarrow> 'w" where
  "erigon_count E n w = snd (rd_incrby E (key_erigon_total E) n w)"

text \<open>The statistics \<^verbatim>\<open>Allow\<close> keeps of the calls it lets through.\<close>

definition count_allowed :: "('w, 'x) limiter_env_scheme \<Rightarrow> nat \<Rightarrow> go_time \<Rightarrow> int \<Rightarrow> 'w \<Rightarrow> 'w" where
  "count_allowed E chain_id t n w =
     (let w1 = increase_and_set_expire E (key_chain_hour E chain_id t) n 5400 w;
          w2 = increase_and_set_expire E (key_chain_day E chain_id t) n 129600 w1;
          w3 = increase_and_set_expire E (key_total_hour E t) n 5400 w2
      in increase_and_set_expire E (key_total_day E t) n 129600 w3)"

definition allow ::
  "('w, 'x) limiter_env_scheme \<Rightarrow> string list \<Rightarrow> nat \<Rightarrow> string \<Rightarrow> int \<Rightarrow> 'w \<Rightarrow> limit_error option \<times> 'w" where
  "allow E whitelist chain_id api_key n w =
     (case allow_whitelist E whitelist chain_id api_key n w of
        ((_, Some e), w1) \<Rightarrow> (Some (OtherLimitError e), w1)
      | ((True, None), w1) \<Rightarrow> (None, w1)
      | ((False, None), w1) \<Rightarrow>
          (let (t, w2) = now E w1
           in case redis_allow E chain_id api_key t n True w2 of
                (Inl e, w3) \<Rightarrow> (Some (OtherLimitError e), w3)
              | (Inr res, w3) \<Rightarrow>
                  (let w4 = (if res = 1 \<and> 0 < n then count_allowed E chain_id t n w3 else w3)
                   in if res = NotExist then (Some ApiKeyNotExistError, w4)
                      else if res \<noteq> Allow then (Some ExceededRateLimitError, w4)
                      else (None, w4))))"

section \<open>The keys\<close>

text \<open>
  The five kinds of key differ in their first characters, so counting one of them leaves
  the others alone.
\<close>

lemma script_keys_distinct [key_simps]:
  "sec_rate_limit_key c a \<noteq> day_quota_key c' a'"
  "sec_rate_limit_key c a \<noteq> sec_quota_key c' a'"
  "sec_rate_limit_key c a \<noteq> day_rate_limit_key c' a' d"
  "day_rate_limit_key c a d \<noteq> day_quota_key c' a'"
  "day_rate_limit_key c a d \<noteq> sec_quota_key c' a'"
  "sec_quota_key c a \<noteq> day_quota_key c' a'"
  by (simp_all add: sec_quota_key_def day_quota_key_def sec_rate_limit_key_def day_rate_limit_key_def)

lemmas script_keys_distinct_sym [key_simps] = script_keys_distinct [symmetric]

lemma day_rate_limit_key_inj [key_simps]:
  "day_rate_limit_key (show_nat c) (hash_tag a) (show_nat d) =
   day_rate_limit_key (show_nat c') (hash_tag a') (show_nat d') \<longleftrightarrow> c = c' \<and> a = a' \<and> d = d'"
proof -
  have "day_rate_limit_key (show_nat c) (hash_tag a) (show_nat d) =
      ''d:'' @ show_nat c @ CHR '':'' # (CHR ''{'' # a @ ''}'') @ CHR '':'' # show_nat d" for c a d
    by (simp add: day_rate_limit_key_def hash_tag_def)
  then have "day_rate_limit_key (show_nat c) (hash_tag a) (show_nat d) =
      day_rate_limit_key (show_nat c') (hash_tag a') (show_nat d') \<longleftrightarrow>
      show_nat c = show_nat c' \<and> CHR ''{'' # a @ ''}'' = CHR ''{'' # a' @ ''}'' \<and> show_nat d = show_nat d'"
    by (simp only: same_append_eq append_sep_eq [OF show_nat_no_colon show_nat_no_colon]
        append_last_sep_eq [OF show_nat_no_colon show_nat_no_colon])
  then show ?thesis by (simp add: key_simps)
qed

text \<open>Whitelisted calls are counted under the key the script counts under.\<close>

lemma whitelist_day_key_eq:
  "whitelist_day_key chain_id api_key t =
   day_rate_limit_key (show_nat chain_id) (hash_tag api_key) (show_nat (tm_day t))"
  by (simp add: whitelist_day_key_def day_rate_limit_key_def hash_tag_def)

lemma check_in_white_list_iff: "check_in_white_list ks k \<longleftrightarrow> k \<in> set ks"
  by (induction ks) auto

section \<open>The script against the contract of Redis\<close>

context redis_contract
begin

lemma lua_quota_ok:
  "lua_quota R tn key w = (Inr q, w') \<Longrightarrow>
   Option.bind (ctext w key) tn = q \<and> cval w' = cval w \<and> ctext w' = ctext w \<and> cttl w' = cttl w"
  by (auto simp: lua_quota_def split: prod.splits sum.splits dest: get_ok)

lemma lua_count_ok:
  assumes run: "lua_count R key n x w = (Inr v, w')" and x: "0 < x"
  shows "v = counter_of cval w key + n \<and> cval w' = (cval w)(key \<mapsto> v) \<and>
    (\<forall>j. j \<noteq> key \<longrightarrow> ctext w' j = ctext w j) \<and>
    cttl w' = (if v = n then (cttl w)(key \<mapsto> x) else cttl w)"
proof -
  obtain w1 where i: "rd_incrby R key n w = (Inr v, w1)"
    and e: "v = n \<Longrightarrow> \<exists>b. rd_expire R key x w1 = (Inr b, w')" "v \<noteq> n \<Longrightarrow> w' = w1"
    using run by (auto simp: lua_count_def split: prod.splits sum.splits if_splits)
  note inc = incrby_ok [OF i]
  show ?thesis
  proof (cases "v = n")
    case True
    with e obtain b where b: "rd_expire R key x w1 = (Inr b, w')" by blast
    have "cval w' = cval w1 \<and> ctext w' = ctext w1 \<and> cttl w' = (cttl w1)(key \<mapsto> x)"
      using expire_ok [OF b x] inc by simp
    then show ?thesis using inc True by simp
  next
    case False
    then show ?thesis using inc e by simp
  qed
qed

text \<open>The day part, by result.\<close>

lemma lua_day_part_allowed:
  assumes "lua_day_part R tn a c d n rv w = (Inr 1, w')"
  shows "\<exists>q. Option.bind (ctext w (day_quota_key c a)) tn = Some q \<and>
    counter_of cval w (day_rate_limit_key c a d) + n \<le> q \<and>
    cval w' = (cval w)(day_rate_limit_key c a d \<mapsto> counter_of cval w (day_rate_limit_key c a d) + n)"
  using assms
  by (auto simp: lua_day_part_def not_less counter_of_def
      split: prod.splits sum.splits option.splits if_splits dest!: lua_quota_ok lua_count_ok)

lemma lua_day_part_exceeded:
  assumes "lua_day_part R tn a c d n rv w = (Inr (- 3), w')"
  shows "\<exists>q. Option.bind (ctext w (day_quota_key c a)) tn = Some q \<and>
    q < counter_of cval w (day_rate_limit_key c a d) + n \<and>
    cval w' = (cval w)(day_rate_limit_key c a d \<mapsto>
      (if rv = ''1'' then q else counter_of cval w (day_rate_limit_key c a d) + n))"
  using assms
  by (auto simp: lua_day_part_def counter_of_def fun_eq_iff
      split: prod.splits sum.splits option.splits if_splits
      dest!: lua_quota_ok lua_count_ok decrby_ok)

lemma lua_day_part_codes:
  "lua_day_part R tn a c d n rv w = (Inr r, w') \<Longrightarrow> r \<in> {1, - 1, - 3}"
  by (auto simp: lua_day_part_def split: prod.splits sum.splits option.splits if_splits)

lemma lua_day_part_unknown:
  "lua_day_part R tn a c d n rv w = (Inr (- 1), w') \<Longrightarrow>
   Option.bind (ctext w (day_quota_key c a)) tn = None \<and> cval w' = cval w"
  by (auto simp: lua_day_part_def split: prod.splits sum.splits option.splits if_splits
      dest!: lua_quota_ok)

lemma lua_day_part_ttl:
  assumes "lua_day_part R tn a c d n rv w = (Inr r, w')" "j \<noteq> day_rate_limit_key c a d"
  shows "cttl w' j = cttl w j"
  using assms
  by (auto simp: lua_day_part_def split: prod.splits sum.splits option.splits if_splits
      dest!: lua_quota_ok lua_count_ok decrby_ok)

text \<open>The script leaves the quotas alone.\<close>

lemma lua_day_part_quotas:
  assumes "lua_day_part R tn a c d n rv w = (Inr r, w')"
  shows "ctext w' (day_quota_key c a) = ctext w (day_quota_key c a)"
  using assms
  by (auto simp: lua_day_part_def key_simps split: prod.splits sum.splits option.splits if_splits
      dest!: lua_quota_ok lua_count_ok decrby_ok)

text \<open>How far a run of the whole script got, and the state its day part started from.\<close>

lemma lua_ratelimit_cases:
  assumes run: "lua_ratelimit R tn a c d n rv w = (Inr r, w')" and n: "0 < n"
  obtains (unknown) "r = - 1" "Option.bind (ctext w (sec_quota_key c a)) tn = None" "cval w' = cval w"
  | (second) sq where "r = - 2" "Option.bind (ctext w (sec_quota_key c a)) tn = Some sq"
      "sq < counter_of cval w (sec_rate_limit_key c a) + n"
      "cval w' = (cval w)(sec_rate_limit_key c a \<mapsto> counter_of cval w (sec_rate_limit_key c a) + n)"
  | (day) sq w2 where "Option.bind (ctext w (sec_quota_key c a)) tn = Some sq"
      "counter_of cval w (sec_rate_limit_key c a) + n \<le> sq"
      "cval w2 = (cval w)(sec_rate_limit_key c a \<mapsto> counter_of cval w (sec_rate_limit_key c a) + n)"
      "ctext w2 (day_quota_key c a) = ctext w (day_quota_key c a)"
      "counter_of cval w (sec_rate_limit_key c a) = 0 \<Longrightarrow> cttl w2 (sec_rate_limit_key c a) = Some n"
      "lua_day_part R tn a c d n rv w2 = (Inr r, w')"
proof -
  obtain q w1 where q: "lua_quota R tn (sec_quota_key c a) w = (Inr q, w1)"
    using run by (auto simp: lua_ratelimit_def split: prod.splits sum.splits)
  note q_ok = lua_quota_ok [OF q]
  show thesis
  proof (cases q)
    case None
    then show thesis using unknown run q q_ok by (auto simp: lua_ratelimit_def)
  next
    case (Some sq)
    then obtain v w2 where v: "lua_count R (sec_rate_limit_key c a) n n w1 = (Inr v, w2)"
      using run q by (auto simp: lua_ratelimit_def split: prod.splits sum.splits)
    note v_ok = lua_count_ok [OF v n]
    have rest: "(if sq < v then (Inr (- 2), w2) else lua_day_part R tn a c d n rv w2) = (Inr r, w')"
      using run q v Some by (simp add: lua_ratelimit_def)
    have cnt: "v = counter_of cval w (sec_rate_limit_key c a) + n"
      "cval w2 = (cval w)(sec_rate_limit_key c a \<mapsto> v)"
      "ctext w2 (day_quota_key c a) = ctext w (day_quota_key c a)"
      "counter_of cval w (sec_rate_limit_key c a) = 0 \<Longrightarrow> cttl w2 (sec_rate_limit_key c a) = Some n"
      using v_ok q_ok by (simp_all add: counter_of_def key_simps)
    have sq: "Option.bind (ctext w (sec_quota_key c a)) tn = Some sq" using q_ok Some by simp
    show thesis
      using second [OF _ sq] day [OF sq] rest cnt by (cases "sq < v") auto
  qed
qed

end

section \<open>What the script promises\<close>

text \<open>
  The abstract limiter: two quotas (absent for an unknown key), the calls counted in the
  current second window and day, and a request of \<open>n\<close> calls, which puts the day counter back to
  the quota when it is too large for it, or does not.  It yields the result code and the new
  counters.
\<close>

fun limit_spec :: "bool \<Rightarrow> int option \<Rightarrow> int option \<Rightarrow> int \<Rightarrow> int \<times> int \<Rightarrow> int \<times> int \<times> int" where
  "limit_spec revert None dq n (s, d) = (- 1, s, d)"
| "limit_spec revert (Some sq) dq n (s, d) =
     (if sq < s + n then (- 2, s + n, d)
      else (case dq of
              None \<Rightarrow> (- 1, s + n, d)
            | Some q \<Rightarrow> if q < d + n then (- 3, s + n, if revert then q else d + n) else (1, s + n, d + n)))"

context redis_contract
begin

lemma lua_day_part_spec:
  assumes run: "lua_day_part R tn a c d n rv w = (Inr r, w')"
  shows "case Option.bind (ctext w (day_quota_key c a)) tn of
      None \<Rightarrow> r = - 1 \<and> cval w' = cval w
    | Some q \<Rightarrow>
        (if q < counter_of cval w (day_rate_limit_key c a d) + n
         then r = - 3 \<and> cval w' = (cval w)(day_rate_limit_key c a d \<mapsto>
                (if rv = ''1'' then q else counter_of cval w (day_rate_limit_key c a d) + n))
         else r = 1 \<and> cval w' = (cval w)(day_rate_limit_key c a d \<mapsto>
                counter_of cval w (day_rate_limit_key c a d) + n))"
proof -
  consider "r = 1" | "r = - 1" | "r = - 3" using lua_day_part_codes [OF run] by blast
  then show ?thesis
  proof cases
    case 1
    then show ?thesis using lua_day_part_allowed [OF run [unfolded 1]] by auto
  next
    case 2
    then show ?thesis using lua_day_part_unknown [OF run [unfolded 2]] by auto
  next
    case 3
    then show ?thesis using lua_day_part_exceeded [OF run [unfolded 3]] by auto
  qed
qed

lemma lua_ratelimit_spec:
  assumes run: "lua_ratelimit R tn a c d n rv w = (Inr r, w')" and n: "0 < n"
  shows "(r, counter_of cval w' (sec_rate_limit_key c a), counter_of cval w' (day_rate_limit_key c a d)) =
    limit_spec (rv = ''1'') (Option.bind (ctext w (sec_quota_key c a)) tn) (Option.bind (ctext w (day_quota_key c a)) tn) n
      (counter_of cval w (sec_rate_limit_key c a), counter_of cval w (day_rate_limit_key c a d))"
  using run n
proof (cases rule: lua_ratelimit_cases)
  case (day sq w2)
  show ?thesis
    using lua_day_part_spec [OF day(6)] day(1-4)
    by (auto simp: counter_of_def key_simps split: option.splits if_splits)
qed (auto simp: counter_of_def key_simps)

lemma lua_ratelimit_quotas:
  assumes run: "lua_ratelimit R tn a c d n rv w = (Inr r, w')" and n: "0 < n"
  shows "ctext w' (day_quota_key c a) = ctext w (day_quota_key c a)"
  using run n
  by (auto simp: lua_ratelimit_def key_simps split: prod.splits sum.splits option.splits if_splits
      dest!: lua_quota_ok lua_count_ok lua_day_part_quotas)

lemma lua_ratelimit_window:
  assumes run: "lua_ratelimit R tn a c d n rv w = (Inr 1, w')" and n: "0 < n"
    and fresh: "counter_of cval w (sec_rate_limit_key c a) = 0"
  shows "cttl w' (sec_rate_limit_key c a) = Some n"
  using run n
proof (cases rule: lua_ratelimit_cases)
  case (day sq w2)
  then show ?thesis
    using fresh lua_day_part_ttl [OF day(6)] by (simp add: key_simps)
qed auto

end

section \<open>The limiter against the contract\<close>

locale limiter_contract =
  redis_contract E cval ctext cttl
  for E :: "('w, 'x) limiter_env_scheme"
    and cval :: "'w \<Rightarrow> string \<Rightarrow> int option"
    and ctext :: "'w \<Rightarrow> string \<Rightarrow> string option"
    and cttl :: "'w \<Rightarrow> string \<Rightarrow> int option" +
  assumes now_ok: "now E w = (t, w') \<Longrightarrow> cval w' = cval w \<and> ctext w' = ctext w \<and> cttl w' = cttl w"
begin

lemma redis_allow_spec:
  assumes "redis_allow E c k t n rv w = (Inr r, w')"
  shows "0 < n \<and>
    (r, counter_of cval w' (sec_rate_limit_key (show_nat c) (hash_tag k)),
        counter_of cval w' (day_rate_limit_key (show_nat c) (hash_tag k) (show_nat (tm_day t)))) =
    limit_spec rv (Option.bind (ctext w (sec_quota_key (show_nat c) (hash_tag k))) (tonum E))
      (Option.bind (ctext w (day_quota_key (show_nat c) (hash_tag k))) (tonum E)) n
      (counter_of cval w (sec_rate_limit_key (show_nat c) (hash_tag k)),
       counter_of cval w (day_rate_limit_key (show_nat c) (hash_tag k) (show_nat (tm_day t))))"
proof -
  have n: "0 < n" and run: "lua_ratelimit E (tonum E) (hash_tag k) (show_nat c)
      (show_nat (tm_day t)) n (if rv then ''1'' else ''0'') w = (Inr r, w')"
    using assms by (auto simp: redis_allow_def split: if_splits dest: eval_ok)
  show ?thesis using lua_ratelimit_spec [OF run n] n by (cases rv) simp_all
qed

lemma redis_allow_quotas:
  assumes "redis_allow E c k t n rv w = (Inr r, w')"
  shows "ctext w' (day_quota_key (show_nat c) (hash_tag k)) = ctext w (day_quota_key (show_nat c) (hash_tag k))"
proof -
  have n: "0 < n" and run: "lua_ratelimit E (tonum E) (hash_tag k) (show_nat c)
      (show_nat (tm_day t)) n (if rv then ''1'' else ''0'') w = (Inr r, w')"
    using assms by (auto simp: redis_allow_def split: if_splits dest: eval_ok)
  show ?thesis using lua_ratelimit_quotas [OF run n] .
qed

lemma allow_whitelisted_counts:
  assumes "check_in_white_list wl k" "allow E wl c k n w = (None, w')"
  shows "counter_of cval w' (whitelist_day_key c k (fst (now E w))) =
    counter_of cval w (whitelist_day_key c k (fst (now E w))) + n"
proof -
  obtain t w1 where t: "now E w = (t, w1)" by (cases "now E w")
  let ?key = "whitelist_day_key c k t"
  obtain v w2 where v: "rd_incrby E ?key n w1 = (Inr v, w2)"
    and rest: "(if v = n then \<exists>b. rd_expire E ?key 129600 w2 = (Inr b, w') else w' = w2)"
    using assms t
    by (auto simp: allow_def allow_whitelist_def Let_def
        split: prod.splits sum.splits option.splits if_splits bool.splits)
  note inc = incrby_ok [OF v]
  have "cval w' = cval w2"
    using rest inc by (auto split: if_splits dest!: expire_ok)
  then show ?thesis using inc now_ok [OF t] t by (simp add: counter_of_def)
qed

lemma allow_not_whitelisted:
  assumes "\<not> check_in_white_list wl k" "allow E wl c k n w = (None, w')"
  shows "\<exists>t w1 w2. now E w = (t, w1) \<and> redis_allow E c k t n True w1 = (Inr 1, w2)"
  using assms
  by (auto simp: allow_def allow_whitelist_def limit_codes Let_def
      split: prod.splits sum.splits option.splits if_splits)

end

text \<open>An instance: the key-value store with a clock that stands still on day 5.\<close>

definition mem_limiter :: "kv limiter_env" where
  "mem_limiter =
     \<lparr>rd_get = rd_get mem_redis, rd_set = rd_set mem_redis, rd_incrby = rd_incrby mem_redis,
      rd_decrby = rd_decrby mem_redis, rd_expire = rd_expire mem_redis, rd_eval = rd_eval mem_redis,
      now = (\<lambda>w. (\<lparr>tm_day = 5, tm_unix = 0\<rparr>, w)),
      tonum = read_int,
      key_erigon_total = ''erigon'',
      key_chain_hour = (\<lambda>c t. ''ch:'' @ show_nat c),
      key_chain_day = (\<lambda>c t. ''cd:'' @ show_nat c),
      key_total_hour = (\<lambda>t. ''th''),
      key_total_day = (\<lambda>t. ''td'')\<rparr>"

lemma mem_limiter_redis:
  "rd_get mem_limiter = rd_get mem_redis" "rd_set mem_limiter = rd_set mem_redis"
  "rd_incrby mem_limiter = rd_incrby mem_redis" "rd_decrby mem_limiter = rd_decrby mem_redis"
  "rd_expire mem_limiter = rd_expire mem_redis" "rd_eval mem_limiter = rd_eval mem_redis"
  by (simp_all add: mem_limiter_def)

interpretation mem_lim: limiter_contract mem_limiter kv_num kv_txt kv_ttl
proof (unfold_locales, unfold mem_limiter_redis, goal_cases)
  case (6 w t w')
  then show ?case by (simp add: mem_limiter_def)
qed (rule mem.get_ok mem.incrby_ok mem.decrby_ok mem.expire_ok mem.eval_ok; assumption)+

definition demo_kv :: kv where
  "demo_kv = Map.empty
     (sec_quota_key ''1'' ''{k}'' \<mapsto> (''2'', None), day_quota_key ''1'' ''{k}'' \<mapsto> (''10'', None))"

section \<open>A day of requests\<close>

text \<open>
  One API key on one chain during one day: \<open>day_run \<dots> q w m\<close> says that the world \<open>w\<close> is
  reached from one without a counter for the day, with day quota \<open>q\<close>, and that \<open>m\<close> calls
  were let through on the way.  Between two requests of the key anything may happen that
  neither changes the quota nor lowers the day counter.
\<close>

inductive day_run ::
  "('w, 'x) limiter_env_scheme \<Rightarrow> ('w \<Rightarrow> string \<Rightarrow> int option) \<Rightarrow> ('w \<Rightarrow> string \<Rightarrow> string option) \<Rightarrow>
   nat \<Rightarrow> string \<Rightarrow> nat \<Rightarrow> int \<Rightarrow> 'w \<Rightarrow> int \<Rightarrow> bool"
  for E cval ctext c k d q where
  fresh: "cval w (day_rate_limit_key (show_nat c) (hash_tag k) (show_nat d)) = None \<Longrightarrow>
     Option.bind (ctext w (day_quota_key (show_nat c) (hash_tag k))) (tonum E) = Some q \<Longrightarrow>
     day_run E cval ctext c k d q w 0"
| request: "day_run E cval ctext c k d q w m \<Longrightarrow> tm_day t = d \<Longrightarrow>
     redis_allow E c k t n True w = (Inr r, w') \<Longrightarrow>
     day_run E cval ctext c k d q w' (if r = Allow then m + n else m)"
| other: "day_run E cval ctext c k d q w m \<Longrightarrow>
     ctext w' (day_quota_key (show_nat c) (hash_tag k)) = ctext w (day_quota_key (show_nat c) (hash_tag k)) \<Longrightarrow>
     counter_of cval w (day_rate_limit_key (show_nat c) (hash_tag k) (show_nat d)) \<le>
       counter_of cval w' (day_rate_limit_key (show_nat c) (hash_tag k) (show_nat d)) \<Longrightarrow>
     day_run E cval ctext c k d q w' m"

context limiter_contract
begin

lemma day_run_invariant:
  assumes "day_run E cval ctext c k d q w m" "0 \<le> q"
  shows "Option.bind (ctext w (day_quota_key (show_nat c) (hash_tag k))) (tonum E) = Some q \<and> m \<le> q \<and>
    m \<le> counter_of cval w (day_rate_limit_key (show_nat c) (hash_tag k) (show_nat d))"
  using assms
proof (induction rule: day_run.induct)
  case (fresh w)
  then show ?case by (simp add: counter_of_def)
next
  case (request w m t n r w')
  note spec = redis_allow_spec [OF request(3)]
  show ?case
    using request spec redis_allow_quotas [OF request(3)]
    by (cases "Option.bind (ctext w (sec_quota_key (show_nat c) (hash_tag k))) (tonum E)")
       (auto simp: limit_codes split: if_splits)
next
  case (other w m w')
  then show ?case by simp
qed

end

section \<open>Properties\<close>

text \<open>A run of the demonstration store, for the witnesses.\<close>

definition demo_time :: go_time where
  "demo_time = \<lparr>tm_day = 5, tm_unix = 0\<rparr>"

definition demo_after :: kv where
  "demo_after = snd (redis_allow mem_limiter 1 ''k'' demo_time 1 True demo_kv)"

lemma demo_run: "redis_allow mem_limiter 1 ''k'' demo_time 1 True demo_kv = (Inr 1, demo_after)"
proof -
  have "fst (redis_allow mem_limiter 1 ''k'' demo_time 1 True demo_kv) = Inr 1" by code_simp
  then show ?thesis by (metis demo_after_def prod.collapse)
qed

lemma demo_quota: "Option.bind (kv_txt demo_kv (day_quota_key (show_nat 1) (hash_tag ''k''))) (tonum mem_limiter) = Some 10"
  by code_simp

lemma demo_day_run: "day_run mem_limiter kv_num kv_txt 1 ''k'' 5 10 demo_after 1"
proof -
  have "day_run mem_limiter kv_num kv_txt 1 ''k'' 5 10 demo_kv 0"
  proof (rule day_run.fresh)
    show "kv_num demo_kv (day_rate_limit_key (show_nat 1) (hash_tag ''k'') (show_nat 5)) = None"
      by code_simp
  qed (rule demo_quota)
  then have "day_run mem_limiter kv_num kv_txt 1 ''k'' 5 10 demo_after (if 1 = Allow then 0 + 1 else 0)"
    by (rule day_run.request [OF _ _ demo_run])
       (simp add: demo_time_def)
  then show ?thesis by (simp add: Allow_def)
qed

text \<open>
  C2. Daily quota safety.  Over any run of one API key's requests on one chain during a
  day, interleaved with whatever else happens on the server that keeps the quota and does
  not lower the counter, the calls let through never exceed the daily quota.
\<close>

theorem daily_quota_safety:
  assumes "limiter_contract E cval ctext cttl" "day_run E cval ctext c k d q w m" "0 \<le> q"
  shows "m \<le> q"
  using limiter_contract.day_run_invariant [OF assms] by simp

theorem daily_quota_safety_witness:
  "day_run mem_limiter kv_num kv_txt 1 ''k'' 5 10 demo_after 1 \<and> (1::int) \<le> 10"
  using daily_quota_safety [OF mem_lim.limiter_contract_axioms demo_day_run] demo_day_run by simp

text \<open>
  C3. The script implements the abstract limiter.  Whenever \<open>RedisAllow\<close> returns a result
  code, the code and the two new counters are those of \<open>limit_spec\<close> on the quotas and
  counters the store held: a known key within both quotas is let through and counted in
  both; over the second quota only the second counter grows; over the day quota the day
  counter is put back to the quota if that is asked for (as \<^verbatim>\<open>Allow\<close> does) and else keeps the
  calls; without a quota the key is unknown.
\<close>

theorem redis_allow_refines_limit_spec:
  assumes "limiter_contract E cval ctext cttl" "redis_allow E c k t n rv w = (Inr r, w')"
  shows "(r, counter_of cval w' (sec_rate_limit_key (show_nat c) (hash_tag k)),
        counter_of cval w' (day_rate_limit_key (show_nat c) (hash_tag k) (show_nat (tm_day t)))) =
    limit_spec rv (Option.bind (ctext w (sec_quota_key (show_nat c) (hash_tag k))) (tonum E))
      (Option.bind (ctext w (day_quota_key (show_nat c) (hash_tag k))) (tonum E)) n
      (counter_of cval w (sec_rate_limit_key (show_nat c) (hash_tag k)),
       counter_of cval w (day_rate_limit_key (show_nat c) (hash_tag k) (show_nat (tm_day t))))"
  using limiter_contract.redis_allow_spec [OF assms] by simp

text \<open>A store with a quota of one call a day, as the repository's test of the script has it.\<close>

definition single_kv :: kv where
  "single_kv = Map.empty
     (sec_quota_key ''1'' ''{k}'' \<mapsto> (''2'', None), day_quota_key ''1'' ''{k}'' \<mapsto> (''1'', None))"

lemma demo_spec:
  "limit_spec True (Option.bind (kv_txt demo_kv (sec_quota_key (show_nat 1) (hash_tag ''k''))) (tonum mem_limiter))
      (Option.bind (kv_txt demo_kv (day_quota_key (show_nat 1) (hash_tag ''k''))) (tonum mem_limiter)) 1
      (counter_of kv_num demo_kv (sec_rate_limit_key (show_nat 1) (hash_tag ''k'')),
       counter_of kv_num demo_kv (day_rate_limit_key (show_nat 1) (hash_tag ''k'') (show_nat (tm_day demo_time))))
     = (1, 1, 1)"
  "limit_spec False (Option.bind (kv_txt single_kv (sec_quota_key (show_nat 1) (hash_tag ''k''))) (tonum mem_limiter))
      (Option.bind (kv_txt single_kv (day_quota_key (show_nat 1) (hash_tag ''k''))) (tonum mem_limiter)) 2
      (counter_of kv_num single_kv (sec_rate_limit_key (show_nat 1) (hash_tag ''k'')),
       counter_of kv_num single_kv (day_rate_limit_key (show_nat 1) (hash_tag ''k'') (show_nat (tm_day demo_time))))
     = (- 3, 2, 2)"
  by code_simp+

theorem redis_allow_refines_limit_spec_witness:
  "counter_of kv_num demo_after (day_rate_limit_key (show_nat 1) (hash_tag ''k'') (show_nat 5)) = 1 \<and>
   (\<exists>w'. redis_allow mem_limiter 1 ''k'' demo_time 2 False single_kv = (Inr (- 3), w') \<and>
      counter_of kv_num w' (day_rate_limit_key (show_nat 1) (hash_tag ''k'') (show_nat 5)) = 2)"
proof -
  have "\<not> isl (fst (redis_allow mem_limiter 1 ''k'' demo_time 2 False single_kv))" by code_simp
  then obtain r w' where r: "redis_allow mem_limiter 1 ''k'' demo_time 2 False single_kv = (Inr r, w')"
    by (metis prod.collapse sum.collapse(2))
  show ?thesis
    using redis_allow_refines_limit_spec [OF mem_lim.limiter_contract_axioms demo_run, unfolded demo_spec]
      redis_allow_refines_limit_spec [OF mem_lim.limiter_contract_axioms r, unfolded demo_spec] r
    by (simp add: demo_time_def)
qed

text \<open>
  \<open>Allow\<close> is sound for ordinary keys.  When it lets \<open>n\<close> calls of a key through that is
  not whitelisted, the key had a quota per second and per day on this chain, and both
  counters, with the new calls, were within them.
\<close>

theorem allow_sound:
  assumes "limiter_contract E cval ctext cttl" "k \<notin> set wl" "allow E wl c k n w = (None, w')"
  shows "\<exists>t sq dq.
    Option.bind (ctext w (sec_quota_key (show_nat c) (hash_tag k))) (tonum E) = Some sq \<and>
    counter_of cval w (sec_rate_limit_key (show_nat c) (hash_tag k)) + n \<le> sq \<and>
    Option.bind (ctext w (day_quota_key (show_nat c) (hash_tag k))) (tonum E) = Some dq \<and>
    counter_of cval w (day_rate_limit_key (show_nat c) (hash_tag k) (show_nat (tm_day t))) + n \<le> dq \<and>
    0 < n \<and> fst (now E w) = t"
proof -
  have "\<not> check_in_white_list wl k" using assms(2) by (simp add: check_in_white_list_iff)
  then obtain t w1 w2 where t: "now E w = (t, w1)" and r: "redis_allow E c k t n True w1 = (Inr 1, w2)"
    using limiter_contract.allow_not_whitelisted [OF assms(1) _ assms(3)] by blast
  have same: "cval w1 = cval w" "ctext w1 = ctext w"
    using limiter_contract.now_ok [OF assms(1) t] by simp_all
  show ?thesis
    using limiter_contract.redis_allow_spec [OF assms(1) r] t
    by (cases "Option.bind (ctext w (sec_quota_key (show_nat c) (hash_tag k))) (tonum E)")
       (auto simp: same counter_of_def split: if_splits option.splits)
qed

lemma demo_allow: "\<exists>w'. allow mem_limiter [] 1 ''k'' 1 demo_kv = (None, w')"
proof -
  have "fst (allow mem_limiter [] 1 ''k'' 1 demo_kv) = None" by code_simp
  then show ?thesis by (metis prod.collapse)
qed

theorem allow_sound_witness:
  "\<exists>sq. Option.bind (kv_txt demo_kv (sec_quota_key (show_nat 1) (hash_tag ''k''))) (tonum mem_limiter) = Some sq \<and>
    counter_of kv_num demo_kv (sec_rate_limit_key (show_nat 1) (hash_tag ''k'')) + 1 \<le> sq"
proof -
  obtain w' where "allow mem_limiter [] 1 ''k'' 1 demo_kv = (None, w')" using demo_allow by blast
  from allow_sound [OF mem_lim.limiter_contract_axioms _ this] show ?thesis by auto
qed

text \<open>
  C15. \<open>Allow\<close> decides exactly.  When Redis does not fail, a key that is not whitelisted is let through
  if and only if it has both quotas on this chain and the new calls fit in what the two counters
  leave of them; it is called unknown if and only if its second quota is missing, or that quota
  has room and the day quota is missing; in every other case it has exceeded a limit.
\<close>

theorem allow_decides:
  assumes "limiter_contract E cval ctext cttl" "k \<notin> set wl" "allow E wl c k n w = (r, w')"
    and "\<And>e. r \<noteq> Some (OtherLimitError e)"
  shows "let sq = Option.bind (ctext w (sec_quota_key (show_nat c) (hash_tag k))) (tonum E);
      dq = Option.bind (ctext w (day_quota_key (show_nat c) (hash_tag k))) (tonum E);
      s = counter_of cval w (sec_rate_limit_key (show_nat c) (hash_tag k));
      d = counter_of cval w (day_rate_limit_key (show_nat c) (hash_tag k) (show_nat (tm_day (fst (now E w)))))
    in 0 < n \<and>
      (r = None \<longleftrightarrow> (\<exists>a b. sq = Some a \<and> s + n \<le> a \<and> dq = Some b \<and> d + n \<le> b)) \<and>
      (r = Some ApiKeyNotExistError \<longleftrightarrow> sq = None \<or> (\<exists>a. sq = Some a \<and> s + n \<le> a \<and> dq = None)) \<and>
      r \<in> {None, Some ApiKeyNotExistError, Some ExceededRateLimitError}"
proof -
  have b: "allow_whitelist E wl c k n w = ((False, None), w)"
    using assms(2) by (simp add: allow_whitelist_def check_in_white_list_iff)
  obtain t w1 where t: "now E w = (t, w1)" by (cases "now E w")
  have same: "cval w1 = cval w" "ctext w1 = ctext w"
    using limiter_contract.now_ok [OF assms(1) t] by simp_all
  obtain x w2 where x: "redis_allow E c k t n True w1 = (x, w2)" by (cases "redis_allow E c k t n True w1")
  obtain res where res: "x = Inr res"
    using assms(3,4) b t x by (cases x) (auto simp: allow_def)
  have r: "r = (if res = NotExist then Some ApiKeyNotExistError
      else if res \<noteq> Allow then Some ExceededRateLimitError else None)"
    using assms(3) b t x res by (auto simp: allow_def Let_def split: if_splits)
  note spec = limiter_contract.redis_allow_spec [OF assms(1) x [unfolded res]]
  show ?thesis
    using spec unfolding r Let_def t fst_conv
    by (cases "Option.bind (ctext w (sec_quota_key (show_nat c) (hash_tag k))) (tonum E)")
       (auto simp: same counter_of_def limit_codes split: if_splits option.splits)
qed

theorem allow_decides_witness:
  "\<exists>w' a b. allow mem_limiter [] 1 ''k'' 1 demo_kv = (None, w') \<and>
     Option.bind (kv_txt demo_kv (sec_quota_key (show_nat 1) (hash_tag ''k''))) (tonum mem_limiter) = Some a \<and>
     counter_of kv_num demo_kv (sec_rate_limit_key (show_nat 1) (hash_tag ''k'')) + 1 \<le> a \<and>
     Option.bind (kv_txt demo_kv (day_quota_key (show_nat 1) (hash_tag ''k''))) (tonum mem_limiter) = Some b"
proof -
  obtain w' where w': "allow mem_limiter [] 1 ''k'' 1 demo_kv = (None, w')" using demo_allow by blast
  with allow_decides [OF mem_lim.limiter_contract_axioms _ w'] show ?thesis by (auto simp: Let_def)
qed

text \<open>
  Whitelisted keys.  \<open>Allow\<close> lets a whitelisted key through unless a Redis command
  fails, whatever its quotas; and the calls are added to the very day counter that the
  script keeps for the key.
\<close>

theorem allow_whitelisted:
  assumes "limiter_contract E cval ctext cttl" "k \<in> set wl" "allow E wl c k n w = (r, w')"
  shows "(r = None \<or> (\<exists>e. r = Some (OtherLimitError e))) \<and>
    (r = None \<longrightarrow>
      counter_of cval w' (day_rate_limit_key (show_nat c) (hash_tag k) (show_nat (tm_day (fst (now E w))))) =
      counter_of cval w (day_rate_limit_key (show_nat c) (hash_tag k) (show_nat (tm_day (fst (now E w))))) + n)"
proof -
  have wl: "check_in_white_list wl k" using assms(2) by (simp add: check_in_white_list_iff)
  have "r = None \<or> (\<exists>e. r = Some (OtherLimitError e))"
    using assms(3) wl
    by (auto simp: allow_def allow_whitelist_def Let_def
        split: prod.splits sum.splits option.splits if_splits bool.splits)
  then show ?thesis
    using limiter_contract.allow_whitelisted_counts [OF assms(1) wl, of c n w w'] assms(3)
    by (simp add: whitelist_day_key_eq)
qed

theorem allow_whitelisted_witness:
  "(\<exists>w'. allow mem_limiter [''z''] 1 ''z'' 7 demo_kv = (None, w') \<and>
     counter_of kv_num w' (day_rate_limit_key (show_nat 1) (hash_tag ''z'') (show_nat 5)) =
     counter_of kv_num demo_kv (day_rate_limit_key (show_nat 1) (hash_tag ''z'') (show_nat 5)) + 7)"
proof -
  have "fst (allow mem_limiter [''z''] 1 ''z'' 7 demo_kv) = None" by code_simp
  then obtain w' where w': "allow mem_limiter [''z''] 1 ''z'' 7 demo_kv = (None, w')"
    by (metis prod.collapse)
  have "tm_day (fst (now mem_limiter demo_kv)) = 5" by (simp add: mem_limiter_def)
  with allow_whitelisted [OF mem_lim.limiter_contract_axioms _ w'] w' show ?thesis by auto
qed

text \<open>
  C34. The length of the per-second window.  A request of \<open>n\<close> calls that opens a window and
  is let through leaves the window's counter with a time to live of \<open>n\<close> seconds, not of
  one second: a batch of \<open>n\<close> calls blocks the key's second quota for \<open>n\<close> seconds.  (The
  repository means one second: its test of the script expects the time to live 1 for \<open>n = 2\<close>, and
  so does its README; the script's \<^verbatim>\<open>EXPIRE\<close> takes \<open>n\<close>, so it is 2.)
\<close>

theorem second_window_lasts_n_seconds:
  assumes "limiter_contract E cval ctext cttl" "redis_allow E c k t n True w = (Inr Allow, w')"
    and "counter_of cval w (sec_rate_limit_key (show_nat c) (hash_tag k)) = 0"
  shows "cttl w' (sec_rate_limit_key (show_nat c) (hash_tag k)) = Some n"
proof -
  have R: "redis_contract E cval ctext cttl" using assms(1) by (simp add: limiter_contract_def)
  have n: "0 < n" and run: "lua_ratelimit E (tonum E) (hash_tag k) (show_nat c)
      (show_nat (tm_day t)) n ''1'' w = (Inr 1, w')"
    using assms(2) by (auto simp: redis_allow_def Allow_def split: if_splits dest: redis_contract.eval_ok [OF R])
  show ?thesis by (rule redis_contract.lua_ratelimit_window [OF R run n assms(3)])
qed

lemma demo_run2:
  "\<exists>w'. redis_allow mem_limiter 1 ''k'' demo_time 2 True demo_kv = (Inr Allow, w')"
proof -
  have "fst (redis_allow mem_limiter 1 ''k'' demo_time 2 True demo_kv) = Inr Allow" by code_simp
  then show ?thesis by (metis prod.collapse)
qed

theorem second_window_lasts_n_seconds_witness:
  "\<exists>w'. redis_allow mem_limiter 1 ''k'' demo_time 2 True demo_kv = (Inr Allow, w') \<and>
     kv_ttl w' (sec_rate_limit_key (show_nat 1) (hash_tag ''k'')) = Some 2"
proof -
  have "counter_of kv_num demo_kv (sec_rate_limit_key (show_nat 1) (hash_tag ''k'')) = 0" by code_simp
  then show ?thesis
    using second_window_lasts_n_seconds [OF mem_lim.limiter_contract_axioms] demo_run2 by blast
qed

text \<open>
  What may happen later in a day: requests of the key that the script answers, whatever their number
  of calls, and anything else that neither changes the quota nor lowers the day counter.
\<close>

inductive later_that_day ::
  "('w, 'x) limiter_env_scheme \<Rightarrow> ('w \<Rightarrow> string \<Rightarrow> int option) \<Rightarrow> ('w \<Rightarrow> string \<Rightarrow> string option) \<Rightarrow>
   nat \<Rightarrow> string \<Rightarrow> nat \<Rightarrow> 'w \<Rightarrow> 'w \<Rightarrow> bool"
  for E cval ctext c k d w where
  now: "later_that_day E cval ctext c k d w w"
| request: "later_that_day E cval ctext c k d w w1 \<Longrightarrow> tm_day t = d \<Longrightarrow>
     redis_allow E c k t n rv w1 = (Inr r, w2) \<Longrightarrow> later_that_day E cval ctext c k d w w2"
| other: "later_that_day E cval ctext c k d w w1 \<Longrightarrow>
     ctext w2 (day_quota_key (show_nat c) (hash_tag k)) = ctext w1 (day_quota_key (show_nat c) (hash_tag k)) \<Longrightarrow>
     counter_of cval w1 (day_rate_limit_key (show_nat c) (hash_tag k) (show_nat d)) \<le>
       counter_of cval w2 (day_rate_limit_key (show_nat c) (hash_tag k) (show_nat d)) \<Longrightarrow>
     later_that_day E cval ctext c k d w w2"

text \<open>A day quota that is used up stays so, and lets no request through.\<close>

definition used_up ::
  "('w, 'x) limiter_env_scheme \<Rightarrow> ('w \<Rightarrow> string \<Rightarrow> int option) \<Rightarrow> ('w \<Rightarrow> string \<Rightarrow> string option) \<Rightarrow>
   nat \<Rightarrow> string \<Rightarrow> nat \<Rightarrow> 'w \<Rightarrow> bool" where
  "used_up E cval ctext c k d w \<longleftrightarrow> (\<exists>q. Option.bind (ctext w (day_quota_key (show_nat c) (hash_tag k))) (tonum E) = Some q \<and>
     q \<le> counter_of cval w (day_rate_limit_key (show_nat c) (hash_tag k) (show_nat d)))"

context limiter_contract
begin

lemma used_up_request:
  assumes "used_up E cval ctext c k (tm_day t) w" "redis_allow E c k t n rv w = (Inr r, w')"
  shows "r \<noteq> Allow" "used_up E cval ctext c k (tm_day t) w'"
proof -
  obtain q where q: "Option.bind (ctext w (day_quota_key (show_nat c) (hash_tag k))) (tonum E) = Some q"
    "q \<le> counter_of cval w (day_rate_limit_key (show_nat c) (hash_tag k) (show_nat (tm_day t)))"
    using assms(1) by (auto simp: used_up_def)
  note spec = redis_allow_spec [OF assms(2), unfolded q(1)]
  have "r \<noteq> Allow \<and> q \<le> counter_of cval w' (day_rate_limit_key (show_nat c) (hash_tag k) (show_nat (tm_day t)))"
    using spec q(2) by (cases "Option.bind (ctext w (sec_quota_key (show_nat c) (hash_tag k))) (tonum E)")
      (auto simp: limit_codes split: if_splits)
  then show "r \<noteq> Allow" "used_up E cval ctext c k (tm_day t) w'"
    using q(1) redis_allow_quotas [OF assms(2)] by (auto simp: used_up_def)
qed

lemma used_up_later: "later_that_day E cval ctext c k d w w' \<Longrightarrow> used_up E cval ctext c k d w \<Longrightarrow> used_up E cval ctext c k d w'"
proof (induction rule: later_that_day.induct)
  case (request w1 t n rv r w2)
  then show ?case using used_up_request(2) by blast
next
  case (other w1 w2)
  then show ?case by (fastforce simp: used_up_def)
qed

lemma used_up_after:
  assumes "redis_allow E c k t n True w = (Inr ExceedDayLimit, w')"
  shows "Some (counter_of cval w' (day_rate_limit_key (show_nat c) (hash_tag k) (show_nat (tm_day t)))) =
      Option.bind (ctext w (day_quota_key (show_nat c) (hash_tag k))) (tonum E)"
    "used_up E cval ctext c k (tm_day t) w'"
proof -
  show eq: "Some (counter_of cval w' (day_rate_limit_key (show_nat c) (hash_tag k) (show_nat (tm_day t)))) =
      Option.bind (ctext w (day_quota_key (show_nat c) (hash_tag k))) (tonum E)"
    using redis_allow_spec [OF assms]
    by (cases "Option.bind (ctext w (sec_quota_key (show_nat c) (hash_tag k))) (tonum E)")
       (auto simp: limit_codes split: if_splits option.splits)
  then show "used_up E cval ctext c k (tm_day t) w'" using redis_allow_quotas [OF assms] by (metis order_refl used_up_def)
qed

lemma used_up_blocks:
  assumes "used_up E cval ctext c k (tm_day (fst (now E w))) w" "k \<notin> set wl" "allow E wl c k n w = (r, w')"
  shows "r \<noteq> None"
proof
  assume none: "r = None"
  have "\<not> check_in_white_list wl k" using assms(2) by (simp add: check_in_white_list_iff)
  then obtain t w1 w2 where t: "now E w = (t, w1)" and a: "redis_allow E c k t n True w1 = (Inr 1, w2)"
    using allow_not_whitelisted assms(3) none by blast
  have "used_up E cval ctext c k (tm_day t) w1" using assms(1) t now_ok [OF t] by (simp add: used_up_def counter_of_def)
  then show False using used_up_request(1) [OF _ a] by (simp add: Allow_def)
qed

end

text \<open>
  C33. A rejected batch uses up the day.  When the script answers that a request exceeds the
  day quota it has set the day counter to the quota, not back to its old value.  From then on, as long
  as the quota is not changed and the counter not lowered, no request of the key that falls on that day
  of the month is let through, however many requests of the key come before it and however much of
  the quota was left: not by the script, nor by \<^verbatim>\<open>Allow\<close>, if the key is not whitelisted.
\<close>

theorem rejected_batch_uses_up_the_day:
  assumes "limiter_contract E cval ctext cttl"
    and "redis_allow E c k t n True w = (Inr ExceedDayLimit, w')"
    and "later_that_day E cval ctext c k (tm_day t) w' w1"
  shows "Some (counter_of cval w' (day_rate_limit_key (show_nat c) (hash_tag k) (show_nat (tm_day t)))) =
      Option.bind (ctext w (day_quota_key (show_nat c) (hash_tag k))) (tonum E) \<and>
    (\<forall>t' n' rv r w2. tm_day t' = tm_day t \<and> redis_allow E c k t' n' rv w1 = (Inr r, w2) \<longrightarrow> r \<noteq> Allow) \<and>
    (\<forall>wl n' r w2. tm_day (fst (now E w1)) = tm_day t \<and> k \<notin> set wl \<and> allow E wl c k n' w1 = (r, w2) \<longrightarrow> r \<noteq> None)"
proof -
  note used = limiter_contract.used_up_after [OF assms(1,2)]
  have "used_up E cval ctext c k (tm_day t) w1"
    by (rule limiter_contract.used_up_later [OF assms(1,3) used(2)])
  then show ?thesis
    using used(1) limiter_contract.used_up_request(1) [OF assms(1)] limiter_contract.used_up_blocks [OF assms(1)]
    by metis
qed

text \<open>
  Nine of ten calls are left; a batch of eleven is rejected, and so are a single call after it and
  another after that.
\<close>

definition wide_kv :: kv where
  "wide_kv = Map.empty
     (sec_quota_key ''1'' ''{k}'' \<mapsto> (''100'', None), day_quota_key ''1'' ''{k}'' \<mapsto> (''10'', None),
      day_rate_limit_key ''1'' ''{k}'' ''5'' \<mapsto> (''1'', Some 1000))"

theorem rejected_batch_uses_up_the_day_witness:
  "\<exists>w' r1 w1 r w2. redis_allow mem_limiter 1 ''k'' demo_time 11 True wide_kv = (Inr ExceedDayLimit, w') \<and>
     redis_allow mem_limiter 1 ''k'' demo_time 1 True w' = (Inr r1, w1) \<and>
     redis_allow mem_limiter 1 ''k'' demo_time 1 True w1 = (Inr r, w2) \<and> r \<noteq> Allow"
proof -
  let ?w' = "snd (redis_allow mem_limiter 1 ''k'' demo_time 11 True wide_kv)"
  let ?w1 = "snd (redis_allow mem_limiter 1 ''k'' demo_time 1 True ?w')"
  have "fst (redis_allow mem_limiter 1 ''k'' demo_time 11 True wide_kv) = Inr ExceedDayLimit" by code_simp
  then have w': "redis_allow mem_limiter 1 ''k'' demo_time 11 True wide_kv = (Inr ExceedDayLimit, ?w')"
    by (metis prod.collapse)
  have "\<not> isl (fst (redis_allow mem_limiter 1 ''k'' demo_time 1 True ?w'))" by code_simp
  then obtain r1 where r1: "redis_allow mem_limiter 1 ''k'' demo_time 1 True ?w' = (Inr r1, ?w1)"
    by (metis prod.collapse sum.collapse(2))
  have "\<not> isl (fst (redis_allow mem_limiter 1 ''k'' demo_time 1 True ?w1))" by code_simp
  then obtain r w2 where r: "redis_allow mem_limiter 1 ''k'' demo_time 1 True ?w1 = (Inr r, w2)"
    by (metis prod.collapse sum.collapse(2))
  have "later_that_day mem_limiter kv_num kv_txt 1 ''k'' (tm_day demo_time) ?w' ?w1"
    by (rule later_that_day.request [OF later_that_day.now _ r1]) simp
  from rejected_batch_uses_up_the_day [OF mem_lim.limiter_contract_axioms w' this] r w' r1
  show ?thesis by blast
qed

text \<open>
  Counters are not shared.  The counters of two API keys, two chains or two days of the
  month are the same Redis key only when chain, API key and day agree, whatever
  characters the API keys contain; and no second counter is a day counter.
\<close>

theorem counters_not_shared:
  "(day_rate_limit_key (show_nat c) (hash_tag a) (show_nat d) =
      day_rate_limit_key (show_nat c') (hash_tag a') (show_nat d') \<longleftrightarrow> c = c' \<and> a = a' \<and> d = d') \<and>
   (sec_rate_limit_key (show_nat c) (hash_tag a) = sec_rate_limit_key (show_nat c') (hash_tag a') \<longleftrightarrow>
      c = c' \<and> a = a') \<and>
   sec_rate_limit_key (show_nat c) (hash_tag a) \<noteq> day_rate_limit_key (show_nat c') (hash_tag a') (show_nat d')"
proof -
  have "sec_rate_limit_key (show_nat c) (hash_tag a) = ''s:'' @ show_nat c @ CHR '':'' # hash_tag a" for c a
    by (simp add: sec_rate_limit_key_def)
  then have "sec_rate_limit_key (show_nat c) (hash_tag a) = sec_rate_limit_key (show_nat c') (hash_tag a') \<longleftrightarrow>
      show_nat c = show_nat c' \<and> hash_tag a = hash_tag a'"
    by (simp only: same_append_eq append_sep_eq [OF show_nat_no_colon show_nat_no_colon])
  then show ?thesis by (simp add: key_simps) (simp add: hash_tag_def)
qed

end
