(* ===== verification/Numbers.thy ===== *)
theory Numbers
  imports Prelude
begin

text \<open>
  Numbers as text: the functions of Go's \<^verbatim>\<open>strconv\<close> that the program
  calls, and \<^verbatim>\<open>ToUint64\<close> of \<^verbatim>\<open>pkg/utils/number.go\<close> on
  top of them.  A \<^verbatim>\<open>uint64\<close> is a natural number below \<open>2 ^ 64\<close>.
  A finite \<^verbatim>\<open>float64\<close> is a sign and a magnitude \<open>m * 2 powr e\<close> with
  integers \<open>m\<close> and \<open>e\<close>.
\<close>

section \<open>ParseUint\<close>

datatype num_error = ErrSyntax | ErrRange | ErrOverflow

definition max_u64 :: nat where
  "max_u64 = 18446744073709551615"

definition ascii_lower :: "char \<Rightarrow> nat" where
  "ascii_lower c = (let n = of_char c in if 65 \<le> n \<and> n \<le> 90 then n + 32 else n)"

definition digit_val :: "char \<Rightarrow> nat option" where
  "digit_val c =
     (let n = of_char c; l = ascii_lower c
      in if 48 \<le> n \<and> n \<le> 57 then Some (n - 48)
         else if 97 \<le> l \<and> l \<le> 122 then Some (l - 97 + 10)
         else None)"

fun parse_uint_loop :: "nat \<Rightarrow> nat \<Rightarrow> string \<Rightarrow> num_error + nat" where
  "parse_uint_loop base n [] = Inr n"
| "parse_uint_loop base n (c # cs) =
     (case digit_val c of
        None \<Rightarrow> Inl ErrSyntax
      | Some d \<Rightarrow>
          if base \<le> d then Inl ErrSyntax
          else if max_u64 < n * base + d then Inl ErrRange
          else parse_uint_loop base (n * base + d) cs)"

definition parse_uint :: "nat \<Rightarrow> string \<Rightarrow> num_error + nat" where
  "parse_uint base s = (if s = [] then Inl ErrSyntax else parse_uint_loop base 0 s)"

section \<open>ParseFloat\<close>

datatype f64 = F64 (f_neg: bool) (f_mant: nat) (f_exp: int)

fun nbits :: "nat \<Rightarrow> nat" where
  "nbits n = (if n = 0 then 0 else Suc (nbits (n div 2)))"

declare nbits.simps [simp del]

text \<open>The quotient rounded to the nearest integer, ties to even.\<close>

definition round_div :: "nat \<Rightarrow> nat \<Rightarrow> nat" where
  "round_div n d =
     (let q = n div d; r = n mod d
      in if 2 * r > d \<or> (2 * r = d \<and> odd q) then Suc q else q)"

text \<open>
  The nearest \<^verbatim>\<open>float64\<close> to the positive fraction \<open>n / d\<close>: 53 significant bits, least
  exponent \<open>-1074\<close>, and no value from \<open>2 ^ 1024\<close> on.
\<close>

definition nearest_f64 :: "bool \<Rightarrow> nat \<Rightarrow> nat \<Rightarrow> f64 option" where
  "nearest_f64 neg n d =
     (if n = 0 then Some (F64 neg 0 0) else
      let e0 = int (nbits n) - int (nbits d) - 53;
          big = (if e0 \<ge> 0 then d * 2 ^ nat e0 * 2 ^ 53 \<le> n
                 else d * 2 ^ 53 \<le> n * 2 ^ nat (- e0));
          e = max (-1074) (if big then e0 + 1 else e0);
          m = (if e \<ge> 0 then round_div n (d * 2 ^ nat e) else round_div (n * 2 ^ nat (- e)) d)
      in if e \<ge> 0 \<and> 2 ^ 1024 \<le> m * 2 ^ nat e then None else Some (F64 neg m e))"

fun scan_mantissa :: "nat \<Rightarrow> string \<Rightarrow> nat \<Rightarrow> nat \<Rightarrow> bool \<Rightarrow> bool \<Rightarrow> nat \<times> nat \<times> bool \<times> string" where
  "scan_mantissa b [] m frac dot dig = (m, frac, dig, [])"
| "scan_mantissa b (c # cs) m frac dot dig =
     (if c = CHR ''_'' then scan_mantissa b cs m frac dot dig
      else if c = CHR ''.'' then
        (if dot then (m, frac, dig, c # cs) else scan_mantissa b cs m frac True dig)
      else case digit_val c of
        None \<Rightarrow> (m, frac, dig, c # cs)
      | Some d \<Rightarrow>
          if d < b then scan_mantissa b cs (m * b + d) (if dot then Suc frac else frac) dot True
          else (m, frac, dig, c # cs))"

fun scan_exponent :: "string \<Rightarrow> nat \<Rightarrow> nat \<times> string" where
  "scan_exponent [] e = (e, [])"
| "scan_exponent (c # cs) e =
     (if c = CHR ''_'' then scan_exponent cs e
      else case digit_val c of
        None \<Rightarrow> (e, c # cs)
      | Some d \<Rightarrow>
          if d < 10 then scan_exponent cs (if e < 10000 then e * 10 + d else e) else (e, c # cs))"

text \<open>
  Where underscores may stand.  \<open>saw\<close> is the last character class: a digit or base prefix,
  an underscore, or anything else.
\<close>

datatype saw = SawStart | SawDigit | SawUnderscore | SawOther

fun underscore_loop :: "bool \<Rightarrow> saw \<Rightarrow> string \<Rightarrow> bool" where
  "underscore_loop hex saw [] = (saw \<noteq> SawUnderscore)"
| "underscore_loop hex saw (c # cs) =
     (if (case digit_val c of None \<Rightarrow> False | Some d \<Rightarrow> d < (if hex then 16 else 10))
      then underscore_loop hex SawDigit cs
      else if c = CHR ''_'' then saw = SawDigit \<and> underscore_loop hex SawUnderscore cs
      else saw \<noteq> SawUnderscore \<and> underscore_loop hex SawOther cs)"

definition strip_sign :: "string \<Rightarrow> bool \<times> string" where
  "strip_sign s =
     (case s of
        [] \<Rightarrow> (False, [])
      | c # cs \<Rightarrow> if c = CHR ''-'' then (True, cs) else if c = CHR ''+'' then (False, cs) else (False, s))"

definition base_prefix :: "nat set \<Rightarrow> string \<Rightarrow> bool" where
  "base_prefix ls s = (case s of z # x # _ \<Rightarrow> z = CHR ''0'' \<and> ascii_lower x \<in> ls | _ \<Rightarrow> False)"

definition underscore_ok :: "string \<Rightarrow> bool" where
  "underscore_ok s =
     (let t = snd (strip_sign s)
      in if base_prefix {98, 111, 120} t
         then underscore_loop (base_prefix {120} t) SawDigit (drop 2 t)
         else underscore_loop False SawStart t)"

text \<open>
  The exponent after the mantissa, which must end the text: optional for a decimal text,
  required for a hexadecimal one.
\<close>

definition read_exponent :: "bool \<Rightarrow> string \<Rightarrow> int option" where
  "read_exponent hex rest =
     (case rest of
        [] \<Rightarrow> (if hex then None else Some 0)
      | c # cs \<Rightarrow>
          if ascii_lower c \<noteq> (if hex then 112 else 101) then None
          else (let (eneg, ds) = strip_sign cs in
            (case ds of
               [] \<Rightarrow> None
             | d # _ \<Rightarrow>
                 if of_char d < (48::nat) \<or> of_char d > (57::nat) then None
                 else (case scan_exponent ds 0 of
                         (e, []) \<Rightarrow> Some (if eneg then - int e else int e)
                       | (_, _ # _) \<Rightarrow> None))))"

text \<open>
  \<^verbatim>\<open>ParseFloat(s, 64)\<close> for texts other than the named values
  (infinities and NaN, whose texts hold no dot and are no JSON numbers).
\<close>

definition parse_float :: "string \<Rightarrow> f64 option" where
  "parse_float s =
     (let (neg, t) = strip_sign s;
          hex = (base_prefix {120} t \<and> 2 < length t);
          (m, frac, dig, rest) =
            scan_mantissa (if hex then 16 else 10) (if hex then drop 2 t else t) 0 0 False False
      in if \<not> dig \<or> (CHR ''_'' \<in> set s \<and> \<not> underscore_ok s) then None
         else (case read_exponent hex rest of
                 None \<Rightarrow> None
               | Some e \<Rightarrow>
                   let x = (if hex then e - 4 * int frac else e - int frac);
                       r = (if hex then 2 else 10)
                   in if x \<ge> 0 then nearest_f64 neg (m * r ^ nat x) 1
                      else nearest_f64 neg m (r ^ nat (- x))))"

section \<open>Comparisons and conversions of floats\<close>

definition f_gt_nat :: "f64 \<Rightarrow> nat \<Rightarrow> bool" where
  "f_gt_nat f k =
     (\<not> f_neg f \<and>
      (if f_exp f \<ge> 0 then k < f_mant f * 2 ^ nat (f_exp f)
       else k * 2 ^ nat (- f_exp f) < f_mant f))"

definition f_lt_zero :: "f64 \<Rightarrow> bool" where
  "f_lt_zero f = (f_neg f \<and> f_mant f \<noteq> 0)"

text \<open>Truncation towards zero of a value that is not negative.\<close>

definition f_trunc :: "f64 \<Rightarrow> nat" where
  "f_trunc f =
     (if f_exp f \<ge> 0 then f_mant f * 2 ^ nat (f_exp f) else f_mant f div 2 ^ nat (- f_exp f))"

text \<open>
  \<^verbatim>\<open>uint64(v)\<close>.  Go leaves the result open when the value does not fit;
  \<open>impl\<close> is what the implementation gives then.
\<close>

definition f_to_u64 :: "nat \<Rightarrow> f64 \<Rightarrow> nat" where
  "f_to_u64 impl f = (if max_u64 < f_trunc f then impl else f_trunc f)"

section \<open>pkg/utils/number.go\<close>

text \<open>
  \<^verbatim>\<open>ToUint64\<close>.  The constant \<^verbatim>\<open>float64(math.MaxUint64)\<close>
  is \<open>2 ^ 64\<close>.
\<close>

definition to_uint64 :: "nat \<Rightarrow> string \<Rightarrow> num_error + nat" where
  "to_uint64 impl s =
     (if has_prefix ''0x'' s then parse_uint 16 (drop 2 s)
      else let rest = (case parse_uint 10 s of Inr n \<Rightarrow> Inr n | Inl _ \<Rightarrow> parse_uint 10 s)
      in if str_contains s ''.'' then
           (case parse_float s of
              Some v \<Rightarrow>
                if f_gt_nat v (2 ^ 64) \<or> f_lt_zero v then Inl ErrOverflow
                else Inr (f_to_u64 impl v)
            | None \<Rightarrow> rest)
         else rest)"

section \<open>Correctness\<close>

text \<open>The positional value of a digit string, and the texts that have one.\<close>

definition is_digit_of :: "nat \<Rightarrow> char \<Rightarrow> bool" where
  "is_digit_of base c = (case digit_val c of None \<Rightarrow> False | Some d \<Rightarrow> d < base)"

lemma is_digit_of_Some: "digit_val c = Some d \<Longrightarrow> is_digit_of base c \<longleftrightarrow> d < base"
  by (simp add: is_digit_of_def)

fun positional :: "nat \<Rightarrow> nat \<Rightarrow> string \<Rightarrow> nat" where
  "positional base n [] = n"
| "positional base n (c # cs) =
     positional base (n * base + (case digit_val c of None \<Rightarrow> 0 | Some d \<Rightarrow> d)) cs"

lemma positional_ge: "0 < base \<Longrightarrow> n \<le> positional base n s"
proof (induction s arbitrary: n)
  case Nil
  then show ?case by simp
next
  case (Cons c cs)
  let ?d = "case digit_val c of None \<Rightarrow> 0 | Some d \<Rightarrow> d"
  have "n \<le> n * base + ?d" using Cons.prems by (simp add: trans_le_add1)
  also have "\<dots> \<le> positional base (n * base + ?d) cs" using Cons by blast
  finally show ?case by simp
qed

lemma parse_uint_loop_iff:
  assumes "0 < base" "n \<le> max_u64"
  shows "parse_uint_loop base n s = Inr v \<longleftrightarrow>
    list_all (is_digit_of base) s \<and> v = positional base n s \<and> v \<le> max_u64"
  using assms
proof (induction s arbitrary: n)
  case Nil
  then show ?case by auto
next
  case (Cons c cs)
  show ?case
  proof (cases "digit_val c")
    case None
    then show ?thesis by (simp add: is_digit_of_def)
  next
    case (Some d)
    have ge: "n * base + d \<le> positional base (n * base + d) cs"
      by (rule positional_ge) (rule Cons.prems(1))
    have IH: "n * base + d \<le> max_u64 \<Longrightarrow> parse_uint_loop base (n * base + d) cs = Inr v \<longleftrightarrow>
        list_all (is_digit_of base) cs \<and> v = positional base (n * base + d) cs \<and> v \<le> max_u64"
      by (rule Cons.IH) (use Cons.prems in auto)
    show ?thesis
      using Some ge IH by (cases "n * base + d \<le> max_u64") (auto simp: is_digit_of_Some)
  qed
qed

lemma parse_uint_iff:
  "0 < base \<Longrightarrow> parse_uint base s = Inr v \<longleftrightarrow>
    s \<noteq> [] \<and> list_all (is_digit_of base) s \<and> v = positional base 0 s \<and> v \<le> max_u64"
  by (auto simp: parse_uint_def parse_uint_loop_iff)

lemma parse_uint_loop_not_overflow: "parse_uint_loop base n s \<noteq> Inl ErrOverflow"
  by (induction base n s rule: parse_uint_loop.induct) (auto split: option.splits)

lemma parse_uint_loop_range:
  assumes "0 < base" "n \<le> max_u64" "list_all (is_digit_of base) s"
    and "max_u64 < positional base n s"
  shows "parse_uint_loop base n s = Inl ErrRange"
  using assms
  by (induction s arbitrary: n) (auto simp: is_digit_of_def not_less split: option.splits)

lemma digit_val_digit_char: "d < 10 \<Longrightarrow> digit_val (digit_char d) = Some d"
  by (simp add: digit_val_def ascii_lower_def of_char_digit_char Let_def)

lemma is_digit_of_digit_char: "d < 10 \<Longrightarrow> 10 \<le> base \<Longrightarrow> is_digit_of base (digit_char d)"
  by (simp add: is_digit_of_def digit_val_digit_char)

lemma show_nat_digits: "list_all (is_digit_of 10) (show_nat n)"
proof (induction n rule: show_nat.induct)
  case (1 n)
  then show ?case
    by (cases "n < 10") (simp_all add: show_nat.simps [of n] is_digit_of_digit_char)
qed

lemma positional_append: "positional b n (s @ t) = positional b (positional b n s) t"
  by (induction s arbitrary: n) auto

lemma positional_show_nat: "positional 10 0 (show_nat n) = n"
proof (induction n rule: show_nat.induct)
  case (1 n)
  show ?case
  proof (cases "n < 10")
    case True
    then show ?thesis by (simp add: show_nat.simps [of n] digit_val_digit_char)
  next
    case False
    then show ?thesis
      using 1 by (simp add: show_nat.simps [of n] positional_append digit_val_digit_char)
  qed
qed

lemma parse_show_nat: "n \<le> max_u64 \<Longrightarrow> parse_uint 10 (show_nat n) = Inr n"
  by (simp add: parse_uint_iff show_nat_digits positional_show_nat)

lemma parse_show_nat_range: "max_u64 < n \<Longrightarrow> parse_uint 10 (show_nat n) = Inl ErrRange"
  by (simp add: parse_uint_def parse_uint_loop_range show_nat_digits positional_show_nat max_u64_def)

lemma not_contains_char: "c \<notin> set s \<Longrightarrow> \<not> str_contains s [c]"
  by (auto simp: str_contains_iff)

lemma show_nat_no_dot: "CHR ''.'' \<notin> set (show_nat n)"
  using show_nat_chars [of "CHR ''.''" n] by auto

lemma show_nat_no_x: "\<not> has_prefix ''0x'' (show_nat n)"
proof
  assume "has_prefix ''0x'' (show_nat n)"
  then have "CHR ''x'' \<in> set (show_nat n)" by (auto simp: has_prefix_iff)
  then show False using show_nat_chars [of "CHR ''x''" n] by auto
qed

text \<open>A decimal text, a hexadecimal text and everything else: what \<^verbatim>\<open>ToUint64\<close> reads.\<close>

lemma to_uint64_decimal_text:
  "\<not> has_prefix ''0x'' s \<Longrightarrow> CHR ''.'' \<notin> set s \<Longrightarrow> to_uint64 impl s = parse_uint 10 s"
  by (simp add: to_uint64_def not_contains_char split: sum.splits)

lemma to_uint64_hex_text: "to_uint64 impl (''0x'' @ s) = parse_uint 16 s"
  by (simp add: to_uint64_def has_prefix_def)

lemma to_uint64_cases:
  obtains (hex) t where "s = ''0x'' @ t" "to_uint64 impl s = parse_uint 16 t"
  | (float) v where "parse_float s = Some v"
      "to_uint64 impl s = (if f_gt_nat v (2 ^ 64) \<or> f_lt_zero v then Inl ErrOverflow
                           else Inr (f_to_u64 impl v))"
  | (decimal) "to_uint64 impl s = parse_uint 10 s"
proof (cases "has_prefix ''0x'' s")
  case True
  then obtain t where "s = ''0x'' @ t" by (auto simp: has_prefix_iff)
  then show thesis using hex to_uint64_hex_text by metis
next
  case False
  then show thesis
    using float decimal
    by (cases "str_contains s ''.''"; cases "parse_float s")
       (auto simp: to_uint64_def split: sum.splits)
qed

section \<open>Properties\<close>

text \<open>
  \<open>ToUint64\<close> reads what nodes send.  The decimal text of a number is read as that
  number, and is a range error from \<open>2 ^ 64\<close> on; a text with the prefix \<^verbatim>\<open>0x\<close>
  is read exactly when hexadecimal digits follow whose positional value fits.
\<close>

theorem to_uint64_reads_numbers:
  "to_uint64 impl (show_nat n) = (if n < 2 ^ 64 then Inr n else Inl ErrRange) \<and>
   (to_uint64 impl (''0x'' @ s) = Inr v \<longleftrightarrow>
      s \<noteq> [] \<and> list_all (is_digit_of 16) s \<and> v = positional 16 0 s \<and> v < 2 ^ 64)"
proof -
  have "to_uint64 impl (show_nat n) = parse_uint 10 (show_nat n)"
    by (rule to_uint64_decimal_text [OF show_nat_no_x show_nat_no_dot])
  then have "to_uint64 impl (show_nat n) = (if n \<le> max_u64 then Inr n else Inl ErrRange)"
    by (simp add: parse_show_nat parse_show_nat_range)
  moreover have "k \<le> max_u64 \<longleftrightarrow> k < 2 ^ 64" for k by (auto simp: max_u64_def)
  moreover have "to_uint64 impl (''0x'' @ s) = Inr v \<longleftrightarrow>
      s \<noteq> [] \<and> list_all (is_digit_of 16) s \<and> v = positional 16 0 s \<and> v \<le> max_u64"
    by (simp only: to_uint64_hex_text parse_uint_iff)
  ultimately show ?thesis by simp
qed

text \<open>
  The result of \<open>ToUint64\<close> always fits 64 bits, provided the conversion of a float that
  does not fit yields some 64-bit value.
\<close>

theorem to_uint64_bounded:
  assumes "to_uint64 impl s = Inr v" "impl < 2 ^ 64"
  shows "v < 2 ^ 64"
proof (cases rule: to_uint64_cases [of s impl])
  case (hex t)
  then show ?thesis using assms(1) by (simp add: parse_uint_iff max_u64_def)
next
  case (float f)
  then show ?thesis using assms by (simp add: f_to_u64_def max_u64_def split: if_splits)
next
  case decimal
  then have "parse_uint 10 s = Inr v" using assms(1) by simp
  then show ?thesis by (simp add: parse_uint_iff max_u64_def)
qed

theorem to_uint64_bounded_witness:
  "to_uint64 0 (show_nat 18446744073709551615) = Inr 18446744073709551615 \<and>
   (18446744073709551615::nat) < 2 ^ 64"
proof -
  have "to_uint64 0 (show_nat 18446744073709551615) = Inr 18446744073709551615"
    by (simp add: to_uint64_decimal_text [OF show_nat_no_x show_nat_no_dot] parse_show_nat max_u64_def)
  then show ?thesis using to_uint64_bounded [of 0 "show_nat 18446744073709551615"] by simp
qed

text \<open>
  The range check of the float branch lets \<open>2 ^ 64\<close> itself through: the text
  \<^verbatim>\<open>18446744073709551615.0\<close> is the float \<open>2 ^ 64\<close>, which is not greater than
  \<^verbatim>\<open>float64(math.MaxUint64)\<close>, and the result is whatever the conversion makes of it.
\<close>

theorem to_uint64_accepts_two_to_64:
  "parse_float ''18446744073709551615.0'' = Some (F64 False 9007199254740992 11) \<and>
   to_uint64 impl ''18446744073709551615.0'' = Inr impl"
proof -
  have "nbits 184467440737095516150 = 68" "nbits 10 = 4" by (simp_all add: nbits.simps)
  then have f: "parse_float ''18446744073709551615.0'' = Some (F64 False 9007199254740992 11)"
    by (simp add: parse_float_def nearest_f64_def Let_def underscore_ok_def strip_sign_def
        base_prefix_def digit_val_def ascii_lower_def read_exponent_def round_div_def)
  then show ?thesis
    by (simp add: to_uint64_def has_prefix_def f_gt_nat_def f_lt_zero_def f_to_u64_def f_trunc_def max_u64_def)
qed

end
