(* ===== verification/Json.thy ===== *)
theory Json
  imports Numbers "HOL-Library.Char_ord" "HOL-Library.List_Lexorder"
begin

text \<open>
  Go's \<^verbatim>\<open>encoding/json\<close>, as far as the program uses it: reading a text into
  a value (with the nesting limit of 10000 and the decoder's treatment of escapes and
  invalid UTF-8), keeping the raw text of an object member
  (\<^verbatim>\<open>json.RawMessage\<close>), decoding into \<^verbatim>\<open>interface{}\<close>,
  matching member names with struct fields, and writing values back.  A text is a byte
  sequence.
\<close>

section \<open>UTF-8\<close>

definition byte :: "char \<Rightarrow> nat" where
  "byte c = of_char c"

definition cont :: "char \<Rightarrow> bool" where
  "cont c \<longleftrightarrow> 128 \<le> byte c \<and> byte c < 192"

text \<open>The length of the valid UTF-8 sequence at the head of a text, 0 if there is none.\<close>

definition utf8_size :: "string \<Rightarrow> nat" where
  "utf8_size s =
     (case s of
        [] \<Rightarrow> 0
      | a # t \<Rightarrow>
          (let x = byte a in
           if x < 128 then 1
           else if 194 \<le> x \<and> x < 224 then
             (case t of b # _ \<Rightarrow> if cont b then 2 else 0 | _ \<Rightarrow> 0)
           else if 224 \<le> x \<and> x < 240 then
             (case t of
                b # c # _ \<Rightarrow>
                  if cont b \<and> cont c \<and> (x = 224 \<longrightarrow> 160 \<le> byte b) \<and> (x = 237 \<longrightarrow> byte b < 160)
                  then 3 else 0
              | _ \<Rightarrow> 0)
           else if 240 \<le> x \<and> x < 245 then
             (case t of
                b # c # d # _ \<Rightarrow>
                  if cont b \<and> cont c \<and> cont d \<and> (x = 240 \<longrightarrow> 144 \<le> byte b) \<and> (x = 244 \<longrightarrow> byte b < 144)
                  then 4 else 0
              | _ \<Rightarrow> 0)
           else 0))"

definition utf8_enc :: "nat \<Rightarrow> string" where
  "utf8_enc r =
     (if r < 128 then [char_of r]
      else if r < 2048 then [char_of (192 + r div 64), char_of (128 + r mod 64)]
      else if r < 65536 then
        [char_of (224 + r div 4096), char_of (128 + r div 64 mod 64), char_of (128 + r mod 64)]
      else [char_of (240 + r div 262144), char_of (128 + r div 4096 mod 64),
            char_of (128 + r div 64 mod 64), char_of (128 + r mod 64)])"

definition replacement :: string where
  "replacement = utf8_enc 65533"

section \<open>Scanning\<close>

definition is_ws :: "char \<Rightarrow> bool" where
  "is_ws c \<longleftrightarrow> byte c \<in> {32, 9, 10, 13}"

definition skip_ws :: "string \<Rightarrow> string" where
  "skip_ws s = dropWhile is_ws s"

definition is_digit :: "char \<Rightarrow> bool" where
  "is_digit c \<longleftrightarrow> 48 \<le> byte c \<and> byte c < 58"

definition is_hex :: "char \<Rightarrow> bool" where
  "is_hex c \<longleftrightarrow> is_digit_of 16 c"

text \<open>The body of a string literal after its opening quote: the raw body and the rest.\<close>

fun scan_string :: "string \<Rightarrow> (string \<times> string) option" where
  "scan_string [] = None"
| "scan_string (c # cs) =
     (if c = CHR 0x22 then Some ([], cs)
      else if byte c < 32 then None
      else if c = CHR 0x5C then
        (case cs of
           [] \<Rightarrow> None
         | e # r \<Rightarrow>
             if byte e \<in> {98, 102, 110, 114, 116, 92, 47, 34} then
               map_option (\<lambda>(b, q). (c # e # b, q)) (scan_string r)
             else if e = CHR ''u'' \<and> 4 \<le> length r \<and> list_all is_hex (take 4 r) then
               map_option (\<lambda>(b, q). (c # e # b, q)) (scan_string r)
             else None)
      else map_option (\<lambda>(b, q). (c # b, q)) (scan_string cs))"

definition hex4 :: "string \<Rightarrow> nat" where
  "hex4 s = positional 16 0 (take 4 s)"

definition simple_escape :: "char \<Rightarrow> char" where
  "simple_escape e =
     (if e = CHR ''b'' then char_of (8::nat) else if e = CHR ''f'' then char_of (12::nat)
      else if e = CHR ''n'' then char_of (10::nat) else if e = CHR ''r'' then char_of (13::nat)
      else if e = CHR ''t'' then char_of (9::nat) else e)"

text \<open>
  The string a scanned body denotes.  An unpaired surrogate and every byte that is not
  part of a valid UTF-8 sequence become the replacement character.
\<close>

function unquote :: "string \<Rightarrow> string" where
  "unquote [] = []"
| "unquote (c # cs) =
     (if c = CHR 0x5C then
        (case cs of
           [] \<Rightarrow> []
         | e # r \<Rightarrow>
             if e \<noteq> CHR ''u'' then simple_escape e # unquote r
             else let u = hex4 r; r1 = drop 4 r in
               if u < 55296 \<or> 57344 \<le> u then utf8_enc u @ unquote r1
               else if u < 56320 \<and> take 2 r1 = [CHR 0x5C, CHR ''u''] \<and>
                       56320 \<le> hex4 (drop 2 r1) \<and> hex4 (drop 2 r1) < 57344
                    then utf8_enc (65536 + (u - 55296) * 1024 + (hex4 (drop 2 r1) - 56320)) @ unquote (drop 6 r1)
                    else replacement @ unquote r1)
      else let n = utf8_size (c # cs) in
        if n = 0 then replacement @ unquote cs
        else take n (c # cs) @ unquote (drop (n - 1) cs))"
  by pat_completeness auto
termination by (relation "measure length") auto

text \<open>A number literal at the head of a text.\<close>

definition span_digits :: "string \<Rightarrow> string \<times> string" where
  "span_digits s = (takeWhile is_digit s, dropWhile is_digit s)"

definition scan_fraction :: "string \<Rightarrow> (string \<times> string) option" where
  "scan_fraction s =
     (case s of
        [] \<Rightarrow> Some ([], s)
      | c # cs \<Rightarrow>
          if c = CHR ''.'' then
            (case span_digits cs of ([], _) \<Rightarrow> None | (ds, r) \<Rightarrow> Some (c # ds, r))
          else Some ([], s))"

definition scan_exp :: "string \<Rightarrow> (string \<times> string) option" where
  "scan_exp s =
     (case s of
        [] \<Rightarrow> Some ([], s)
      | c # cs \<Rightarrow>
          if ascii_lower c = 101 then
            (let sg = (case cs of x # _ \<Rightarrow> if x = CHR ''+'' \<or> x = CHR ''-'' then [x] else [] | [] \<Rightarrow> [])
             in (case span_digits (drop (length sg) cs) of
                   ([], _) \<Rightarrow> None
                 | (ds, r) \<Rightarrow> Some (c # sg @ ds, r)))
          else Some ([], s))"

definition scan_number :: "string \<Rightarrow> (string \<times> string) option" where
  "scan_number s =
     (let sg = (case s of x # _ \<Rightarrow> if x = CHR ''-'' then [x] else [] | [] \<Rightarrow> []);
          t = drop (length sg) s
      in (case t of
            [] \<Rightarrow> None
          | d # r \<Rightarrow>
              if \<not> is_digit d then None
              else (let (ds, r1) = (if d = CHR ''0'' then ([d], r) else span_digits t) in
                (case scan_fraction r1 of
                   None \<Rightarrow> None
                 | Some (fr, r2) \<Rightarrow>
                     (case scan_exp r2 of
                        None \<Rightarrow> None
                      | Some (ex, r3) \<Rightarrow> Some (sg @ ds @ fr @ ex, r3))))))"

section \<open>Values\<close>

text \<open>A member of an object carries its name, the raw text of its value, and the value.\<close>

datatype json =
    JNull
  | JBool bool
  | JNum string
  | JStr string
  | JArr "json list"
  | JObj "(string \<times> string \<times> json) list"

definition scan_literal :: "string \<Rightarrow> (json \<times> string) option" where
  "scan_literal s =
     (if has_prefix ''null'' s then Some (JNull, drop 4 s)
      else if has_prefix ''true'' s then Some (JBool True, drop 4 s)
      else if has_prefix ''false'' s then Some (JBool False, drop 5 s)
      else map_option (\<lambda>(t, r). (JNum t, r)) (scan_number s))"

text \<open>
  The first argument is fuel, two units for each byte; the second the nesting that is
  still allowed.
\<close>

fun scan_value :: "nat \<Rightarrow> nat \<Rightarrow> string \<Rightarrow> (json \<times> string) option"
and scan_elems :: "nat \<Rightarrow> nat \<Rightarrow> string \<Rightarrow> (json list \<times> string) option"
and scan_members :: "nat \<Rightarrow> nat \<Rightarrow> string \<Rightarrow> ((string \<times> string \<times> json) list \<times> string) option"
where
  "scan_value 0 depth s = None"
| "scan_value (Suc f) depth s =
     (case skip_ws s of
        [] \<Rightarrow> None
      | c # cs \<Rightarrow>
          if c = CHR ''{'' then
            (if depth = 0 then None
             else if take 1 (skip_ws cs) = ''}'' then Some (JObj [], drop 1 (skip_ws cs))
             else map_option (\<lambda>(ms, r). (JObj ms, r)) (scan_members f (depth - 1) cs))
          else if c = CHR ''['' then
            (if depth = 0 then None
             else if take 1 (skip_ws cs) = '']'' then Some (JArr [], drop 1 (skip_ws cs))
             else map_option (\<lambda>(vs, r). (JArr vs, r)) (scan_elems f (depth - 1) cs))
          else if c = CHR 0x22 then
            map_option (\<lambda>(b, r). (JStr (unquote b), r)) (scan_string cs)
          else scan_literal (c # cs))"
| "scan_elems 0 depth s = None"
| "scan_elems (Suc f) depth s =
     (case scan_value f depth s of
        None \<Rightarrow> None
      | Some (v, r) \<Rightarrow>
          (case skip_ws r of
             [] \<Rightarrow> None
           | c # r' \<Rightarrow>
               if c = CHR '','' then map_option (\<lambda>(vs, q). (v # vs, q)) (scan_elems f depth r')
               else if c = CHR '']'' then Some ([v], r')
               else None))"
| "scan_members 0 depth s = None"
| "scan_members (Suc f) depth s =
     (case skip_ws s of
        [] \<Rightarrow> None
      | q # s1 \<Rightarrow>
          if q \<noteq> CHR 0x22 then None
          else (case scan_string s1 of
            None \<Rightarrow> None
          | Some (k, s2) \<Rightarrow>
              (case skip_ws s2 of
                 [] \<Rightarrow> None
               | col # s3 \<Rightarrow>
                   if col \<noteq> CHR '':'' then None
                   else (case scan_value f depth s3 of
                     None \<Rightarrow> None
                   | Some (v, r) \<Rightarrow>
                       let m = (unquote k, take (length (skip_ws s3) - length r) (skip_ws s3), v) in
                       (case skip_ws r of
                          [] \<Rightarrow> None
                        | c # r' \<Rightarrow>
                            if c = CHR '','' then map_option (\<lambda>(ms, z). (m # ms, z)) (scan_members f depth r')
                            else if c = CHR ''}'' then Some ([m], r')
                            else None)))))"

definition max_nesting :: nat where
  "max_nesting = 10000"

definition json_parse :: "string \<Rightarrow> json option" where
  "json_parse s =
     (case scan_value (2 * length s + 2) max_nesting s of
        None \<Rightarrow> None
      | Some (v, r) \<Rightarrow> if skip_ws r = [] then Some v else None)"

section \<open>The fuel of the scanner is enough\<close>

lemma length_skip_ws: "length (skip_ws s) \<le> length s"
  by (simp add: skip_ws_def length_dropWhile_le)

lemma skip_ws_Cons_length: "skip_ws s = c # cs \<Longrightarrow> length cs < length s"
  using length_skip_ws [of s] by simp

lemma scan_string_length: "scan_string s = Some (b, r) \<Longrightarrow> length r < length s"
proof (induction s arbitrary: b r rule: scan_string.induct)
  case 1
  then show ?case by simp
next
  case (2 c cs)
  then show ?case
    by (fastforce split: if_splits list.splits)
qed

lemma scan_fraction_length: "scan_fraction s = Some (t, r) \<Longrightarrow> length r \<le> length s"
  by (auto simp: scan_fraction_def span_digits_def split: list.splits if_splits prod.splits
      intro: le_SucI length_dropWhile_le)

lemma scan_exp_length: "scan_exp s = Some (t, r) \<Longrightarrow> length r \<le> length s"
  by (auto simp: scan_exp_def span_digits_def Let_def split: list.splits if_splits prod.splits
      intro: le_SucI length_dropWhile_le order_trans [OF length_dropWhile_le])

lemma scan_number_length: "scan_number s = Some (t, r) \<Longrightarrow> length r < length s"
proof -
  assume num: "scan_number s = Some (t, r)"
  define sg where "sg = (case s of x # _ \<Rightarrow> if x = CHR ''-'' then [x] else [] | [] \<Rightarrow> [])"
  obtain d q where dq: "drop (length sg) s = d # q" "is_digit d"
    using num by (auto simp: scan_number_def sg_def [symmetric] Let_def split: list.splits if_splits)
  define r1 where "r1 = snd (if d = CHR ''0'' then ([d], q) else span_digits (d # q))"
  obtain fr r2 ex where r2: "scan_fraction r1 = Some (fr, r2)" "scan_exp r2 = Some (ex, r)"
    using num dq
    by (auto simp: scan_number_def sg_def [symmetric] Let_def r1_def
        split: list.splits if_splits prod.splits option.splits)
  have "length r1 \<le> length q"
    using dq(2) by (auto simp: r1_def span_digits_def intro: length_dropWhile_le)
  moreover have "length q < length s"
    using arg_cong [OF dq(1), of length] by simp
  ultimately show ?thesis
    using scan_fraction_length [OF r2(1)] scan_exp_length [OF r2(2)] by simp
qed

lemma scan_literal_length: "scan_literal s = Some (v, r) \<Longrightarrow> length r < length s"
  by (auto simp: scan_literal_def has_prefix_iff split: if_splits dest: scan_number_length)

lemma scan_lengths:
  "scan_value f depth s = Some (v, r) \<Longrightarrow> length r < length s"
  "scan_elems f depth s = Some (vs, r) \<Longrightarrow> length r < length s"
  "scan_members f depth s = Some (ms, r) \<Longrightarrow> length r < length s"
proof (induction f depth s and f depth s and f depth s arbitrary: v r and vs r and ms r
    rule: scan_value_scan_elems_scan_members.induct)
  case (2 f depth s)
  then obtain c cs where s: "skip_ws s = c # cs" by (auto split: list.splits)
  note len = skip_ws_Cons_length [OF s] length_skip_ws [of s] length_skip_ws [of cs]
  show ?case
    using 2 s len
    by (fastforce split: if_splits dest: scan_string_length scan_literal_length)
next
  case (4 f depth s)
  then show ?case
    by (fastforce split: option.splits list.splits if_splits dest: skip_ws_Cons_length)
next
  case (6 f depth s)
  then show ?case
    by (fastforce simp: Let_def split: option.splits list.splits if_splits
        dest: skip_ws_Cons_length scan_string_length)
qed auto


text \<open>Two units of fuel for each byte are enough: more fuel gives the same result.\<close>

lemma scan_more_fuel:
  "2 * length s + 1 \<le> f \<Longrightarrow> scan_value (Suc f) depth s = scan_value f depth s"
  "2 * length s + 2 \<le> f \<Longrightarrow> scan_elems (Suc f) depth s = scan_elems f depth s"
  "2 * length s + 2 \<le> f \<Longrightarrow> scan_members (Suc f) depth s = scan_members f depth s"
proof (induction f arbitrary: depth s)
  case 0
  {
    case 1
    then show ?case by simp
  next
    case 2
    then show ?case by simp
  next
    case 3
    then show ?case by simp
  }
next
  case (Suc f)
  {
    case 1
    show ?case
    proof (cases "skip_ws s")
      case Nil
      then show ?thesis by simp
    next
      case (Cons c cs)
      have "2 * length cs + 2 \<le> f" using 1 skip_ws_Cons_length [OF Cons] by simp
      then show ?thesis using Suc.IH(2,3) [of cs "depth - 1"] Cons by simp
    qed
  next
    case 2
    have v: "scan_value (Suc f) depth s = scan_value f depth s"
      by (rule Suc.IH) (use 2 in simp)
    have e: "scan_elems (Suc f) depth r' = scan_elems f depth r'"
      if "scan_value f depth s = Some (x, r)" "skip_ws r = c # r'" for x r c r'
    proof (rule Suc.IH)
      show "2 * length r' + 2 \<le> f"
        using 2 scan_lengths(1) [OF that(1)] skip_ws_Cons_length [OF that(2)] by simp
    qed
    show ?case
      unfolding scan_elems.simps(2) [of "Suc f" depth s] scan_elems.simps(2) [of f depth s] v
      by (auto simp del: scan_elems.simps split: option.split list.split dest: e)
  next
    case 3
    have v: "scan_value (Suc f) depth s3 = scan_value f depth s3"
      if "skip_ws s = q # s1" "scan_string s1 = Some (k, s2)" "skip_ws s2 = col # s3" for q s1 k s2 col s3
    proof (rule Suc.IH)
      show "2 * length s3 + 1 \<le> f"
        using 3 skip_ws_Cons_length [OF that(1)] scan_string_length [OF that(2)]
          skip_ws_Cons_length [OF that(3)] by simp
    qed
    have m: "scan_members (Suc f) depth r' = scan_members f depth r'"
      if "skip_ws s = q # s1" "scan_string s1 = Some (k, s2)" "skip_ws s2 = col # s3"
        "scan_value f depth s3 = Some (x, r)" "skip_ws r = c # r'" for q s1 k s2 col s3 x r c r'
    proof (rule Suc.IH)
      show "2 * length r' + 2 \<le> f"
        using 3 skip_ws_Cons_length [OF that(1)] scan_string_length [OF that(2)]
          skip_ws_Cons_length [OF that(3)] scan_lengths(1) [OF that(4)]
          skip_ws_Cons_length [OF that(5)] by simp
    qed
    show ?case
      unfolding scan_members.simps(2) [of "Suc f" depth s] scan_members.simps(2) [of f depth s]
      by (auto simp: Let_def v simp del: scan_members.simps scan_value.simps
          split: option.split list.split dest: m)
  }
qed

lemma scan_value_enough_fuel:
  "2 * length s + 1 \<le> f \<Longrightarrow> scan_value (f + k) depth s = scan_value f depth s"
proof (induction k)
  case (Suc k)
  then show ?case using scan_more_fuel(1) [of s "f + k" depth] by simp
qed simp

text \<open>The raw text of a member is never empty.\<close>

lemma skip_ws_idem: "skip_ws (skip_ws s) = skip_ws s"
  by (simp add: skip_ws_def)

lemma scan_value_skip_ws: "scan_value f depth (skip_ws s) = scan_value f depth s"
  by (cases f) (simp_all add: skip_ws_idem)

lemma scan_members_raw:
  "scan_members f depth s = Some (ms, r) \<Longrightarrow> (k, raw, v) \<in> set ms \<Longrightarrow> raw \<noteq> []"
proof (induction f arbitrary: s ms r)
  case 0
  then show ?case by simp
next
  case (Suc f)
  obtain q s1 kt s2 c s3 x r1 where
    "skip_ws s = q # s1" "q = CHR 0x22" "scan_string s1 = Some (kt, s2)" "skip_ws s2 = c # s3" "c = CHR '':''"
    and v: "scan_value f depth s3 = Some (x, r1)"
    using Suc.prems(1)
    by (auto simp: Let_def split: list.splits option.splits if_splits)
  then have ms: "ms = [(unquote kt, take (length (skip_ws s3) - length r1) (skip_ws s3), x)] \<or>
      (\<exists>ms' s' r'. ms = (unquote kt, take (length (skip_ws s3) - length r1) (skip_ws s3), x) # ms' \<and>
        scan_members f depth s' = Some (ms', r'))"
    using Suc.prems(1) by (auto simp: Let_def split: list.splits if_splits)
  have "length r1 < length (skip_ws s3)"
    using scan_lengths(1) [of f depth "skip_ws s3" x r1] v by (simp add: scan_value_skip_ws)
  then show ?case
    using ms Suc.prems(2) Suc.IH by (auto simp: dest: arg_cong [of _ _ length])
qed

lemma scan_value_raw:
  "scan_value f depth s = Some (JObj ms, r) \<Longrightarrow> (k, raw, v) \<in> set ms \<Longrightarrow> raw \<noteq> []"
  by (cases f)
     (auto simp: scan_literal_def simp del: scan_members.simps split: list.splits if_splits dest: scan_members_raw)

lemma json_parse_raw: "json_parse s = Some (JObj ms) \<Longrightarrow> (k, raw, v) \<in> set ms \<Longrightarrow> raw \<noteq> []"
  by (auto simp: json_parse_def simp del: scan_value.simps split: option.splits prod.splits if_splits
      dest: scan_value_raw)

section \<open>interface{} values\<close>

datatype any =
    ANil
  | ABool bool
  | AFloat f64
  | AStr string
  | AArr "any list"
  | AObj "(string \<times> any) list"

text \<open>
  Decoding into \<^verbatim>\<open>interface{}\<close>; a number outside the range of
  \<^verbatim>\<open>float64\<close> is an error.  A later member replaces an earlier one of the same
  name.
\<close>

fun put :: "string \<Rightarrow> 'a \<Rightarrow> (string \<times> 'a) list \<Rightarrow> (string \<times> 'a) list" where
  "put k v [] = [(k, v)]"
| "put k v ((k', v') # kvs) = (if k = k' then (k, v) # kvs else (k', v') # put k v kvs)"

fun any_of :: "json \<Rightarrow> any option"
and any_list :: "json list \<Rightarrow> any list option"
and any_members :: "(string \<times> string \<times> json) list \<Rightarrow> (string \<times> any) list \<Rightarrow> (string \<times> any) list option"
where
  "any_of JNull = Some ANil"
| "any_of (JBool b) = Some (ABool b)"
| "any_of (JNum t) = map_option AFloat (parse_float t)"
| "any_of (JStr s) = Some (AStr s)"
| "any_of (JArr js) = map_option AArr (any_list js)"
| "any_of (JObj ms) = map_option AObj (any_members ms [])"
| "any_list [] = Some []"
| "any_list (j # js) =
     (case any_of j of
        None \<Rightarrow> None
      | Some a \<Rightarrow> map_option (\<lambda>as. a # as) (any_list js))"
| "any_members [] acc = Some acc"
| "any_members ((k, raw, j) # ms) acc =
     (case any_of j of
        None \<Rightarrow> None
      | Some a \<Rightarrow> any_members ms (put k a acc))"

definition unmarshal_any :: "string \<Rightarrow> any option" where
  "unmarshal_any s = Option.bind (json_parse s) any_of"

section \<open>Struct fields\<close>

text \<open>
  A member name matches a field exactly or up to case.  Two runes outside ASCII fold into
  it: the long s and the Kelvin sign.
\<close>

definition ascii_upper :: "char \<Rightarrow> char" where
  "ascii_upper c = (if 97 \<le> byte c \<and> byte c \<le> 122 then char_of (byte c - 32) else c)"

fun fold_name :: "string \<Rightarrow> string" where
  "fold_name [] = []"
| "fold_name (a # s) =
     (if byte a = 197 \<and> take 1 s = [CHR 0xBF] then CHR ''S'' # fold_name (drop 1 s)
      else if byte a = 226 \<and> take 2 s = [CHR 0x84, CHR 0xAA] then CHR ''K'' # fold_name (drop 2 s)
      else ascii_upper a # fold_name s)"

definition field_matches :: "string \<Rightarrow> string \<Rightarrow> bool" where
  "field_matches field name \<longleftrightarrow> name = field \<or> fold_name name = fold_name field"

section \<open>Writing values\<close>

definition hex_char :: "nat \<Rightarrow> char" where
  "hex_char d = (if d < 10 then char_of (48 + d) else char_of (87 + d))"

definition esc_u :: "nat \<Rightarrow> string" where
  "esc_u n = [CHR 0x5C, CHR ''u'', hex_char (n div 4096 mod 16), hex_char (n div 256 mod 16),
     hex_char (n div 16 mod 16), hex_char (n mod 16)]"

definition enc_ascii :: "char \<Rightarrow> string" where
  "enc_ascii c =
     (let n = byte c in
      if n = 34 \<or> n = 92 then [CHR 0x5C, c]
      else if n = 8 then [CHR 0x5C, CHR ''b'']
      else if n = 12 then [CHR 0x5C, CHR ''f'']
      else if n = 10 then [CHR 0x5C, CHR ''n'']
      else if n = 13 then [CHR 0x5C, CHR ''r'']
      else if n = 9 then [CHR 0x5C, CHR ''t'']
      else if n < 32 \<or> n = 60 \<or> n = 62 \<or> n = 38 then esc_u n
      else [c])"

text \<open>The two line separators U+2028 and U+2029 are escaped as well.\<close>

definition line_sep :: "string \<Rightarrow> nat option" where
  "line_sep s =
     (if take 2 s = [CHR 0xE2, CHR 0x80] then
        (case drop 2 s of
           [] \<Rightarrow> None
         | c # _ \<Rightarrow> if byte c = 168 then Some 8232 else if byte c = 169 then Some 8233 else None)
      else None)"

function enc_body :: "string \<Rightarrow> string" where
  "enc_body [] = []"
| "enc_body (c # cs) =
     (if byte c < 128 then enc_ascii c @ enc_body cs
      else let n = utf8_size (c # cs) in
        if n = 0 then esc_u 65533 @ enc_body cs
        else (case line_sep (c # cs) of
                Some u \<Rightarrow> esc_u u
              | None \<Rightarrow> take n (c # cs)) @ enc_body (drop (n - 1) cs))"
  by pat_completeness auto
termination by (relation "measure length") auto

definition enc_string :: "string \<Rightarrow> string" where
  "enc_string s = CHR 0x22 # enc_body s @ [CHR 0x22]"

text \<open>
  Shortest decimal text of a float: the least number of digits for which the nearest
  decimal reads back as the same float.  \<open>dec_round n d k\<close> rounds \<open>n / d\<close> to a multiple of
  \<open>10 powr k\<close>.
\<close>

definition f_ratio :: "f64 \<Rightarrow> nat \<times> nat" where
  "f_ratio f = (if f_exp f \<ge> 0 then (f_mant f * 2 ^ nat (f_exp f), 1)
                else (f_mant f, 2 ^ nat (- f_exp f)))"

definition dec_round :: "nat \<Rightarrow> nat \<Rightarrow> int \<Rightarrow> nat" where
  "dec_round n d k = (if k \<ge> 0 then round_div n (d * 10 ^ nat k) else round_div (n * 10 ^ nat (- k)) d)"

definition dec_ratio :: "nat \<Rightarrow> int \<Rightarrow> nat \<times> nat" where
  "dec_ratio m k = (if k \<ge> 0 then (m * 10 ^ nat k, 1) else (m, 10 ^ nat (- k)))"

definition same_ratio :: "nat \<times> nat \<Rightarrow> nat \<times> nat \<Rightarrow> bool" where
  "same_ratio p q \<longleftrightarrow> fst p * snd q = fst q * snd p"

text \<open>The exponent \<open>x\<close> with \<open>10 powr (x - 1) \<le> n / d < 10 powr x\<close>.\<close>

definition dec_exponent :: "nat \<Rightarrow> nat \<Rightarrow> int" where
  "dec_exponent n d =
     (let k = int (length (show_nat n)) - int (length (show_nat d));
          below = (\<lambda>x. if x \<ge> 0 then n < d * 10 ^ nat x else n * 10 ^ nat (- x) < d)
      in if below k then k else k + 1)"

fun shortest :: "nat \<Rightarrow> f64 \<Rightarrow> nat \<Rightarrow> int \<Rightarrow> nat \<times> int" where
  "shortest 0 f nd x = (case f_ratio f of (n, d) \<Rightarrow> (dec_round n d (x - int nd), x - int nd))"
| "shortest (Suc fuel) f nd x =
     (case f_ratio f of (n, d) \<Rightarrow>
        let m = dec_round n d (x - int nd); q = dec_ratio m (x - int nd)
        in (case nearest_f64 False (fst q) (snd q) of
              None \<Rightarrow> shortest fuel f (Suc nd) x
            | Some g \<Rightarrow> if same_ratio (f_ratio g) (n, d) then (m, x - int nd)
                        else shortest fuel f (Suc nd) x))"

definition strip_zeros :: "string \<Rightarrow> string" where
  "strip_zeros s = trim_right (CHR ''0'') s"

text \<open>
  The shortest digits of a float other than zero, without trailing zeros, and the place of
  the decimal point after the first of them.
\<close>

definition f_digits :: "f64 \<Rightarrow> string \<times> int" where
  "f_digits f =
     (let (n, d) = f_ratio f;
          (m, k) = shortest 16 f 1 (dec_exponent n d);
          raw = show_nat m
      in (strip_zeros raw, int (length raw) + k))"

definition point_text :: "string \<Rightarrow> int \<Rightarrow> string" where
  "point_text ds p =
     (if p \<le> 0 then ''0.'' @ replicate (nat (- p)) (CHR ''0'') @ ds
      else if int (length ds) \<le> p then ds @ replicate (nat (p - int (length ds))) (CHR ''0'')
      else take (nat p) ds @ ''.'' @ drop (nat p) ds)"

text \<open>Scientific text with an exponent of at least \<open>w\<close> digits.\<close>

definition sci_text :: "nat \<Rightarrow> string \<Rightarrow> int \<Rightarrow> string" where
  "sci_text w ds p =
     (let e = p - 1; es = show_nat (nat \<bar>e\<bar>)
      in (if length ds = 1 then ds else hd ds # CHR ''.'' # tl ds) @
         (if e < 0 then ''e-'' else ''e+'') @ replicate (w - length es) (CHR ''0'') @ es)"

text \<open>
  \<^verbatim>\<open>encoding/json\<close> writes floats without an exponent between \<open>1e-6\<close> and
  \<open>1e21\<close>, and drops the leading zero of a negative exponent outside.
\<close>

definition enc_f64 :: "f64 \<Rightarrow> string" where
  "enc_f64 f =
     (if f_neg f then ''-'' else []) @
     (if f_mant f = 0 then ''0''
      else let (ds, p) = f_digits f
        in if p < - 5 then sci_text 1 ds p else if 21 < p then sci_text 2 ds p else point_text ds p)"

definition enc_member :: "string \<Rightarrow> string \<Rightarrow> string" where
  "enc_member k v = enc_string k @ '':'' @ v"

text \<open>A map is written with its names in byte order.\<close>

fun enc_any :: "any \<Rightarrow> string" where
  "enc_any ANil = ''null''"
| "enc_any (ABool b) = (if b then ''true'' else ''false'')"
| "enc_any (AFloat f) = enc_f64 f"
| "enc_any (AStr s) = enc_string s"
| "enc_any (AArr xs) = ''['' @ str_join '','' (map enc_any xs) @ '']''"
| "enc_any (AObj kvs) =
     ''{'' @ str_join '','' (map (\<lambda>p. enc_member (fst p) (snd p))
        (sort_key fst (map (\<lambda>(k, v). (k, enc_any v)) kvs))) @ ''}''"

text \<open>
  A raw value is checked and written without the white space outside strings;
  \<^verbatim>\<open>&\<close>, the angle brackets and the line separators are escaped.
\<close>

fun compact_body :: "bool \<Rightarrow> bool \<Rightarrow> string \<Rightarrow> string" where
  "compact_body instr esc [] = []"
| "compact_body instr esc (c # cs) =
     (if byte c \<in> {60, 62, 38} then esc_u (byte c) @ compact_body instr False cs
      else if line_sep (c # cs) \<noteq> None then
        esc_u (the (line_sep (c # cs))) @ compact_body instr False (drop 2 cs)
      else if \<not> instr then
        (if is_ws c then compact_body False False cs
         else c # compact_body (c = CHR 0x22) False cs)
      else if esc then c # compact_body True False cs
      else c # compact_body (c \<noteq> CHR 0x22) (c = CHR 0x5C) cs)"

definition compact :: "string \<Rightarrow> string option" where
  "compact raw = (if json_parse raw = None then None else Some (compact_body False False raw))"

end
