(* ===== verification/JsonRpc.thy ===== *)
theory JsonRpc
  imports Json
begin

text \<open>
  \<^verbatim>\<open>pkg/jsonrpc\<close>: requests (single calls and batches), error replies, their
  JSON texts, and the request type that selects the upstream.
\<close>

section \<open>bytes.TrimSpace\<close>

text \<open>The UTF-8 texts of the Unicode white space.\<close>

definition space_texts :: "string list" where
  "space_texts =
     map (\<lambda>n. [char_of (n::nat)]) [9, 10, 11, 12, 13, 32] @
     [[CHR 0xC2, CHR 0x85], [CHR 0xC2, CHR 0xA0], [CHR 0xE1, CHR 0x9A, CHR 0x80]] @
     map (\<lambda>n. [CHR 0xE2, CHR 0x80, char_of (n::nat)])
       [128, 129, 130, 131, 132, 133, 134, 135, 136, 137, 138, 168, 169, 175] @
     [[CHR 0xE2, CHR 0x81, CHR 0x9F], [CHR 0xE3, CHR 0x80, CHR 0x80]]"

function trim_heads :: "string list \<Rightarrow> string \<Rightarrow> string" where
  "trim_heads hs s =
     (case find (\<lambda>h. h \<noteq> [] \<and> has_prefix h s) hs of
        None \<Rightarrow> s
      | Some h \<Rightarrow> trim_heads hs (drop (length h) s))"
  by pat_completeness auto
termination
proof (relation "measure (\<lambda>(hs, s). length s)", goal_cases)
  case (2 hs s h)
  then have "h \<noteq> []" "has_prefix h s" by (auto simp: find_Some_iff)
  then show ?case by (auto simp: has_prefix_iff)
qed simp

declare trim_heads.simps [simp del]

definition trim_space :: "bytes \<Rightarrow> bytes" where
  "trim_space s = rev (trim_heads (map rev space_texts) (rev (trim_heads space_texts s)))"

section \<open>Requests\<close>

definition RequestTypeGeth :: nat where "RequestTypeGeth = 1"
definition RequestTypeErigon :: nat where "RequestTypeErigon = 2"

text \<open>
  An absent or null id is the nil pointer \<open>None\<close>; \<open>rq_params\<close> is the raw text of the
  parameters, empty when there are none.
\<close>

record single_request =
  rq_id :: "any option"
  rq_version :: string
  rq_method :: string
  rq_params :: bytes

definition zero_request :: single_request where
  "zero_request = \<lparr>rq_id = None, rq_version = [], rq_method = [], rq_params = []\<rparr>"

text \<open>\<open>None\<close> is a nil slice or pointer, so an empty batch is not the absence of one.\<close>

record rpc_request =
  batch_call :: "single_request list option"
  single_call :: "single_request option"
  request_type :: nat

definition zero_rpc_request :: rpc_request where
  "zero_rpc_request = \<lparr>batch_call = None, single_call = None, request_type = 0\<rparr>"

definition is_batch_call :: "rpc_request \<Rightarrow> bool" where
  "is_batch_call r \<longleftrightarrow> batch_call r \<noteq> None"

definition get_batch_call :: "rpc_request \<Rightarrow> single_request list" where
  "get_batch_call r = (case batch_call r of None \<Rightarrow> [] | Some b \<Rightarrow> b)"

definition cost :: "rpc_request \<Rightarrow> int" where
  "cost r =
     (if single_call r \<noteq> None then 1
      else let n = length (get_batch_call r) in if n = 0 then 1 else int n)"

text \<open>The calls of a request.\<close>

definition calls_of :: "rpc_request \<Rightarrow> single_request list" where
  "calls_of r =
     (case batch_call r of
        Some rs \<Rightarrow> rs
      | None \<Rightarrow> (case single_call r of Some s \<Rightarrow> [s] | None \<Rightarrow> []))"

lemma calls_of_type [simp]: "calls_of (r\<lparr>request_type := t\<rparr>) = calls_of r"
  unfolding calls_of_def by (simp cong: option.case_cong)

section \<open>Decoding\<close>

definition decode_text :: "json \<Rightarrow> string \<Rightarrow> string option" where
  "decode_text j old = (case j of JStr s \<Rightarrow> Some s | JNull \<Rightarrow> Some old | _ \<Rightarrow> None)"

text \<open>One member of the object being decoded into the struct; others are skipped.\<close>

definition decode_member :: "string \<times> string \<times> json \<Rightarrow> single_request \<Rightarrow> single_request option" where
  "decode_member m r =
     (case m of (k, raw, j) \<Rightarrow>
        if field_matches ''id'' k then
          (if j = JNull then Some (r\<lparr>rq_id := None\<rparr>)
           else map_option (\<lambda>a. r\<lparr>rq_id := Some a\<rparr>) (any_of j))
        else if field_matches ''jsonrpc'' k then
          map_option (\<lambda>t. r\<lparr>rq_version := t\<rparr>) (decode_text j (rq_version r))
        else if field_matches ''method'' k then
          map_option (\<lambda>t. r\<lparr>rq_method := t\<rparr>) (decode_text j (rq_method r))
        else if field_matches ''params'' k then Some (r\<lparr>rq_params := raw\<rparr>)
        else Some r)"

fun decode_members :: "(string \<times> string \<times> json) list \<Rightarrow> single_request \<Rightarrow> single_request option" where
  "decode_members [] r = Some r"
| "decode_members (m # ms) r = Option.bind (decode_member m r) (decode_members ms)"

text \<open>An element of the batch slice: an object, or null for the zero value.\<close>

fun decode_single :: "json \<Rightarrow> single_request option" where
  "decode_single (JObj ms) = decode_members ms zero_request"
| "decode_single JNull = Some zero_request"
| "decode_single _ = None"

fun decode_list :: "json list \<Rightarrow> single_request list option" where
  "decode_list [] = Some []"
| "decode_list (j # js) =
     Option.bind (decode_single j) (\<lambda>r. map_option (\<lambda>rs. r # rs) (decode_list js))"

fun decode_batch :: "json \<Rightarrow> single_request list option option" where
  "decode_batch (JArr js) = map_option Some (decode_list js)"
| "decode_batch JNull = Some None"
| "decode_batch _ = None"

text \<open>A pointer to the struct: null leaves it nil.\<close>

fun decode_pointer :: "json \<Rightarrow> single_request option option" where
  "decode_pointer JNull = Some None"
| "decode_pointer j = map_option Some (decode_single j)"

text \<open>
  \<^verbatim>\<open>UnmarshalJSON\<close>.  The decoder calls it with the text of one value, which is
  never empty.
\<close>

definition unmarshal_json :: "bytes \<Rightarrow> rpc_request option" where
  "unmarshal_json raw =
     (let data = trim_space raw in
      if data = [] then None
      else if hd data = CHR ''['' \<and> last data = CHR '']'' then
        map_option (\<lambda>b. zero_rpc_request\<lparr>batch_call := b\<rparr>) (Option.bind (json_parse data) decode_batch)
      else
        map_option (\<lambda>s. zero_rpc_request\<lparr>single_call := s\<rparr>) (Option.bind (json_parse data) decode_pointer))"

text \<open>
  \<^verbatim>\<open>json.Unmarshal(rawreq, &req)\<close>: the text is checked, and the text of its
  value, without the white space around it, is given to \<^verbatim>\<open>UnmarshalJSON\<close>.
\<close>

definition value_text :: "bytes \<Rightarrow> bytes" where
  "value_text raw = rev (skip_ws (rev (skip_ws raw)))"

definition unmarshal_request :: "bytes \<Rightarrow> rpc_request option" where
  "unmarshal_request raw = (if json_parse raw = None then None else unmarshal_json (value_text raw))"

section \<open>Encoding\<close>

definition enc_id :: "any option \<Rightarrow> string" where
  "enc_id i = (case i of None \<Rightarrow> ''null'' | Some a \<Rightarrow> enc_any a)"

definition enc_object :: "string list \<Rightarrow> string" where
  "enc_object ms = ''{'' @ str_join '','' ms @ ''}''"

text \<open>A raw member with \<^verbatim>\<open>omitempty\<close>.\<close>

definition raw_member :: "string \<Rightarrow> bytes \<Rightarrow> string list option" where
  "raw_member k raw = (if raw = [] then Some [] else map_option (\<lambda>t. [enc_member k t]) (compact raw))"

definition marshal_single :: "single_request \<Rightarrow> bytes option" where
  "marshal_single r =
     map_option
       (\<lambda>ps. enc_object
          ([enc_member ''id'' (enc_id (rq_id r)), enc_member ''jsonrpc'' (enc_string (rq_version r)),
            enc_member ''method'' (enc_string (rq_method r))] @ ps))
       (raw_member ''params'' (rq_params r))"

fun marshal_list :: "single_request list \<Rightarrow> bytes list option" where
  "marshal_list [] = Some []"
| "marshal_list (r # rs) =
     Option.bind (marshal_single r) (\<lambda>t. map_option (\<lambda>ts. t # ts) (marshal_list rs))"

definition marshal_request :: "rpc_request \<Rightarrow> bytes option" where
  "marshal_request r =
     (case batch_call r of
        Some rs \<Rightarrow> map_option (\<lambda>ts. ''['' @ str_join '','' ts @ '']'') (marshal_list rs)
      | None \<Rightarrow> (case single_call r of None \<Rightarrow> Some ''null'' | Some s \<Rightarrow> marshal_single s))"

section \<open>Replies\<close>

text \<open>\<^verbatim>\<open>JsonRpcResponse\<close>, as the cache builds it: id, version, error and result.\<close>

record rpc_response =
  rs_id :: "any option"
  rs_version :: string
  rs_error :: bytes
  rs_result :: bytes

definition marshal_response :: "rpc_response \<Rightarrow> bytes option" where
  "marshal_response r =
     Option.bind (raw_member ''error'' (rs_error r)) (\<lambda>es.
       map_option
         (\<lambda>rs. enc_object
            ([enc_member ''id'' (enc_id (rs_id r)), enc_member ''jsonrpc'' (enc_string (rs_version r))] @ es @ rs))
         (raw_member ''result'' (rs_result r)))"

section \<open>Errors\<close>

record rpc_error =
  je_id :: "any option"
  je_code :: int
  je_message :: string
  je_data :: "bytes option"

definition unauthorized_err :: rpc_error where
  "unauthorized_err = \<lparr>je_id = None, je_code = 401, je_message = ''Unauthorized'', je_data = None\<rparr>"

definition too_many_request_err :: rpc_error where
  "too_many_request_err = \<lparr>je_id = None, je_code = 429, je_message = ''Too many requests'', je_data = None\<rparr>"

definition parse_error :: rpc_error where
  "parse_error = \<lparr>je_id = None, je_code = - 32700, je_message = ''Parse error'', je_data = None\<rparr>"

definition new_internal_server_error :: "any option \<Rightarrow> rpc_error" where
  "new_internal_server_error i =
     \<lparr>je_id = i, je_code = - 32000, je_message = ''Internal server error'', je_data = None\<rparr>"

definition new_unsupported_method_error :: "any option \<Rightarrow> rpc_error" where
  "new_unsupported_method_error i =
     \<lparr>je_id = i, je_code = - 32601, je_message = ''Unsupported method'', je_data = None\<rparr>"

text \<open>\<^verbatim>\<open>MarshalJSON\<close> builds maps, so names come out in byte order.\<close>

definition marshal_error :: "rpc_error \<Rightarrow> bytes option" where
  "marshal_error e =
     map_option
       (\<lambda>ds. enc_object
          [enc_member ''error'' (enc_object
             ([enc_member ''code'' (show_int (je_code e))] @ ds @
              [enc_member ''message'' (enc_string (je_message e))])),
           enc_member ''id'' (enc_id (je_id e)),
           enc_member ''jsonrpc'' (enc_string ''2.0'')])
       (case je_data e of None \<Rightarrow> Some [] | Some d \<Rightarrow> map_option (\<lambda>t. [enc_member ''data'' t]) (compact d))"

definition error_text :: "rpc_error \<Rightarrow> string" where
  "error_text e = ''jsonrpc err with code: '' @ show_int (je_code e) @ '' message: '' @ je_message e"

section \<open>Well-formed requests\<close>

text \<open>
  What decoding yields: a batch or a single call, never both, of the request type zero;
  neither only for the text \<^verbatim>\<open>null\<close>.
\<close>

definition decoded_request :: "rpc_request \<Rightarrow> bool" where
  "decoded_request r \<longleftrightarrow> request_type r = 0 \<and> (batch_call r = None \<or> single_call r = None)"

lemma unmarshal_request_decoded: "unmarshal_request raw = Some r \<Longrightarrow> decoded_request r"
  by (auto simp: unmarshal_request_def unmarshal_json_def Let_def decoded_request_def
      zero_rpc_request_def split: if_splits)

lemma cost_pos: "1 \<le> cost r"
  by (auto simp: cost_def Let_def Suc_le_eq)

lemma cost_batch: "single_call r = None \<Longrightarrow> get_batch_call r \<noteq> [] \<Longrightarrow> cost r = int (length (get_batch_call r))"
  by (simp add: cost_def)

lemma decode_list_length: "decode_list js = Some rs \<Longrightarrow> length rs = length js"
  by (induction js arbitrary: rs) (auto simp: bind_eq_Some_conv)

lemma marshal_single_defined: "compact (rq_params r) \<noteq> None \<Longrightarrow> marshal_single r \<noteq> None"
  by (simp add: marshal_single_def raw_member_def)

lemma marshal_request_single:
  "batch_call r = None \<Longrightarrow> single_call r = Some s \<Longrightarrow> marshal_request r = marshal_single s"
  by (simp add: marshal_request_def)

end
