(* ===== verification/Utils.thy ===== *)
theory Utils
  imports Json
begin

text \<open>
  \<^verbatim>\<open>pkg/utils\<close>: searching a list of names
  (\<^verbatim>\<open>array.go\<close>), small text helpers (\<^verbatim>\<open>common.go\<close>), and
  \<^verbatim>\<open>JqQueryFirst\<close> (\<^verbatim>\<open>string.go\<close>), whose jq engine is a parameter.
\<close>

section \<open>array.go\<close>

fun find_from :: "int \<Rightarrow> string \<Rightarrow> string list \<Rightarrow> int" where
  "find_from i str [] = - 1"
| "find_from i str (item # items) = (if item = str then i else find_from (i + 1) str items)"

definition Find :: "string \<Rightarrow> string list \<Rightarrow> int" where
  "Find str str_list = find_from 0 str str_list"

definition In :: "string \<Rightarrow> string list \<Rightarrow> bool" where
  "In str str_list \<longleftrightarrow> Find str str_list \<noteq> - 1"

lemma find_from_miss: "0 \<le> i \<Longrightarrow> find_from i s xs = - 1 \<longleftrightarrow> s \<notin> set xs"
  by (induction xs arbitrary: i) auto

lemma In_iff [text_simps]: "In s xs \<longleftrightarrow> s \<in> set xs"
  by (simp add: In_def Find_def find_from_miss)

lemma In_Nil [simp]: "\<not> In s []"
  by (simp add: In_iff)

section \<open>common.go\<close>

definition sanitize_backticks :: "string \<Rightarrow> string" where
  "sanitize_backticks s = map (\<lambda>c. if c = CHR 0x60 then CHR 0x27 else c) s"

text \<open>An index out of range panics.\<close>

definition Slice :: "'a list \<Rightarrow> int \<Rightarrow> 'a outcome" where
  "Slice val index =
     (if 0 \<le> index \<and> nat index < length val then Ret (val ! nat index) else Panic ''index out of range'')"

fun first_of :: "string list \<Rightarrow> string" where
  "first_of [] = []"
| "first_of (opt # opts) = (if opt \<noteq> [] then opt else first_of opts)"

lemma sanitize_backticks_none: "CHR 0x60 \<notin> set (sanitize_backticks s)"
  by (auto simp: sanitize_backticks_def)

lemma first_of_cases: "first_of opts = [] \<or> first_of opts \<in> set opts"
  by (induction opts) auto

section \<open>string.go\<close>

text \<open>The \<^verbatim>\<open>%v\<close> of \<^verbatim>\<open>fmt\<close>: shortest digits, an exponent outside \<open>1e-4\<close> to \<open>1e6\<close>.\<close>

definition fmt_float :: "f64 \<Rightarrow> string" where
  "fmt_float f =
     (if f_neg f then ''-'' else []) @
     (if f_mant f = 0 then ''0''
      else let (ds, p) = f_digits f in if p < - 3 \<or> 6 < p then sci_text 2 ds p else point_text ds p)"

text \<open>
  What the jq engine yields next: an error, a halt without a value, a string, a float, or
  another value with its \<^verbatim>\<open>%v\<close> text.
\<close>

datatype jq_item = JqError gerr | JqHalt | JqString string | JqFloat f64 | JqOther string

text \<open>
  The engine: the first item a query yields on a value, if any.  The loop of the code
  never reaches a second one.
\<close>

definition jq_query_first :: "('q \<Rightarrow> any \<Rightarrow> jq_item option) \<Rightarrow> bytes \<Rightarrow> 'q \<Rightarrow> gerr + string" where
  "jq_query_first jq input query =
     (case unmarshal_any input of
        None \<Rightarrow> Inl ''failed to unmarshal JSON''
      | Some data \<Rightarrow>
          (case jq query data of
             None \<Rightarrow> Inl ''no result found''
           | Some v \<Rightarrow>
               (case v of
                  JqError e \<Rightarrow> Inl e
                | JqHalt \<Rightarrow> Inl ''no result found''
                | JqString s \<Rightarrow> Inr s
                | JqFloat f \<Rightarrow> Inr (fmt_float f)
                | JqOther t \<Rightarrow> Inr t)))"

text \<open>
  An engine for the witnesses: a query is a path of member names; a missing member and a
  member of null are null, whose text is \<^verbatim>\<open><nil>\<close>.
\<close>

fun member_path :: "string list \<Rightarrow> any \<Rightarrow> jq_item option" where
  "member_path [] v = Some
     (case v of AStr s \<Rightarrow> JqString s | AFloat f \<Rightarrow> JqFloat f | ABool b \<Rightarrow> JqOther (if b then ''true'' else ''false'')
      | ANil \<Rightarrow> JqOther ''<nil>'' | _ \<Rightarrow> JqOther ''[...]'')"
| "member_path (k # ks) v =
     (case v of
        AObj kvs \<Rightarrow> member_path ks (case map_of kvs k of None \<Rightarrow> ANil | Some x \<Rightarrow> x)
      | ANil \<Rightarrow> member_path ks ANil
      | _ \<Rightarrow> Some (JqError ''expected an object''))"

section \<open>A block height of one significant digit\<close>

lemma shortest_16:
  "shortest 16 f nd x =
     (case f_ratio f of (n, d) \<Rightarrow>
        let m = dec_round n d (x - int nd); q = dec_ratio m (x - int nd)
        in (case nearest_f64 False (fst q) (snd q) of
              None \<Rightarrow> shortest 15 f (Suc nd) x
            | Some g \<Rightarrow> if same_ratio (f_ratio g) (n, d) then (m, x - int nd)
                        else shortest 15 f (Suc nd) x))"
  using shortest.simps(2) [of 15 f nd x] by (simp del: shortest.simps)

lemma height_chars: "digit_char 0 = CHR ''0''" "digit_char 3 = CHR ''3''" "digit_char 8 = CHR ''8''"
  by code_simp+

lemma height_digits:
  "show_nat 300000000 = ''300000000''" "show_nat 3 = ''3''" "show_nat 8 = ''8''" "length (show_nat (Suc 0)) = 1"
  by (simp_all add: show_nat.simps height_chars)

lemma height_f_digits: "f_digits (F64 False 300000000 0) = (''3'', 9)"
proof -
  have b: "nbits 300000000 = 29" "nbits (Suc 0) = 1" by (simp_all add: nbits.simps)
  have x: "dec_exponent 300000000 (Suc 0) = 9" by (simp add: dec_exponent_def height_digits Let_def)
  have n: "nearest_f64 False 300000000 (Suc 0) = Some (F64 False 5033164800000000 (- 24))"
    by (simp add: nearest_f64_def b round_div_def Let_def)
  have "shortest 16 (F64 False 300000000 0) (Suc 0) 9 = (3, 8)"
    by (simp add: shortest_16 f_ratio_def Let_def dec_round_def round_div_def dec_ratio_def n same_ratio_def)
  then show ?thesis
    by (simp add: f_digits_def f_ratio_def x Let_def height_digits strip_zeros_def trim_right_def)
qed

text \<open>
  A height that the probe cannot read.  A JSON number reaches \<open>ToUint64\<close> as its
  \<^verbatim>\<open>%v\<close> text.  From a million on that text has an exponent, and only a text with a dot is
  read as a float; the height 300000000 is \<^verbatim>\<open>3e+08\<close>, which has none, and is an error.
\<close>

theorem round_height_is_an_error:
  "fmt_float (F64 False 300000000 0) = ''3e+08'' \<and>
   to_uint64 impl (fmt_float (F64 False 300000000 0)) = Inl ErrSyntax"
proof -
  have "fmt_float (F64 False 300000000 0) = ''3e+08''"
    by (simp add: fmt_float_def height_f_digits sci_text_def height_digits)
  moreover have "to_uint64 impl ''3e+08'' = Inl ErrSyntax"
    by (simp add: to_uint64_def parse_uint_def has_prefix_def digit_val_def ascii_lower_def max_u64_def Let_def)
  ultimately show ?thesis by simp
qed

end
