(* ===== verification/Md5.thy ===== *)
theory Md5
  imports Json "HOL-Library.Word"
begin

unbundle bit_operations_syntax

text \<open>
  \<^verbatim>\<open>md5.Sum\<close> of \<^verbatim>\<open>crypto/md5\<close> and
  \<^verbatim>\<open>hex.EncodeToString\<close>, which the program uses to put the parameters of a
  call into the key of its cached result.  Words are 32 bits wide; blocks are 16 words.
\<close>

type_synonym u32 = "32 word"

definition md5_k :: "u32 list" where
  "md5_k = [
     3614090360, 3905402710, 606105819, 3250441966, 4118548399, 1200080426, 2821735955, 4249261313,
     1770035416, 2336552879, 4294925233, 2304563134, 1804603682, 4254626195, 2792965006, 1236535329,
     4129170786, 3225465664, 643717713, 3921069994, 3593408605, 38016083, 3634488961, 3889429448,
     568446438, 3275163606, 4107603335, 1163531501, 2850285829, 4243563512, 1735328473, 2368359562,
     4294588738, 2272392833, 1839030562, 4259657740, 2763975236, 1272893353, 4139469664, 3200236656,
     681279174, 3936430074, 3572445317, 76029189, 3654602809, 3873151461, 530742520, 3299628645,
     4096336452, 1126891415, 2878612391, 4237533241, 1700485571, 2399980690, 4293915773, 2240044497,
     1873313359, 4264355552, 2734768916, 1309151649, 4149444226, 3174756917, 718787259, 3951481745]"

definition md5_s :: "nat list" where
  "md5_s = [
     7, 12, 17, 22, 7, 12, 17, 22, 7, 12, 17, 22, 7, 12, 17, 22,
     5, 9, 14, 20, 5, 9, 14, 20, 5, 9, 14, 20, 5, 9, 14, 20,
     4, 11, 16, 23, 4, 11, 16, 23, 4, 11, 16, 23, 4, 11, 16, 23,
     6, 10, 15, 21, 6, 10, 15, 21, 6, 10, 15, 21, 6, 10, 15, 21]"

definition rotl :: "nat \<Rightarrow> u32 \<Rightarrow> u32" where
  "rotl n x = push_bit n x OR drop_bit (32 - n) x"

fun le_bytes :: "nat \<Rightarrow> nat \<Rightarrow> nat list" where
  "le_bytes 0 n = []"
| "le_bytes (Suc k) n = n mod 256 # le_bytes k (n div 256)"

definition md5_pad :: "nat list \<Rightarrow> nat list" where
  "md5_pad bs =
     bs @ 128 # replicate ((119 - length bs mod 64) mod 64) 0 @ le_bytes 8 (8 * length bs mod 2 ^ 64)"

fun words_le :: "nat list \<Rightarrow> u32 list" where
  "words_le (a # b # c # d # r) = of_nat (a + 256 * (b + 256 * (c + 256 * d))) # words_le r"
| "words_le _ = []"

definition md5_mix :: "nat \<Rightarrow> u32 \<Rightarrow> u32 \<Rightarrow> u32 \<Rightarrow> u32" where
  "md5_mix i b c d =
     (if i < 16 then (b AND c) OR (NOT b AND d)
      else if i < 32 then (d AND b) OR (NOT d AND c)
      else if i < 48 then b XOR c XOR d
      else c XOR (b OR NOT d))"

definition md5_index :: "nat \<Rightarrow> nat" where
  "md5_index i =
     (if i < 16 then i else if i < 32 then (5 * i + 1) mod 16
      else if i < 48 then (3 * i + 5) mod 16 else 7 * i mod 16)"

type_synonym md5_state = "u32 \<times> u32 \<times> u32 \<times> u32"

definition md5_round :: "u32 list \<Rightarrow> nat \<Rightarrow> md5_state \<Rightarrow> md5_state" where
  "md5_round m i st =
     (case st of (a, b, c, d) \<Rightarrow>
        (d, b + rotl (md5_s ! i) (a + md5_mix i b c d + md5_k ! i + m ! md5_index i), b, c))"

definition md5_block :: "u32 list \<Rightarrow> md5_state \<Rightarrow> md5_state" where
  "md5_block m st =
     (case (st, fold (md5_round m) [0..<64] st) of
        ((a, b, c, d), (a', b', c', d')) \<Rightarrow> (a + a', b + b', c + c', d + d'))"

fun md5_blocks :: "nat \<Rightarrow> u32 list \<Rightarrow> md5_state \<Rightarrow> md5_state" where
  "md5_blocks 0 ws st = st"
| "md5_blocks (Suc n) ws st = md5_blocks n (drop 16 ws) (md5_block (take 16 ws) st)"

definition hex_byte :: "nat \<Rightarrow> string" where
  "hex_byte n = [hex_char (n div 16 mod 16), hex_char (n mod 16)]"

text \<open>The digest in hexadecimal.\<close>

definition md5_hex :: "bytes \<Rightarrow> string" where
  "md5_hex s =
     (let ws = words_le (md5_pad (map byte s));
          st = md5_blocks (length ws div 16) ws (1732584193, 4023233417, 2562383102, 271733878)
      in case st of (a, b, c, d) \<Rightarrow>
           concat (map hex_byte (concat (map (\<lambda>w. le_bytes 4 (unat w)) [a, b, c, d]))))"

text \<open>A digest is 32 hexadecimal digits, so it holds no colon.\<close>

lemma length_le_bytes [simp]: "length (le_bytes k n) = k"
  by (induction k n rule: le_bytes.induct) auto

lemma length_concat_const: "(\<forall>x \<in> set xs. length (f x) = n) \<Longrightarrow> length (concat (map f xs)) = n * length xs"
  by (induction xs) auto

lemma md5_hex_length: "length (md5_hex s) = 32"
proof -
  have "length (concat (map hex_byte bs)) = 2 * length bs" for bs
    by (rule length_concat_const) (simp add: hex_byte_def)
  then show ?thesis by (simp add: md5_hex_def Let_def split: prod.split)
qed

lemma hex_char_not_colon: "d < 16 \<Longrightarrow> hex_char d \<noteq> CHR '':''"
proof
  assume d: "d < 16" and "hex_char d = CHR '':''"
  then have "of_char (hex_char d) = (58::nat)" by simp
  with d show False by (simp add: hex_char_def split: if_splits)
qed

lemma md5_hex_no_colon: "CHR '':'' \<notin> set (md5_hex s)"
  by (auto simp: md5_hex_def Let_def hex_byte_def hex_char_not_colon [symmetric] split: prod.splits)

end
