(* ===== verification/Proxy.thy ===== *)
theory Proxy
  imports RateLimit JsonRpc Utils Md5
begin

text \<open>
  \<^verbatim>\<open>pkg/proxy/jsonRpcProxy.go\<close> and
  \<^verbatim>\<open>pkg/proxy/tendermintRpcProxy.go\<close>: forwarding a request to the upstream
  node, with a Redis cache of the results of some methods.  Parameters beside those of the
  limiter: the HTTP client.
\<close>

section \<open>Environment and configuration\<close>

text \<open>
  \<open>http_post\<close> is \<^verbatim>\<open>Client.Post\<close> with a JSON content type and reading the
  body: a transport error, or the result of reading.  \<open>http_get\<close> also yields the status
  code and the status line.
\<close>

record 'w gateway_env = "'w limiter_env" +
  http_post :: "string \<Rightarrow> bytes \<Rightarrow> 'w \<Rightarrow> (gerr + (gerr + bytes)) \<times> 'w"
  http_get :: "string \<Rightarrow> 'w \<Rightarrow> (gerr + (nat \<times> string \<times> (gerr + bytes))) \<times> 'w"

record proxy_config =
  http_upstream :: string
  ws_upstream :: string
  http_erigon_stream :: string
  ws_erigon_upstream :: string
  cache_time :: int
  chain_id :: nat
  cacheable_methods :: "string list"

record tendermint_request =
  tm_path :: string
  tm_query :: string

text \<open>
  The \<^verbatim>\<open>request\<close> of the proxy.  Its \<^verbatim>\<open>cacheFn\<close> is set together
  with the cache key, always to \<^verbatim>\<open>CacheFn\<close>, and never read.
\<close>

record upstream_request =
  up_rpc :: "rpc_request option"
  up_tendermint :: "tendermint_request option"
  up_id :: int
  up_cache_key :: "string option"

text \<open>\<^verbatim>\<open>UpstreamJsonRpcResponse\<close>; a nil raw message is \<open>None\<close>.\<close>

record upstream_response =
  ur_id :: any
  ur_version :: string
  ur_error :: "bytes option"
  ur_result :: "bytes option"

definition zero_response :: upstream_response where
  "zero_response = \<lparr>ur_id = ANil, ur_version = [], ur_error = None, ur_result = None\<rparr>"

definition decode_response_member :: "string \<times> string \<times> json \<Rightarrow> upstream_response \<Rightarrow> upstream_response option" where
  "decode_response_member m r =
     (case m of (k, raw, j) \<Rightarrow>
        if field_matches ''id'' k then map_option (\<lambda>a. r\<lparr>ur_id := a\<rparr>) (any_of j)
        else if field_matches ''jsonrpc'' k then
          map_option (\<lambda>t. r\<lparr>ur_version := t\<rparr>) (decode_text j (ur_version r))
        else if field_matches ''error'' k then Some (r\<lparr>ur_error := Some raw\<rparr>)
        else if field_matches ''result'' k then Some (r\<lparr>ur_result := Some raw\<rparr>)
        else Some r)"

fun decode_response_members ::
  "(string \<times> string \<times> json) list \<Rightarrow> upstream_response \<Rightarrow> upstream_response option" where
  "decode_response_members [] r = Some r"
| "decode_response_members (m # ms) r =
     Option.bind (decode_response_member m r) (decode_response_members ms)"

definition unmarshal_response :: "bytes \<Rightarrow> upstream_response option" where
  "unmarshal_response raw =
     (case json_parse raw of
        Some (JObj ms) \<Rightarrow> decode_response_members ms zero_response
      | Some JNull \<Rightarrow> Some zero_response
      | _ \<Rightarrow> None)"

definition marshal_upstream_response :: "upstream_response \<Rightarrow> bytes option" where
  "marshal_upstream_response r =
     marshal_response
       \<lparr>rs_id = Some (ur_id r), rs_version = ur_version r,
        rs_error = (case ur_error r of None \<Rightarrow> [] | Some e \<Rightarrow> e),
        rs_result = (case ur_result r of None \<Rightarrow> [] | Some x \<Rightarrow> x)\<rparr>"

section \<open>JSON-RPC\<close>

text \<open>The counter of request ids is an \<^verbatim>\<open>int64\<close>; the state is the counter and the world.\<close>

type_synonym 'w pstate = "int \<times> 'w"

definition from_request :: "rpc_request \<Rightarrow> int \<Rightarrow> upstream_request \<times> int" where
  "from_request raw rid =
     (let n = i64 (rid + 1)
      in (\<lparr>up_rpc = Some raw, up_tendermint = None, up_id = n, up_cache_key = None\<rparr>, n))"

definition rpc_cache_key :: "nat \<Rightarrow> string \<Rightarrow> bytes \<Rightarrow> string" where
  "rpc_cache_key cid meth params = ''rpc:'' @ show_nat cid @ '':'' @ meth @ '':'' @ md5_hex params"

text \<open>
  \<^verbatim>\<open>fromCache\<close>: the request with its cache key, if the method is cacheable,
  and the reply found.  A request without a single call dereferences nil.
\<close>

definition from_cache ::
  "('w, 'x) gateway_env_scheme \<Rightarrow> proxy_config \<Rightarrow> upstream_request \<Rightarrow> 'w \<Rightarrow>
   (upstream_request \<times> (gerr + bytes option)) outcome \<times> 'w" where
  "from_cache E cfg req w =
     (case Option.bind (up_rpc req) single_call of
        None \<Rightarrow> (Panic ''nil pointer dereference'', w)
      | Some s \<Rightarrow>
          (let key = rpc_cache_key (chain_id cfg) (rq_method s) (rq_params s) in
           if \<not> In (rq_method s) (cacheable_methods cfg) then (Ret (req, Inr None), w)
           else
             (let req1 = req\<lparr>up_cache_key := Some key\<rparr> in
              case rd_get E key w of
                (Inl e, w1) \<Rightarrow> (Ret (req1, Inl e), w1)
              | (Inr t, w1) \<Rightarrow>
                  (let res = (case t of None \<Rightarrow> [] | Some b \<Rightarrow> b) in
                   if res = [] then (Ret (req1, Inr None), w1)
                   else (case marshal_response
                               \<lparr>rs_id = rq_id s, rs_version = rq_version s, rs_error = [], rs_result = res\<rparr> of
                           None \<Rightarrow> (Ret (req1, Inl ''json: error calling MarshalJSON''), w1)
                         | Some data \<Rightarrow> (Ret (req1, Inr (Some data)), w1))))))"

definition cache_fn ::
  "('w, 'x) gateway_env_scheme \<Rightarrow> proxy_config \<Rightarrow> string \<Rightarrow> bytes \<Rightarrow> 'w \<Rightarrow> gerr option \<times> 'w" where
  "cache_fn E cfg key result w = rd_set E key result (cache_time cfg) w"

definition upstream_url :: "proxy_config \<Rightarrow> nat \<Rightarrow> string" where
  "upstream_url cfg rtype = (if rtype = RequestTypeErigon then http_erigon_stream cfg else http_upstream cfg)"

definition do_http_upstream_call ::
  "('w, 'x) gateway_env_scheme \<Rightarrow> proxy_config \<Rightarrow> rpc_request \<Rightarrow> 'w \<Rightarrow> (gerr + bytes) \<times> 'w" where
  "do_http_upstream_call E cfg req w =
     (case marshal_request req of
        None \<Rightarrow> (Inl ''fail to marshal request'', w)
      | Some rawreq \<Rightarrow>
          (case http_post E (upstream_url cfg (request_type req)) rawreq w of
             (Inl e, w1) \<Rightarrow> (Inl (''fail to post request: '' @ e), w1)
           | (Inr (Inl e), w1) \<Rightarrow> (Inl (''fail to read response body: '' @ e), w1)
           | (Inr (Inr resp), w1) \<Rightarrow> (Inr resp, w1)))"

text \<open>A failure to store the result is logged.\<close>

definition store_result ::
  "('w, 'x) gateway_env_scheme \<Rightarrow> proxy_config \<Rightarrow> string option \<Rightarrow> bytes option \<Rightarrow> 'w \<Rightarrow> 'w" where
  "store_result E cfg key result w =
     (case (key, result) of
        (Some k, Some r) \<Rightarrow> snd (cache_fn E cfg k r w)
      | _ \<Rightarrow> w)"

definition http_upstream_call ::
  "('w, 'x) gateway_env_scheme \<Rightarrow> proxy_config \<Rightarrow> upstream_request \<Rightarrow> rpc_request \<Rightarrow> 'w \<Rightarrow> (gerr + bytes) \<times> 'w" where
  "http_upstream_call E cfg req raw w =
     (case do_http_upstream_call E cfg raw w of
        (Inl e, w1) \<Rightarrow> (Inl e, w1)
      | (Inr resp, w1) \<Rightarrow>
          (case unmarshal_response resp of
             None \<Rightarrow> (Inl ''fail to unmarshal upstream response'', w1)
           | Some ur \<Rightarrow> (Inr resp, store_result E cfg (up_cache_key req) (ur_result ur) w1)))"

definition http_proxy ::
  "('w, 'x) gateway_env_scheme \<Rightarrow> proxy_config \<Rightarrow> rpc_request \<Rightarrow> 'w pstate \<Rightarrow> (gerr + bytes) outcome \<times> 'w pstate" where
  "http_proxy E cfg raw s =
     (let (rid, w) = s in
      if is_batch_call raw then
        (let (r, w1) = do_http_upstream_call E cfg raw w in (Ret r, (rid, w1)))
      else
        (let (req, rid1) = from_request raw rid in
         case from_cache E cfg req w of
           (Panic p, w1) \<Rightarrow> (Panic p, (rid1, w1))
         | (Ret (req1, Inl e), w1) \<Rightarrow> (Ret (Inl e), (rid1, w1))
         | (Ret (req1, Inr (Some data)), w1) \<Rightarrow> (Ret (Inr data), (rid1, w1))
         | (Ret (req1, Inr None), w1) \<Rightarrow>
             (let (r, w2) = http_upstream_call E cfg req1 raw w1 in (Ret r, (rid1, w2)))))"

section \<open>Tendermint\<close>

definition from_request_path :: "tendermint_request \<Rightarrow> int \<Rightarrow> upstream_request \<times> int" where
  "from_request_path tm rid =
     (let n = i64 (rid + 1)
      in (\<lparr>up_rpc = None, up_tendermint = Some tm, up_id = n, up_cache_key = None\<rparr>, n))"

definition tendermint_cache_key :: "nat \<Rightarrow> string \<Rightarrow> string \<Rightarrow> string" where
  "tendermint_cache_key cid path query =
     ''tendermint:'' @ show_nat cid @ '':'' @ path @ '':'' @ md5_hex (path @ query)"

definition from_tendermint_cache ::
  "('w, 'x) gateway_env_scheme \<Rightarrow> proxy_config \<Rightarrow> tendermint_request \<Rightarrow> upstream_request \<Rightarrow> 'w \<Rightarrow>
   (upstream_request \<times> (gerr + bytes option)) \<times> 'w" where
  "from_tendermint_cache E cfg tm req w =
     (let key = tendermint_cache_key (chain_id cfg) (tm_path tm) (tm_query tm) in
      if \<not> In (tm_path tm) (cacheable_methods cfg) then ((req, Inr None), w)
      else
        (let req1 = req\<lparr>up_cache_key := Some key\<rparr> in
         case rd_get E key w of
           (Inl e, w1) \<Rightarrow> ((req1, Inl e), w1)
         | (Inr t, w1) \<Rightarrow>
             (let res = (case t of None \<Rightarrow> [] | Some b \<Rightarrow> b) in
              ((req1, Inr (if res = [] then None else Some res)), w1))))"

definition do_tendermint_upstream_call ::
  "('w, 'x) gateway_env_scheme \<Rightarrow> proxy_config \<Rightarrow> tendermint_request \<Rightarrow> 'w \<Rightarrow> (gerr + bytes) \<times> 'w" where
  "do_tendermint_upstream_call E cfg tm w =
     (case http_get E (http_upstream cfg @ ''/'' @ tm_path tm @ tm_query tm) w of
        (Inl e, w1) \<Rightarrow> (Inl e, w1)
      | (Inr (code, status, body), w1) \<Rightarrow> (if code \<noteq> 200 then Inl status else body, w1))"

text \<open>What is cached is the whole reply, written anew.\<close>

definition tendermint_upstream ::
  "('w, 'x) gateway_env_scheme \<Rightarrow> proxy_config \<Rightarrow> tendermint_request \<Rightarrow> upstream_request \<Rightarrow> 'w \<Rightarrow> (gerr + bytes) \<times> 'w" where
  "tendermint_upstream E cfg tm req w =
     (case do_tendermint_upstream_call E cfg tm w of
        (Inl e, w1) \<Rightarrow> (Inl e, w1)
      | (Inr resp, w1) \<Rightarrow>
          (case unmarshal_response resp of
             None \<Rightarrow> (Inl ''fail to unmarshal upstream response'', w1)
           | Some ur \<Rightarrow>
               (Inr resp,
                if ur_result ur = None then w1
                else store_result E cfg (up_cache_key req) (marshal_upstream_response ur) w1)))"

definition tendermint_proxy ::
  "('w, 'x) gateway_env_scheme \<Rightarrow> proxy_config \<Rightarrow> tendermint_request \<Rightarrow> 'w pstate \<Rightarrow> (gerr + bytes) \<times> 'w pstate" where
  "tendermint_proxy E cfg tm s =
     (let (rid, w) = s;
          (req, rid1) = from_request_path tm rid
      in case from_tendermint_cache E cfg tm req w of
           ((req1, Inl e), w1) \<Rightarrow> (Inl e, (rid1, w1))
         | ((req1, Inr (Some data)), w1) \<Rightarrow> (Inr data, (rid1, w1))
         | ((req1, Inr None), w1) \<Rightarrow>
             (let (r, w2) = tendermint_upstream E cfg tm req1 w1 in (r, (rid1, w2))))"

section \<open>What a cached call does\<close>

text \<open>
  Both kinds of call look a reply up, return it when there is one, and fetch one
  otherwise.  \<open>cached_call\<close> is that contract over the two steps.
\<close>

locale cached_call =
  fixes call :: "'s \<Rightarrow> (gerr + bytes) \<times> 's"
    and find_reply :: "'s \<Rightarrow> (gerr + bytes option) \<times> 's"
    and fetch :: "'s \<Rightarrow> (gerr + bytes) \<times> 's"
  assumes call_error: "find_reply s = (Inl e, s1) \<Longrightarrow> call s = (Inl e, s1)"
    and call_hit: "find_reply s = (Inr (Some d), s1) \<Longrightarrow> call s = (Inr d, s1)"
    and call_miss: "find_reply s = (Inr None, s1) \<Longrightarrow> call s = fetch s1"
begin

text \<open>A reply is one that was found, or one that was fetched after nothing was found.\<close>

lemma reply_cases:
  assumes "call s = (Inr d, s')"
  obtains (found) "find_reply s = (Inr (Some d), s')"
  | (fetched) s1 where "find_reply s = (Inr None, s1)" "fetch s1 = (Inr d, s')"
proof -
  obtain f s1 where f: "find_reply s = (f, s1)" by (cases "find_reply s")
  consider e where "f = Inl e" | d' where "f = Inr (Some d')" | "f = Inr None"
    by (metis obj_sumE option.exhaust)
  then show thesis
    using found fetched assms f call_error call_hit call_miss by cases auto
qed

lemma call_keeps:
  assumes "call s = (x, s')" "\<And>y s1. find_reply s = (y, s1) \<Longrightarrow> P s1"
    and "\<And>y s1 s2. P s1 \<Longrightarrow> fetch s1 = (y, s2) \<Longrightarrow> P s2"
  shows "P s'"
proof -
  obtain f s1 where f: "find_reply s = (f, s1)" by (cases "find_reply s")
  consider e where "f = Inl e" | d where "f = Inr (Some d)" | "f = Inr None"
    by (metis obj_sumE option.exhaust)
  then show ?thesis
    using assms f call_error call_hit call_miss by cases auto
qed

end

definition find_rpc ::
  "('w, 'x) gateway_env_scheme \<Rightarrow> proxy_config \<Rightarrow> single_request \<Rightarrow> 'w \<Rightarrow> (gerr + bytes option) \<times> 'w" where
  "find_rpc E cfg r w =
     (if \<not> In (rq_method r) (cacheable_methods cfg) then (Inr None, w)
      else case rd_get E (rpc_cache_key (chain_id cfg) (rq_method r) (rq_params r)) w of
             (Inl e, w1) \<Rightarrow> (Inl e, w1)
           | (Inr t, w1) \<Rightarrow>
               (case t of
                  None \<Rightarrow> (Inr None, w1)
                | Some res \<Rightarrow>
                    if res = [] then (Inr None, w1)
                    else (case marshal_response
                                \<lparr>rs_id = rq_id r, rs_version = rq_version r, rs_error = [], rs_result = res\<rparr> of
                            None \<Rightarrow> (Inl ''json: error calling MarshalJSON'', w1)
                          | Some data \<Rightarrow> (Inr (Some data), w1))))"

definition rpc_key_of :: "proxy_config \<Rightarrow> single_request \<Rightarrow> string option" where
  "rpc_key_of cfg r =
     (if In (rq_method r) (cacheable_methods cfg)
      then Some (rpc_cache_key (chain_id cfg) (rq_method r) (rq_params r)) else None)"

lemma from_cache_find:
  assumes "up_rpc req = Some raw" "single_call raw = Some r" "up_cache_key req = None"
  shows "from_cache E cfg req w =
    (case find_rpc E cfg r w of (f, w1) \<Rightarrow> (Ret (req\<lparr>up_cache_key := rpc_key_of cfg r\<rparr>, f), w1))"
  using assms
  by (auto simp: from_cache_def find_rpc_def rpc_key_of_def Let_def
      split: prod.splits sum.splits option.splits)

definition fetch_rpc ::
  "('w, 'x) gateway_env_scheme \<Rightarrow> proxy_config \<Rightarrow> string option \<Rightarrow> rpc_request \<Rightarrow> 'w \<Rightarrow> (gerr + bytes) \<times> 'w" where
  "fetch_rpc E cfg key raw w =
     (case do_http_upstream_call E cfg raw w of
        (Inl e, w1) \<Rightarrow> (Inl e, w1)
      | (Inr resp, w1) \<Rightarrow>
          (case unmarshal_response resp of
             None \<Rightarrow> (Inl ''fail to unmarshal upstream response'', w1)
           | Some ur \<Rightarrow> (Inr resp, store_result E cfg key (ur_result ur) w1)))"

text \<open>A single call through the proxy, without the id counter it also moves.\<close>

definition single_proxy ::
  "('w, 'x) gateway_env_scheme \<Rightarrow> proxy_config \<Rightarrow> rpc_request \<Rightarrow> single_request \<Rightarrow> 'w \<Rightarrow> (gerr + bytes) \<times> 'w" where
  "single_proxy E cfg raw r w =
     (case find_rpc E cfg r w of
        (Inl e, w1) \<Rightarrow> (Inl e, w1)
      | (Inr (Some data), w1) \<Rightarrow> (Inr data, w1)
      | (Inr None, w1) \<Rightarrow> fetch_rpc E cfg (rpc_key_of cfg r) raw w1)"

lemma http_proxy_single:
  assumes "batch_call raw = None" "single_call raw = Some r"
  shows "http_proxy E cfg raw (rid, w) =
    (case single_proxy E cfg raw r w of (x, w1) \<Rightarrow> (Ret x, (i64 (rid + 1), w1)))"
  using assms
  by (auto simp: http_proxy_def is_batch_call_def from_request_def Let_def single_proxy_def
      from_cache_find [of _ raw r] http_upstream_call_def fetch_rpc_def
      split: prod.splits sum.splits option.splits)

lemma http_proxy_batch:
  assumes "batch_call raw \<noteq> None"
  shows "http_proxy E cfg raw (rid, w) =
    (case do_http_upstream_call E cfg raw w of (x, w1) \<Rightarrow> (Ret x, (rid, w1)))"
  using assms by (auto simp: http_proxy_def is_batch_call_def split: prod.splits)

definition find_tendermint ::
  "('w, 'x) gateway_env_scheme \<Rightarrow> proxy_config \<Rightarrow> tendermint_request \<Rightarrow> 'w pstate \<Rightarrow>
   (gerr + bytes option) \<times> 'w pstate" where
  "find_tendermint E cfg tm s =
     (let (req, rid1) = from_request_path tm (fst s)
      in case from_tendermint_cache E cfg tm req (snd s) of ((_, r), w1) \<Rightarrow> (r, (rid1, w1)))"

definition tendermint_key_of :: "proxy_config \<Rightarrow> tendermint_request \<Rightarrow> string option" where
  "tendermint_key_of cfg tm =
     (if In (tm_path tm) (cacheable_methods cfg)
      then Some (tendermint_cache_key (chain_id cfg) (tm_path tm) (tm_query tm)) else None)"

definition fetch_tendermint ::
  "('w, 'x) gateway_env_scheme \<Rightarrow> proxy_config \<Rightarrow> tendermint_request \<Rightarrow> 'w pstate \<Rightarrow> (gerr + bytes) \<times> 'w pstate" where
  "fetch_tendermint E cfg tm s =
     (let (r, w1) = tendermint_upstream E cfg tm
        \<lparr>up_rpc = None, up_tendermint = Some tm, up_id = fst s, up_cache_key = tendermint_key_of cfg tm\<rparr> (snd s)
      in (r, (fst s, w1)))"

interpretation rpc: cached_call "single_proxy E cfg raw r" "find_rpc E cfg r"
    "fetch_rpc E cfg (rpc_key_of cfg r) raw" for E cfg raw r
  by unfold_locales (simp_all add: single_proxy_def)

interpretation tendermint: cached_call "tendermint_proxy E cfg tm" "find_tendermint E cfg tm"
    "fetch_tendermint E cfg tm" for E cfg tm
  by unfold_locales
     (auto simp: tendermint_proxy_def find_tendermint_def fetch_tendermint_def tendermint_key_of_def
        from_request_path_def from_tendermint_cache_def Let_def
        split: prod.splits sum.splits option.splits if_splits)

section \<open>The cache\<close>

locale cache_contract =
  redis_contract E cval ctext cttl
  for E :: "('w, 'x) gateway_env_scheme"
    and cval :: "'w \<Rightarrow> string \<Rightarrow> int option"
    and ctext :: "'w \<Rightarrow> string \<Rightarrow> string option"
    and cttl :: "'w \<Rightarrow> string \<Rightarrow> int option" +
  assumes set_ok: "rd_set E k v t w = (None, w') \<Longrightarrow> 0 < t \<Longrightarrow>
      ctext w' k = Some v \<and> (\<forall>j. j \<noteq> k \<longrightarrow> ctext w' j = ctext w j \<and> cval w' j = cval w j)"
begin

lemma store_result_ok:
  assumes "\<And>v w. fst (rd_set E k v (cache_time cfg) w) = None" "0 < cache_time cfg"
  shows "ctext (store_result E cfg (Some k) (Some r) w) k = Some r"
proof -
  obtain w' where "rd_set E k r (cache_time cfg) w = (None, w')"
    using assms(1) [of r w] by (metis prod.collapse)
  then show ?thesis using set_ok assms(2) by (simp add: store_result_def cache_fn_def)
qed

end

lemma decode_response_members_raw:
  assumes "decode_response_members ms r0 = Some ur" "ur_result r0 \<noteq> Some []"
    and "\<And>k raw v. (k, raw, v) \<in> set ms \<Longrightarrow> raw \<noteq> []"
  shows "ur_result ur \<noteq> Some []"
  using assms
proof (induction ms arbitrary: r0)
  case Nil
  then show ?case by simp
next
  case (Cons m ms)
  obtain k raw v where m: "m = (k, raw, v)" by (cases m) auto
  obtain r1 where r1: "decode_response_member m r0 = Some r1" "decode_response_members ms r1 = Some ur"
    using Cons.prems(1) by (auto simp: bind_eq_Some_conv)
  have "raw \<noteq> []" using Cons.prems(3) [of k raw v] m by simp
  then have "ur_result r1 \<noteq> Some []"
    using r1(1) Cons.prems(2) m by (auto simp: decode_response_member_def split: if_splits)
  then show ?case using Cons.IH [OF r1(2)] Cons.prems(3) by auto
qed

lemma unmarshal_response_raw: "unmarshal_response s = Some ur \<Longrightarrow> ur_result ur \<noteq> Some []"
  by (auto simp: unmarshal_response_def zero_response_def split: option.splits json.splits
      dest: decode_response_members_raw json_parse_raw)

text \<open>An instance: the key-value store, a record of the calls made upstream, and a fixed reply.\<close>

record demo_world =
  store :: kv
  sent :: "(string \<times> bytes) list"

definition on_store :: "(kv \<Rightarrow> 'a \<times> kv) \<Rightarrow> demo_world \<Rightarrow> 'a \<times> demo_world" where
  "on_store f w = (case f (store w) of (r, s) \<Rightarrow> (r, w\<lparr>store := s\<rparr>))"

definition demo_env :: "bytes \<Rightarrow> demo_world gateway_env" where
  "demo_env reply =
     \<lparr>rd_get = (\<lambda>k. on_store (rd_get mem_redis k)),
      rd_set = (\<lambda>k v t. on_store (rd_set mem_redis k v t)),
      rd_incrby = (\<lambda>k n. on_store (rd_incrby mem_redis k n)),
      rd_decrby = (\<lambda>k n. on_store (rd_decrby mem_redis k n)),
      rd_expire = (\<lambda>k n. on_store (rd_expire mem_redis k n)),
      rd_eval = (\<lambda>f. f),
      now = (\<lambda>w. (demo_time, w)),
      tonum = read_int,
      key_erigon_total = ''erigon'',
      key_chain_hour = (\<lambda>c t. ''ch:'' @ show_nat c),
      key_chain_day = (\<lambda>c t. ''cd:'' @ show_nat c),
      key_total_hour = (\<lambda>t. ''th''),
      key_total_day = (\<lambda>t. ''td''),
      http_post = (\<lambda>url body w. (Inr (Inr reply), w\<lparr>sent := (url, body) # sent w\<rparr>)),
      http_get = (\<lambda>url w. (Inr (200, ''200 OK'', Inr reply), w\<lparr>sent := (url, []) # sent w\<rparr>))\<rparr>"

lemma on_store_iff: "on_store f w = (r, w') \<longleftrightarrow> f (store w) = (r, store w') \<and> sent w' = sent w"
  by (cases "f (store w)"; cases w; cases w') (auto simp: on_store_def)

interpretation demo_cache: cache_contract "demo_env reply" "\<lambda>w. kv_num (store w)" "\<lambda>w. kv_txt (store w)"
    "\<lambda>w. kv_ttl (store w)" for reply
proof (unfold_locales, goal_cases)
  case (1 k w t w')
  then show ?case using mem.get_ok [of k "store w" t "store w'"] by (simp add: demo_env_def on_store_iff)
next
  case (2 k n w v w')
  then show ?case using mem.incrby_ok [of k n "store w" v "store w'"]
    by (simp add: demo_env_def on_store_iff counter_of_def)
next
  case (3 k n w v w')
  then show ?case using mem.decrby_ok [of k n "store w" v "store w'"]
    by (simp add: demo_env_def on_store_iff counter_of_def)
next
  case (4 k s w b w')
  then show ?case using mem.expire_ok [of k s "store w" b "store w'"] by (simp add: demo_env_def on_store_iff)
next
  case (5 f w v w')
  then show ?case by (simp add: demo_env_def)
next
  case (6 k v t w w')
  then have "store w' = (store w)(k \<mapsto> (v, Some t))"
    by (simp add: demo_env_def on_store_iff mem_redis_def)
  then show ?case by (simp add: kv_txt_def kv_num_def)
qed

definition demo_cfg :: proxy_config where
  "demo_cfg = \<lparr>http_upstream = ''http://geth'', ws_upstream = ''ws://geth'',
     http_erigon_stream = ''http://erigon'', ws_erigon_upstream = ''ws://erigon'',
     cache_time = 12, chain_id = 1, cacheable_methods = [''eth_chainId'']\<rparr>"

definition demo_start :: demo_world where
  "demo_start = \<lparr>store = Map.empty, sent = []\<rparr>"

definition demo_single :: "nat \<Rightarrow> string \<Rightarrow> single_request" where
  "demo_single n m = \<lparr>rq_id = Some (AStr (show_nat n)), rq_version = ''2.0'', rq_method = m, rq_params = ''[]''\<rparr>"

definition demo_call :: "nat \<Rightarrow> string \<Rightarrow> rpc_request" where
  "demo_call n m = zero_rpc_request\<lparr>single_call := Some (demo_single n m)\<rparr>"

lemma demo_call_parts:
  "batch_call (demo_call n m) = None" "single_call (demo_call n m) = Some (demo_single n m)"
  "request_type (demo_call n m) = 0" "rq_method (demo_single n m) = m" "rq_params (demo_single n m) = ''[]''"
  by (simp_all add: demo_call_def demo_single_def zero_rpc_request_def)

lemma demo_call_marshalled: "\<exists>b. marshal_request (demo_call n m) = Some b"
proof -
  have "compact ''[]'' \<noteq> None" by code_simp
  then have "marshal_single (demo_single n m) \<noteq> None"
    by (intro marshal_single_defined) (simp add: demo_call_parts)
  then show ?thesis using marshal_request_single [OF demo_call_parts(1,2), of n m] by auto
qed

section \<open>Properties\<close>

text \<open>
  C11. A cached result is served under the caller's own id.  When a call of a cacheable method
  was fetched upstream and its reply has a result, the next call of the same method and
  parameters on the chain is answered from the cache: with the second caller's id and version and
  that result, and with nothing sent upstream, whatever upstream would do now.
\<close>

theorem cached_result_is_reused:
  assumes "cache_contract E cval ctext cttl" "0 < cache_time cfg"
    and "\<And>k v w. fst (rd_set E k v (cache_time cfg) w) = None"
    and "batch_call raw = None" "single_call raw = Some r" "In (rq_method r) (cacheable_methods cfg)"
    and "find_rpc E cfg r w = (Inr None, w0)"
    and "http_proxy E cfg raw (rid, w) = (Ret (Inr resp), (rid1, w1))"
    and "unmarshal_response resp = Some ur" "ur_result ur = Some res"
    and "batch_call raw' = None" "single_call raw' = Some r'"
    and "rq_method r' = rq_method r" "rq_params r' = rq_params r"
    and "rd_get E (rpc_cache_key (chain_id cfg) (rq_method r) (rq_params r)) w1 = (Inr t, w2)"
  shows "http_proxy (E\<lparr>http_post := anything\<rparr>) cfg raw' (rid', w1) =
    (Ret (case marshal_response
            \<lparr>rs_id = rq_id r', rs_version = rq_version r', rs_error = [], rs_result = res\<rparr> of
            None \<Rightarrow> Inl ''json: error calling MarshalJSON'' | Some d \<Rightarrow> Inr d),
     (i64 (rid' + 1), w2))"
proof -
  let ?key = "rpc_cache_key (chain_id cfg) (rq_method r) (rq_params r)"
  have one: "single_proxy E cfg raw r w = (Inr resp, w1)"
    using assms(8) http_proxy_single [OF assms(4,5), of E cfg rid w]
    by (auto split: prod.splits)
  have key: "rpc_key_of cfg r = Some ?key" using assms(6) by (simp add: rpc_key_of_def)
  obtain wu where "w1 = store_result E cfg (Some ?key) (Some res) wu"
    using one
  proof (cases rule: rpc.reply_cases)
    case found
    then show thesis using assms(7) by simp
  next
    case (fetched s1)
    then show thesis
      using that assms(9,10) key by (auto simp: fetch_rpc_def split: prod.splits sum.splits option.splits)
  qed
  then have held: "ctext w1 ?key = Some res"
    using cache_contract.store_result_ok [OF assms(1) assms(3,2)] by metis
  have t: "t = Some res"
    using redis_contract.get_ok [OF cache_contract.axioms(1) [OF assms(1)] assms(15)] held by simp
  have "res \<noteq> []" using unmarshal_response_raw [OF assms(9)] assms(10) by simp
  then have "single_proxy (E\<lparr>http_post := anything\<rparr>) cfg raw' r' w1 =
      (case marshal_response
          \<lparr>rs_id = rq_id r', rs_version = rq_version r', rs_error = [], rs_result = res\<rparr> of
          None \<Rightarrow> Inl ''json: error calling MarshalJSON'' | Some d \<Rightarrow> Inr d, w2)"
    using assms(6,13-15) t by (simp add: single_proxy_def find_rpc_def split: option.split)
  then show ?thesis
    using http_proxy_single [OF assms(11,12), of "E\<lparr>http_post := anything\<rparr>" cfg rid' w1] by simp
qed

definition demo_reply :: bytes where
  "demo_reply = enc_object
     [enc_member ''id'' (enc_string ''1''), enc_member ''jsonrpc'' (enc_string ''2.0''), enc_member ''result'' (enc_string ''0x1'')]"

lemma demo_reply_decoded:
  "unmarshal_response demo_reply =
   Some \<lparr>ur_id = AStr ''1'', ur_version = ''2.0'', ur_error = None, ur_result = Some (enc_string ''0x1'')\<rparr>"
  by code_simp

text \<open>The first and the second call of \<^verbatim>\<open>eth_chainId\<close> in the example.\<close>

lemma demo_first_call:
  "find_rpc (demo_env demo_reply) demo_cfg (demo_single n ''eth_chainId'') demo_start =
     (Inr None, demo_start)"
  "http_proxy (demo_env demo_reply) demo_cfg (demo_call n ''eth_chainId'') (0, demo_start) =
     (Ret (Inr demo_reply), (1,
        \<lparr>store = [rpc_cache_key 1 ''eth_chainId'' ''[]'' \<mapsto> (enc_string ''0x1'', Some 12)],
         sent = [(''http://geth'', the (marshal_request (demo_call n ''eth_chainId'')))]\<rparr>))"
proof -
  note r = demo_call_parts [of n "''eth_chainId''"]
  obtain b where m: "marshal_request (demo_call n ''eth_chainId'') = Some b"
    using demo_call_marshalled by blast
  show f: "find_rpc (demo_env demo_reply) demo_cfg (demo_single n ''eth_chainId'') demo_start = (Inr None, demo_start)"
    by (simp add: find_rpc_def r demo_cfg_def demo_env_def on_store_def demo_start_def mem_redis_def kv_txt_def)
  show "http_proxy (demo_env demo_reply) demo_cfg (demo_call n ''eth_chainId'') (0, demo_start) =
     (Ret (Inr demo_reply), (1,
        \<lparr>store = [rpc_cache_key 1 ''eth_chainId'' ''[]'' \<mapsto> (enc_string ''0x1'', Some 12)],
         sent = [(''http://geth'', the (marshal_request (demo_call n ''eth_chainId'')))]\<rparr>))"
    unfolding http_proxy_single [OF r(1,2)] single_proxy_def f
    by (simp add: fetch_rpc_def do_http_upstream_call_def m r rpc_key_of_def upstream_url_def RequestTypeErigon_def
        demo_reply_decoded store_result_def cache_fn_def)
       (simp add: demo_reply_decoded store_result_def cache_fn_def r
        demo_env_def demo_cfg_def demo_start_def on_store_def mem_redis_def In_iff i64_def)
qed

theorem cached_result_is_reused_witness:
  "\<exists>w1 w2 d. http_proxy (demo_env demo_reply) demo_cfg (demo_call 1 ''eth_chainId'') (0, demo_start) =
       (Ret (Inr demo_reply), (1, w1)) \<and> length (sent w1) = 1 \<and>
     http_proxy (demo_env demo_reply) demo_cfg (demo_call 2 ''eth_chainId'') (1, w1) = (Ret (Inr d), (2, w2)) \<and>
     length (sent w2) = 1"
proof -
  let ?E = "demo_env demo_reply" and ?raw = "demo_call 1 ''eth_chainId''" and ?raw' = "demo_call 2 ''eth_chainId''"
  let ?r = "demo_single 1 ''eth_chainId''" and ?r' = "demo_single 2 ''eth_chainId''"
  let ?key = "rpc_cache_key 1 ''eth_chainId'' ''[]''"
  let ?w1 = "\<lparr>store = [?key \<mapsto> (enc_string ''0x1'', Some 12)],
    sent = [(''http://geth'', the (marshal_request ?raw))]\<rparr>"
  note r = demo_call_parts
  have g: "rd_get ?E (rpc_cache_key (chain_id demo_cfg) (rq_method ?r) (rq_params ?r)) ?w1 =
      (Inr (Some (enc_string ''0x1'')), ?w1)"
    by (simp add: r demo_env_def on_store_def mem_redis_def kv_txt_def demo_cfg_def)
  have "http_proxy (?E\<lparr>http_post := http_post ?E\<rparr>) demo_cfg ?raw' (1, ?w1) =
    (Ret (case marshal_response
            \<lparr>rs_id = rq_id ?r', rs_version = rq_version ?r', rs_error = [], rs_result = enc_string ''0x1''\<rparr> of
            None \<Rightarrow> Inl ''json: error calling MarshalJSON'' | Some d \<Rightarrow> Inr d),
     (i64 (1 + 1), ?w1))"
    by (rule cached_result_is_reused [OF demo_cache.cache_contract_axioms _ _ r(1,2) _ demo_first_call
          demo_reply_decoded _ r(1,2) _ _ g])
       (simp_all add: r demo_cfg_def demo_env_def on_store_def mem_redis_def In_iff)
  moreover have "marshal_response
      \<lparr>rs_id = rq_id ?r', rs_version = rq_version ?r', rs_error = [], rs_result = enc_string ''0x1''\<rparr> \<noteq> None"
    by code_simp
  ultimately show ?thesis using demo_first_call(2) [of 1] by (auto simp: i64_def)
qed

lemma cache_key_eqs:
  "rpc_cache_key c m p = rpc_cache_key c' m' p' \<longleftrightarrow> c = c' \<and> m = m' \<and> md5_hex p = md5_hex p'"
  "tendermint_cache_key c m q = tendermint_cache_key c' m' q' \<longleftrightarrow>
     c = c' \<and> m = m' \<and> md5_hex (m @ q) = md5_hex (m' @ q')"
  "rpc_cache_key c m p \<noteq> tendermint_cache_key c' m' q'"
proof -
  have split: "pre @ show_nat c @ CHR '':'' # m @ CHR '':'' # md5_hex p =
      pre @ show_nat c' @ CHR '':'' # m' @ CHR '':'' # md5_hex p' \<longleftrightarrow>
      c = c' \<and> m = m' \<and> md5_hex p = md5_hex p'" for pre c m p c' m' p'
    by (simp only: same_append_eq append_sep_eq [OF show_nat_no_colon show_nat_no_colon]
        append_last_sep_eq [OF md5_hex_no_colon md5_hex_no_colon] show_nat_inj)
  show "rpc_cache_key c m p = rpc_cache_key c' m' p' \<longleftrightarrow> c = c' \<and> m = m' \<and> md5_hex p = md5_hex p'"
    using split [of "''rpc:''" c m p c' m' p'] by (simp add: rpc_cache_key_def)
  show "tendermint_cache_key c m q = tendermint_cache_key c' m' q' \<longleftrightarrow>
     c = c' \<and> m = m' \<and> md5_hex (m @ q) = md5_hex (m' @ q')"
    using split [of "''tendermint:''" c m "m @ q" c' m' "m' @ q'"] by (simp add: tendermint_cache_key_def)
qed (simp add: rpc_cache_key_def tendermint_cache_key_def)

text \<open>
  Cache keys.  Two cached calls share a key only for the same chain, the same method and
  parameters with the same MD5 sum, whatever the method's name contains; and no JSON-RPC
  entry is a Tendermint entry.
\<close>

theorem cache_keys_not_shared:
  "(rpc_cache_key c m p = rpc_cache_key c' m' p' \<longleftrightarrow> c = c' \<and> m = m' \<and> md5_hex p = md5_hex p') \<and>
   (tendermint_cache_key c m q = tendermint_cache_key c' m' q' \<longleftrightarrow>
      c = c' \<and> m = m' \<and> md5_hex (m @ q) = md5_hex (m' @ q')) \<and>
   rpc_cache_key c m p \<noteq> tendermint_cache_key c' m' q'"
  by (simp add: cache_key_eqs)

text \<open>
  Calls that are not cacheable, and batches, pass through.  The reply is upstream's, byte
  for byte (of a single call only if it decodes), and Redis is neither read nor written.
\<close>

theorem uncached_calls_pass_through:
  assumes "\<And>r. batch_call raw = None \<Longrightarrow> single_call raw = Some r \<Longrightarrow>
    \<not> In (rq_method r) (cacheable_methods cfg)"
  shows "http_proxy E cfg raw (rid, w) =
     (case (batch_call raw, single_call raw) of
        (None, Some r) \<Rightarrow>
          (case do_http_upstream_call E cfg raw w of
             (Inl e, w1) \<Rightarrow> (Ret (Inl e), (i64 (rid + 1), w1))
           | (Inr resp, w1) \<Rightarrow>
               (Ret (if unmarshal_response resp = None then Inl ''fail to unmarshal upstream response''
                     else Inr resp), (i64 (rid + 1), w1)))
      | (Some rs, _) \<Rightarrow>
          (case do_http_upstream_call E cfg raw w of (x, w1) \<Rightarrow> (Ret x, (rid, w1)))
      | (None, None) \<Rightarrow> (Panic ''nil pointer dereference'', (i64 (rid + 1), w)))"
proof (cases "batch_call raw")
  case (Some rs)
  then show ?thesis by (simp add: http_proxy_batch)
next
  case None
  note batch = this
  show ?thesis
  proof (cases "single_call raw")
    case None
    then show ?thesis
      using batch by (simp add: http_proxy_def is_batch_call_def from_request_def from_cache_def Let_def)
  next
    case (Some r)
    show ?thesis
      using batch Some assms [OF batch Some]
      by (auto simp: http_proxy_single [OF batch Some] single_proxy_def find_rpc_def fetch_rpc_def
          rpc_key_of_def store_result_def split: prod.splits sum.splits option.splits)
  qed
qed

theorem uncached_calls_pass_through_witness:
  "\<exists>w1. http_proxy (demo_env demo_reply) demo_cfg (demo_call 1 ''eth_call'') (0, demo_start) =
     (Ret (Inr demo_reply), (1, w1)) \<and> store w1 = Map.empty"
proof -
  note r = demo_call_parts [of 1 "''eth_call''"]
  obtain b where "marshal_request (demo_call 1 ''eth_call'') = Some b"
    using demo_call_marshalled by blast
  then have up: "do_http_upstream_call (demo_env demo_reply) demo_cfg (demo_call 1 ''eth_call'') demo_start =
      (Inr demo_reply, demo_start\<lparr>sent := [(''http://geth'', b)]\<rparr>)"
    unfolding do_http_upstream_call_def upstream_url_def RequestTypeErigon_def r
    by (simp add: demo_env_def demo_cfg_def demo_start_def)
  have "http_proxy (demo_env demo_reply) demo_cfg (demo_call 1 ''eth_call'') (0, demo_start) =
      (Ret (Inr demo_reply), (1, demo_start\<lparr>sent := [(''http://geth'', b)]\<rparr>))"
  proof (subst uncached_calls_pass_through)
    show "\<not> In (rq_method x) (cacheable_methods demo_cfg)"
      if "single_call (demo_call 1 ''eth_call'') = Some x" for x
      using that unfolding r by (auto simp: demo_cfg_def In_iff demo_call_parts)
  qed (unfold r up, simp add: demo_reply_decoded i64_def)
  then show ?thesis by (simp add: demo_start_def)
qed

text \<open>
  A Tendermint node's error is not a result.  When nothing is cached and the node answers
  with a status other than 200, the call fails with the status line and nothing is stored.
\<close>

theorem tendermint_status_is_an_error:
  assumes "find_tendermint E cfg tm (rid, w) = (Inr None, (rid1, w1))"
    and "http_get E (http_upstream cfg @ ''/'' @ tm_path tm @ tm_query tm) w1 = (Inr (code, status, body), w2)"
    and "code \<noteq> 200"
  shows "tendermint_proxy E cfg tm (rid, w) = (Inl status, (rid1, w2))"
  using tendermint.call_miss [OF assms(1)] assms(2,3)
  by (simp add: fetch_tendermint_def tendermint_upstream_def do_tendermint_upstream_call_def)

theorem tendermint_status_is_an_error_witness:
  "tendermint_proxy ((demo_env [])\<lparr>http_get := (\<lambda>url w. (Inr (500, ''500 oops'', Inr ''x''), w))\<rparr>) demo_cfg
     \<lparr>tm_path = ''block'', tm_query = ''?''\<rparr> (0, demo_start) = (Inl ''500 oops'', (1, demo_start))"
  by (rule tendermint_status_is_an_error [where code = 500 and body = "Inr ''x''" and ?w1.0 = demo_start])
     (simp_all add: find_tendermint_def from_request_path_def from_tendermint_cache_def demo_cfg_def In_iff i64_def)

end
