(* ===== verification/PlainJson.thy ===== *)
theory PlainJson
  imports JsonRpc
begin

text \<open>
  JSON objects of plain texts, read back: the objects the library writes for names and texts that
  need no escape are scanned to these names and texts, alone, in an array, and in front of other
  text.
\<close>

section \<open>Texts\<close>

text \<open>Texts that JSON writes as they are, and that have no brace.\<close>

definition plain_text :: "string \<Rightarrow> bool" where
  "plain_text s \<longleftrightarrow>
     list_all (\<lambda>c. 32 \<le> byte c \<and> byte c < 127 \<and> byte c \<notin> {34, 92, 60, 62, 38, 125}) s"

lemma plain_Cons:
  "plain_text (c # s) \<Longrightarrow> plain_text s \<and> 32 \<le> byte c \<and> byte c < 127 \<and> byte c \<notin> {60, 62, 38} \<and>
     c \<noteq> CHR 0x22 \<and> c \<noteq> CHR 0x5C \<and> c \<noteq> CHR ''}''"
  by (auto simp: plain_text_def byte_def)

lemma scan_plain: "plain_text s \<Longrightarrow> scan_string (s @ CHR 0x22 # r) = Some (s, r)"
proof (induction s)
  case (Cons c s)
  then show ?case using plain_Cons [of c s] by simp
qed simp

lemma unquote_plain: "plain_text s \<Longrightarrow> unquote s = s"
proof (induction s)
  case (Cons c s)
  then show ?case using plain_Cons [of c s] by (simp add: utf8_size_def)
qed simp

lemma enc_plain: "plain_text s \<Longrightarrow> enc_string s = CHR 0x22 # s @ [CHR 0x22]"
proof -
  have "plain_text s \<Longrightarrow> enc_body s = s"
  proof (induction s)
    case (Cons c s)
    then have "byte c < 128" "enc_ascii c = [c]" "enc_body s = s"
      by (auto simp: plain_text_def enc_ascii_def Let_def)
    then show ?case by (subst enc_body.simps) simp
  qed simp
  then show "plain_text s \<Longrightarrow> ?thesis" by (simp add: enc_string_def)
qed

lemma skip_ws_Cons: "skip_ws (c # s) = (if is_ws c then skip_ws s else c # s)"
  by (simp add: skip_ws_def)

lemma not_ws [simp]:
  "\<not> is_ws (CHR 0x22)" "\<not> is_ws (CHR '':'')" "\<not> is_ws (CHR '','')" "\<not> is_ws (CHR ''{'')" "\<not> is_ws (CHR ''}'')"
  "\<not> is_ws (CHR ''['')" "\<not> is_ws (CHR '']'')"
  by code_simp+

lemma scan_plain_value:
  "plain_text s \<Longrightarrow> scan_value (Suc f) d (CHR 0x22 # s @ CHR 0x22 # r) = Some (JStr s, r)"
  by (simp add: skip_ws_Cons scan_plain unquote_plain)

definition plain_member :: "string \<Rightarrow> string \<Rightarrow> string" where
  "plain_member k v = CHR 0x22 # k @ CHR 0x22 # CHR '':'' # CHR 0x22 # v @ [CHR 0x22]"

lemma enc_plain_member: "plain_text k \<Longrightarrow> plain_text v \<Longrightarrow> enc_member k (enc_string v) = plain_member k v"
  by (simp add: enc_member_def enc_plain plain_member_def)

lemma scan_plain_member:
  assumes "plain_text k" "plain_text v" "c \<in> {CHR '','', CHR ''}''}"
  shows "scan_members (Suc (Suc f)) d (plain_member k v @ c # r) =
    (let m = (k, CHR 0x22 # v @ [CHR 0x22], JStr v) in
     if c = CHR '','' then map_option (\<lambda>(ms, z). (m # ms, z)) (scan_members (Suc f) d r) else Some ([m], r))"
proof -
  have "scan_value (Suc f) d (CHR 0x22 # v @ CHR 0x22 # c # r) = Some (JStr v, c # r)"
    by (rule scan_plain_value [OF assms(2)])
  moreover have "\<not> is_ws c" using assms(3) by auto
  ultimately show ?thesis
    using assms
    by (subst scan_members.simps(2))
       (auto simp add: plain_member_def skip_ws_Cons scan_plain unquote_plain Let_def simp del: scan_value.simps scan_members.simps)
qed


section \<open>Objects and arrays\<close>

type_synonym texts = "(string \<times> string) list"

definition plain_texts :: "texts \<Rightarrow> bool" where
  "plain_texts kvs \<longleftrightarrow> kvs \<noteq> [] \<and> (\<forall>(k, v) \<in> set kvs. plain_text k \<and> plain_text v)"

definition object_text :: "texts \<Rightarrow> bytes" where
  "object_text kvs = enc_object (map (\<lambda>(k, v). plain_member k v) kvs)"

definition json_members :: "texts \<Rightarrow> (string \<times> string \<times> json) list" where
  "json_members kvs = map (\<lambda>(k, v). (k, CHR 0x22 # v @ [CHR 0x22], JStr v)) kvs"

lemma scan_plain_members:
  "plain_texts kvs \<Longrightarrow>
   scan_members (f + length kvs + 1) d (str_join '','' (map (\<lambda>(k, v). plain_member k v) kvs) @ CHR ''}'' # r) =
     Some (json_members kvs, r)"
proof (induction kvs)
  case Nil
  then show ?case by (simp add: plain_texts_def)
next
  case (Cons kv kvs)
  obtain k v where kv: "kv = (k, v)" by (cases kv)
  have p: "plain_text k" "plain_text v" using Cons.prems kv by (auto simp: plain_texts_def)
  show ?case
  proof (cases kvs)
    case Nil
    then show ?thesis
      using scan_plain_member [OF p, of "CHR ''}''" f d r] kv by (simp add: json_members_def Let_def del: scan_members.simps)
  next
    case (Cons kv' kvs')
    then have "plain_texts kvs" using Cons.prems by (auto simp: plain_texts_def)
    with Cons.IH have "scan_members (Suc (f + length kvs)) d
        (str_join '','' (map (\<lambda>(k, v). plain_member k v) kvs) @ CHR ''}'' # r) = Some (json_members kvs, r)" by simp
    then show ?thesis
      using scan_plain_member [OF p, of "CHR '',''" "f + length kvs" d] kv \<open>kvs = kv' # kvs'\<close>
      by (simp add: str_join_Cons json_members_def Let_def del: scan_members.simps)
  qed
qed

lemma scan_plain_object:
  assumes "plain_texts kvs" "0 < d"
  shows "scan_value (f + length kvs + 2) d (object_text kvs @ r) = Some (JObj (json_members kvs), r)"
proof -
  let ?t = "str_join '','' (map (\<lambda>(k, v). plain_member k v) kvs) @ CHR ''}'' # r"
  obtain k v kvs' where kvs: "kvs = (k, v) # kvs'" using assms(1) by (cases kvs) (auto simp: plain_texts_def)
  have "take 1 (skip_ws ?t) = [CHR 0x22]"
    using kvs by (cases kvs') (auto simp: plain_member_def skip_ws_Cons)
  moreover have "object_text kvs @ r = CHR ''{'' # ?t" by (simp add: object_text_def enc_object_def)
  moreover have "f + length kvs + 2 = Suc (f + length kvs + 1)" by simp
  ultimately show ?thesis
    using scan_plain_members [OF assms(1), of f "d - 1" r] assms(2)
    by (simp only: scan_value.simps) (simp add: skip_ws_Cons del: scan_members.simps)
qed

lemma scan_plain_elems:
  assumes "\<forall>kvs \<in> set oss. plain_texts kvs \<and> length kvs + 2 \<le> B" "oss \<noteq> []" "0 < d"
  shows "scan_elems (B + length oss) d (str_join '','' (map object_text oss) @ CHR '']'' # r) =
    Some (map (\<lambda>kvs. JObj (json_members kvs)) oss, r)"
  using assms
proof (induction oss)
  case (Cons kvs oss)
  have "scan_value (B + length oss) d (object_text kvs @ t) = Some (JObj (json_members kvs), t)" for t
  proof -
    obtain f where f: "B + length oss = f + length kvs + 2"
      using Cons.prems le_Suc_ex [of "length kvs + 2" "B + length oss"] by (auto simp: add_ac)
    show ?thesis unfolding f by (rule scan_plain_object) (use Cons.prems in auto)
  qed
  then show ?case
    using Cons by (cases oss) (simp_all add: skip_ws_Cons str_join_Cons)
qed simp

lemma json_parse_fuel:
  "json_parse s = (case scan_value (2 * length s + 2 + K) max_nesting s of
     None \<Rightarrow> None | Some (v, r) \<Rightarrow> if skip_ws r = [] then Some v else None)"
  using scan_value_enough_fuel [of s "2 * length s + 2" K max_nesting] by (simp add: json_parse_def)

lemma json_parse_object:
  assumes "plain_texts kvs" "skip_ws ws = []"
  shows "json_parse (ws @ object_text kvs @ r) = (if skip_ws r = [] then Some (JObj (json_members kvs)) else None)"
proof -
  let ?s = "ws @ object_text kvs @ r"
  have "skip_ws ?s = skip_ws (object_text kvs @ r)"
    using assms(2) by (induction ws) (auto simp: skip_ws_Cons split: if_splits)
  then have "scan_value n max_nesting ?s = scan_value n max_nesting (object_text kvs @ r)" for n
    by (metis scan_value_skip_ws)
  then have "scan_value (2 * length ?s + 2 + (length kvs + 2)) max_nesting ?s = Some (JObj (json_members kvs), r)"
    using scan_plain_object [OF assms(1), of max_nesting "2 * length ?s + 2" r] by (simp add: max_nesting_def add.assoc)
  then show ?thesis by (subst json_parse_fuel [of _ "length kvs + 2"]) simp
qed

lemma json_parse_array:
  assumes "\<forall>kvs \<in> set oss. plain_texts kvs" "oss \<noteq> []"
  shows "json_parse (''['' @ str_join '','' (map object_text oss) @ '']'') = Some (JArr (map (\<lambda>kvs. JObj (json_members kvs)) oss))"
proof -
  let ?t = "str_join '','' (map object_text oss) @ CHR '']'' # []" and ?B = "Max (length ` set oss) + 2"
  have B: "length kvs + 2 \<le> 2 * length (CHR ''['' # ?t) + 1 + ?B" if "kvs \<in> set oss" for kvs
  proof -
    have "length kvs \<le> Max (length ` set oss)" using that by simp
    then show ?thesis by linarith
  qed
  obtain kvs oss' where oss: "oss = kvs # oss'" using assms(2) by (cases oss) auto
  have "take 1 (skip_ws ?t) = [CHR ''{'']"
    using oss by (cases oss') (auto simp: object_text_def enc_object_def skip_ws_Cons)
  moreover have "scan_elems (2 * length (CHR ''['' # ?t) + 1 + ?B + length oss) (max_nesting - 1) ?t =
      Some (map (\<lambda>kvs. JObj (json_members kvs)) oss, [])"
    by (rule scan_plain_elems) (use assms B in \<open>auto simp: max_nesting_def\<close>)
  moreover have "2 * length (CHR ''['' # ?t) + 2 + (?B + length oss) = Suc (2 * length (CHR ''['' # ?t) + 1 + ?B + length oss)"
    by simp
  moreover have "0 < max_nesting" by (simp add: max_nesting_def)
  ultimately have "scan_value (2 * length (CHR ''['' # ?t) + 2 + (?B + length oss)) max_nesting (CHR ''['' # ?t) =
      Some (JArr (map (\<lambda>kvs. JObj (json_members kvs)) oss), [])"
    by (simp only: scan_value.simps) (simp add: skip_ws_Cons del: scan_elems.simps)
  moreover have "skip_ws [] = []" by (simp add: skip_ws_def)
  ultimately have "json_parse (CHR ''['' # ?t) = Some (JArr (map (\<lambda>kvs. JObj (json_members kvs)) oss))"
    by (subst json_parse_fuel [of _ "?B + length oss"]) simp
  then show ?thesis by simp
qed

section \<open>Requests\<close>

text \<open>A text without white space at its ends.\<close>

lemma no_space_head:
  "c \<in> {CHR ''{'', CHR ''}'', CHR ''['', CHR '']''} \<Longrightarrow> trim_heads space_texts (c # s) = c # s \<and>
     trim_heads (map rev space_texts) (c # s) = c # s"
proof -
  assume c: "c \<in> {CHR ''{'', CHR ''}'', CHR ''['', CHR '']''}"
  have "\<forall>h \<in> set (space_texts @ map rev space_texts). take 1 h \<notin> {''{'', ''}'', ''['', '']''}"
    by code_simp
  moreover have "take 1 h = [c]" if "h \<noteq> []" "has_prefix h (c # s)" for h
    using that by (auto simp: has_prefix_iff Cons_eq_append_conv)
  ultimately have "\<forall>h \<in> set (space_texts @ map rev space_texts). \<not> (h \<noteq> [] \<and> has_prefix h (c # s))"
    using c by fastforce
  then have "\<forall>h \<in> set space_texts. \<not> (h \<noteq> [] \<and> has_prefix h (c # s))"
    "\<forall>h \<in> set (map rev space_texts). \<not> (h \<noteq> [] \<and> has_prefix h (c # s))" by simp_all
  then have "find (\<lambda>h. h \<noteq> [] \<and> has_prefix h (c # s)) space_texts = None"
    "find (\<lambda>h. h \<noteq> [] \<and> has_prefix h (c # s)) (map rev space_texts) = None"
    unfolding find_None_iff by blast+
  then show ?thesis by (simp add: trim_heads.simps)
qed

lemma trim_space_between:
  "c \<in> {CHR ''{'', CHR ''}'', CHR ''['', CHR '']''} \<Longrightarrow> e \<in> {CHR ''{'', CHR ''}'', CHR ''['', CHR '']''} \<Longrightarrow>
   trim_space (c # s @ [e]) = c # s @ [e]"
  using no_space_head [of c "s @ [e]"] no_space_head [of e "rev s @ [c]"] by (simp add: trim_space_def)

lemma value_text_between:
  "\<not> is_ws c \<Longrightarrow> \<not> is_ws e \<Longrightarrow> value_text (c # s @ [e]) = c # s @ [e]"
  by (simp add: value_text_def skip_ws_Cons)

lemma unmarshal_object:
  assumes "plain_texts kvs"
  shows "unmarshal_request (object_text kvs) =
    map_option (\<lambda>s. zero_rpc_request\<lparr>single_call := Some s\<rparr>) (decode_members (json_members kvs) zero_request)"
proof -
  obtain t where t: "object_text kvs = CHR ''{'' # t @ [CHR ''}'']" by (simp add: object_text_def enc_object_def)
  have p: "json_parse (object_text kvs) = Some (JObj (json_members kvs))"
    using json_parse_object [OF assms, of "[]" "[]"] by (simp add: skip_ws_def)
  have "value_text (object_text kvs) = object_text kvs" "trim_space (object_text kvs) = object_text kvs"
    unfolding t by (simp_all only: value_text_between trim_space_between not_ws insert_iff simp_thms)
  then show ?thesis
    using p t by (simp add: unmarshal_request_def unmarshal_json_def Let_def option.map_comp o_def)
qed

lemma unmarshal_array:
  assumes "\<forall>kvs \<in> set oss. plain_texts kvs" "oss \<noteq> []"
  shows "unmarshal_request (''['' @ str_join '','' (map object_text oss) @ '']'') =
    map_option (\<lambda>rs. zero_rpc_request\<lparr>batch_call := Some rs\<rparr>) (decode_list (map (\<lambda>kvs. JObj (json_members kvs)) oss))"
proof -
  let ?s = "''['' @ str_join '','' (map object_text oss) @ '']''"
  have s: "?s = CHR ''['' # str_join '','' (map object_text oss) @ [CHR '']'']" by simp
  have "value_text ?s = ?s" "trim_space ?s = ?s"
    unfolding s by (simp_all only: value_text_between trim_space_between not_ws insert_iff simp_thms)
  then show ?thesis
    using json_parse_array [OF assms] by (simp add: unmarshal_request_def unmarshal_json_def Let_def option.map_comp o_def)
qed

end
