(* ===== verification/Handler.thy ===== *)
theory Handler
  imports Proxy PlainJson
begin

text \<open>
  \<^verbatim>\<open>pkg/handler/jsonRpcHandler.go\<close>: the HTTP endpoints of a chain.  A request
  is decoded and checked against the method lists, charged to the API key, forwarded by
  the proxy, and its reply cleared of the node's address.  The WebSocket endpoint is not
  in this theory.
\<close>

section \<open>Requests, replies and the handler\<close>

text \<open>
  What the code reads of echo's context: the request URI, the bound path parameter, the
  body, and the request id the middleware put there.
\<close>

record http_request =
  request_uri :: string
  api_key_param :: "gerr + string"
  req_body :: "gerr + bytes"
  request_id_value :: "string option"

text \<open>\<^verbatim>\<open>c.JSON\<close>, \<^verbatim>\<open>c.JSONBlob\<close>, or an error left to echo.\<close>

datatype reply = ReplyJson nat rpc_error | ReplyBlob nat bytes | ReplyErr gerr

record json_handler =
  h_chain_id :: nat
  h_chain_name :: string
  http_black_methods :: "string list"
  ws_black_methods :: "string list"
  just_white_methods :: "string list"
  erigon_methods :: "string list"
  h_proxy :: proxy_config
  h_whitelist :: "string list"
  h_is_dev :: bool

section \<open>Checking a request\<close>

definition validate_req :: "single_request \<Rightarrow> string list \<Rightarrow> rpc_error option" where
  "validate_req req black =
     (if rq_method req = [] then Some parse_error
      else if In (rq_method req) black then Some (new_unsupported_method_error (rq_id req))
      else None)"

text \<open>
  The loop of \<^verbatim>\<open>bind\<close> over a batch of \<open>n\<close> calls: the first invalid call ends it; each
  call of an Erigon method sets the request type and counts the whole batch.
\<close>

fun bind_batch ::
  "('w, 'x) gateway_env_scheme \<Rightarrow> int \<Rightarrow> string list \<Rightarrow> string list \<Rightarrow> single_request list \<Rightarrow>
   nat \<Rightarrow> 'w \<Rightarrow> (rpc_error + nat) \<times> 'w" where
  "bind_batch E n black erigon [] ty w = (Inr ty, w)"
| "bind_batch E n black erigon (r # rs) ty w =
     (case validate_req r black of
        Some e \<Rightarrow> (Inl e, w)
      | None \<Rightarrow>
          if In (rq_method r) erigon
          then bind_batch E n black erigon rs RequestTypeErigon (erigon_count E n w)
          else bind_batch E n black erigon rs ty w)"

definition black_list :: "json_handler \<Rightarrow> string \<Rightarrow> string list \<Rightarrow> string list" where
  "black_list h api_key black =
     (if check_in_white_list (h_whitelist h) api_key then black else black @ just_white_methods h)"

definition bind ::
  "('w, 'x) gateway_env_scheme \<Rightarrow> json_handler \<Rightarrow> string \<Rightarrow> bytes \<Rightarrow> string list \<Rightarrow> string list \<Rightarrow> 'w \<Rightarrow>
   (rpc_error + rpc_request) outcome \<times> 'w" where
  "bind E h api_key rawreq black0 erigon w =
     (case unmarshal_request rawreq of
        None \<Rightarrow> (Ret (Inl parse_error), w)
      | Some req \<Rightarrow>
          (let black = black_list h api_key black0 in
           if is_batch_call req then
             (case bind_batch E (int (length (get_batch_call req))) black erigon (get_batch_call req)
                     (request_type req) w of
                (Inl e, w1) \<Rightarrow> (Ret (Inl e), w1)
              | (Inr ty, w1) \<Rightarrow> (Ret (Inr (req\<lparr>request_type := ty\<rparr>)), w1))
           else
             (case single_call req of
                None \<Rightarrow> (Panic ''nil pointer dereference'', w)
              | Some r \<Rightarrow>
                  (case validate_req r black of
                     Some e \<Rightarrow> (Ret (Inl e), w)
                   | None \<Rightarrow>
                       if In (rq_method r) erigon
                       then (Ret (Inr (req\<lparr>request_type := RequestTypeErigon\<rparr>)), erigon_count E 1 w)
                       else (Ret (Inr req), w)))))"

definition tendermint_path_bind ::
  "string \<Rightarrow> string \<Rightarrow> string list \<Rightarrow> rpc_error + tendermint_request" where
  "tendermint_path_bind api_key uri black =
     (let path_all = last (str_split (CHR ''/'') uri);
          query_list = str_split (CHR ''?'') path_all;
          path = (if 0 < length query_list then hd query_list else path_all);
          query = (if 0 < length query_list then concat (tl query_list) else [])
      in if path = ''/'' \<or> path = api_key then Inl parse_error
         else if In path black then Inl (new_unsupported_method_error None)
         else Inr \<lparr>tm_path = path, tm_query = ''?'' @ query\<rparr>)"

section \<open>Charging\<close>

definition rate_limit ::
  "('w, 'x) gateway_env_scheme \<Rightarrow> json_handler \<Rightarrow> string \<Rightarrow> int \<Rightarrow> 'w \<Rightarrow> rpc_error option \<times> 'w" where
  "rate_limit E h api_key n w =
     (case allow E (h_whitelist h) (h_chain_id h) api_key n w of
        (None, w1) \<Rightarrow> (None, w1)
      | (Some ExceededRateLimitError, w1) \<Rightarrow> (Some too_many_request_err, w1)
      | (Some ApiKeyNotExistError, w1) \<Rightarrow> (Some unauthorized_err, w1)
      | (Some (OtherLimitError e), w1) \<Rightarrow> (Some (new_internal_server_error None), w1))"

section \<open>Clearing the reply\<close>

text \<open>Changing an object inside an object, when it is there.\<close>

fun on_obj :: "((string \<times> any) list \<Rightarrow> (string \<times> any) list) \<Rightarrow> any \<Rightarrow> any" where
  "on_obj f (AObj ms) = AObj (f ms)"
| "on_obj f v = v"

definition in_object ::
  "string \<Rightarrow> ((string \<times> any) list \<Rightarrow> (string \<times> any) list) \<Rightarrow> (string \<times> any) list \<Rightarrow> (string \<times> any) list" where
  "in_object k f kvs = map (\<lambda>(k', v). (k', if k' = k then on_obj f v else v)) kvs"

definition blank :: "string \<Rightarrow> (string \<times> any) list \<Rightarrow> (string \<times> any) list" where
  "blank k kvs = map (\<lambda>(k', v). (k', if k' = k then AStr [] else v)) kvs"

definition change_rpc_address :: "(string \<times> any) list \<Rightarrow> (string \<times> any) list" where
  "change_rpc_address =
     in_object ''result'' (in_object ''node_info'' (in_object ''other'' (blank ''rpc_address'')))"

text \<open>A text that is no object yields nil without an error; null is the nil map.\<close>

definition clear_info :: "string \<Rightarrow> bytes \<Rightarrow> string \<Rightarrow> gerr + bytes" where
  "clear_info uri raw path =
     (if \<not> str_contains uri ''tendermint'' then Inr raw
      else if str_contains path ''status'' \<and> str_contains raw ''rpc_address'' then
        (case unmarshal_any raw of
           Some (AObj kvs) \<Rightarrow> Inr (enc_any (AObj (change_rpc_address kvs)))
         | Some ANil \<Rightarrow> Inr ''null''
         | _ \<Rightarrow> Inr [])
      else Inr raw)"

section \<open>The endpoints\<close>

definition bind_api_key :: "http_request \<Rightarrow> gerr + string" where
  "bind_api_key q =
     (case api_key_param q of
        Inl e \<Rightarrow> Inl e
      | Inr api_key \<Rightarrow>
          (let parts = str_split (CHR ''/'') api_key
           in if 1 < length parts then Inr (parts ! 0) else Inr api_key))"

text \<open>Both branches of \<^verbatim>\<open>newLogger\<close> do the same; it fails on a URI without a slash and without a request id.\<close>

definition new_logger :: "http_request \<Rightarrow> unit outcome" where
  "new_logger q =
     (if length (str_split (CHR ''/'') (request_uri q)) < 2 then Panic ''index out of range''
      else case request_id_value q of
        None \<Rightarrow> Panic ''interface conversion''
      | Some _ \<Rightarrow> Ret ())"

definition Http ::
  "('w, 'x) gateway_env_scheme \<Rightarrow> json_handler \<Rightarrow> http_request \<Rightarrow> 'w pstate \<Rightarrow> reply outcome \<times> 'w pstate" where
  "Http E h q s =
     (let (rid, w) = s in
      case new_logger q of
        Panic p \<Rightarrow> (Panic p, s)
      | Ret _ \<Rightarrow>
      (case bind_api_key q of
         Inl e \<Rightarrow> (Ret (ReplyErr e), s)
       | Inr api_key \<Rightarrow>
      (case req_body q of
         Inl e \<Rightarrow> (Ret (ReplyErr e), s)
       | Inr rawreq \<Rightarrow>
      (case bind E h api_key rawreq (http_black_methods h) (erigon_methods h) w of
         (Panic p, w1) \<Rightarrow> (Panic p, (rid, w1))
       | (Ret (Inl v_err), w1) \<Rightarrow> (Ret (ReplyJson 200 v_err), (rid, w1))
       | (Ret (Inr req), w1) \<Rightarrow>
      (case rate_limit E h api_key (cost req) w1 of
         (Some rl_err, w2) \<Rightarrow> (Ret (ReplyJson 200 rl_err), (rid, w2))
       | (None, w2) \<Rightarrow>
      (case http_proxy E (h_proxy h) req (rid, w2) of
         (Panic p, s3) \<Rightarrow> (Panic p, s3)
       | (Ret (Inl e), s3) \<Rightarrow> (Ret (ReplyJson 200 (new_internal_server_error None)), s3)
       | (Ret (Inr resp), s3) \<Rightarrow>
           (case single_call req of
              None \<Rightarrow> (Ret (ReplyBlob 200 resp), s3)
            | Some r \<Rightarrow>
                (case clear_info (request_uri q) resp (rq_method r) of
                   Inl e \<Rightarrow> (Ret (ReplyJson 200 (new_internal_server_error None)), s3)
                 | Inr resp1 \<Rightarrow> (Ret (ReplyBlob 200 resp1), s3)))))))))"

definition TendermintHttp ::
  "('w, 'x) gateway_env_scheme \<Rightarrow> json_handler \<Rightarrow> http_request \<Rightarrow> 'w pstate \<Rightarrow> reply outcome \<times> 'w pstate" where
  "TendermintHttp E h q s =
     (let (rid, w) = s in
      case new_logger q of
        Panic p \<Rightarrow> (Panic p, s)
      | Ret _ \<Rightarrow>
      (case bind_api_key q of
         Inl e \<Rightarrow> (Ret (ReplyErr e), s)
       | Inr api_key \<Rightarrow>
      (case tendermint_path_bind api_key (request_uri q) (http_black_methods h) of
         Inl v_err \<Rightarrow> (Ret (ReplyJson 200 v_err), s)
       | Inr tm \<Rightarrow>
      (case rate_limit E h api_key 1 w of
         (Some rl_err, w2) \<Rightarrow> (Ret (ReplyJson 200 rl_err), (rid, w2))
       | (None, w2) \<Rightarrow>
      (case tendermint_proxy E (h_proxy h) tm (rid, w2) of
         (Inl e, s3) \<Rightarrow> (Ret (ReplyJson 200 (new_internal_server_error None)), s3)
       | (Inr resp, s3) \<Rightarrow>
           (case clear_info (request_uri q) resp (request_uri q) of
              Inl e \<Rightarrow> (Ret (ReplyJson 200 (new_internal_server_error None)), s3)
            | Inr resp1 \<Rightarrow> (Ret (ReplyBlob 200 resp1), s3)))))))"

section \<open>Metered endpoints\<close>

text \<open>
  What the two endpoints share: a request is admitted or refused, an admitted one is
  charged, and only what was charged is forwarded.
\<close>

locale metered_endpoint =
  fixes serve :: "'s \<Rightarrow> reply outcome \<times> 's"
    and admit :: "'s \<Rightarrow> (reply + 'a) outcome \<times> 's"
    and charge :: "'a \<Rightarrow> 's \<Rightarrow> rpc_error option \<times> 's"
    and forward :: "'a \<Rightarrow> 's \<Rightarrow> reply outcome \<times> 's"
  assumes stuck: "admit s = (Panic p, s1) \<Longrightarrow> serve s = (Panic p, s1)"
    and refused: "admit s = (Ret (Inl r), s1) \<Longrightarrow> serve s = (Ret r, s1)"
    and denied: "admit s = (Ret (Inr a), s1) \<Longrightarrow> charge a s1 = (Some e, s2) \<Longrightarrow>
      serve s = (Ret (ReplyJson 200 e), s2)"
    and passed: "admit s = (Ret (Inr a), s1) \<Longrightarrow> charge a s1 = (None, s2) \<Longrightarrow> serve s = forward a s2"
    and refusal_is_no_blob: "admit s = (Ret (Inl r), s1) \<Longrightarrow> r \<noteq> ReplyBlob c b"
begin

lemma serve_cases:
  obtains (panics) p s1 where "admit s = (Panic p, s1)" "serve s = (Panic p, s1)"
  | (rejects) r s1 where "admit s = (Ret (Inl r), s1)" "serve s = (Ret r, s1)"
  | (unpaid) a s1 e s2 where "admit s = (Ret (Inr a), s1)" "charge a s1 = (Some e, s2)"
      "serve s = (Ret (ReplyJson 200 e), s2)"
  | (served) a s1 s2 where "admit s = (Ret (Inr a), s1)" "charge a s1 = (None, s2)" "serve s = forward a s2"
proof -
  obtain o1 s1 where a: "admit s = (o1, s1)" by (cases "admit s")
  show thesis
  proof (cases o1)
    case (Panic p)
    then show thesis using that(1) a stuck by simp
  next
    case (Ret x)
    show thesis
    proof (cases x)
      case (Inl r)
      then show thesis using that(2) a Ret refused by simp
    next
      case (Inr y)
      obtain c s2 where c: "charge y s1 = (c, s2)" by (cases "charge y s1")
      then show thesis
        using that(3,4) a Ret Inr denied passed by (cases c) auto
    qed
  qed
qed

text \<open>Every reply with an upstream's text was charged for.\<close>

lemma blob_was_charged:
  assumes "serve s = (Ret (ReplyBlob c b), s')"
  obtains a s1 s2 where "admit s = (Ret (Inr a), s1)" "charge a s1 = (None, s2)"
    "forward a s2 = (Ret (ReplyBlob c b), s')"
proof (cases s rule: serve_cases)
  case (rejects r s1)
  then show thesis using assms refusal_is_no_blob [OF rejects(1), of c b] by simp
qed (use assms that in auto)

text \<open>
  A measure of what was let through: admitting and forwarding keep it, and a successful
  charge adds the price.
\<close>

lemma serve_keeps:
  assumes "serve s = (x, s')" "I m s"
    and "\<And>y s1. admit s = (y, s1) \<Longrightarrow> I m s1"
    and "\<And>a s1 e s2. admit s = (Ret (Inr a), s1) \<Longrightarrow> charge a s1 = (Some e, s2) \<Longrightarrow> I m s1 \<Longrightarrow> I m s2"
    and "\<And>a s1 s2. admit s = (Ret (Inr a), s1) \<Longrightarrow> charge a s1 = (None, s2) \<Longrightarrow> I m s1 \<Longrightarrow> I (m + price a) s2"
    and "\<And>a s2 y s3. forward a s2 = (y, s3) \<Longrightarrow> I (m + price a) s2 \<Longrightarrow> I (m + price a) s3"
  shows "I m s' \<and> (\<forall>c b. x \<noteq> Ret (ReplyBlob c b)) \<or>
    (\<exists>a s1 s2. admit s = (Ret (Inr a), s1) \<and> charge a s1 = (None, s2) \<and> I (m + price a) s')"
proof (cases s rule: serve_cases)
  case (panics p s1)
  then show ?thesis using assms(1,3) by auto
next
  case (rejects r s1)
  then show ?thesis using assms(1,3) refusal_is_no_blob [OF rejects(1)] by auto
next
  case (unpaid a s1 e s2)
  then show ?thesis using assms(1,3,4) by auto
next
  case (served a s1 s2)
  then have "I (m + price a) s'" using assms(1) assms(3,5,6) by metis
  then show ?thesis using served by blast
qed

end

definition admit_http ::
  "('w, 'x) gateway_env_scheme \<Rightarrow> json_handler \<Rightarrow> http_request \<Rightarrow> 'w pstate \<Rightarrow>
   (reply + string \<times> rpc_request) outcome \<times> 'w pstate" where
  "admit_http E h q s =
     (case new_logger q of
        Panic p \<Rightarrow> (Panic p, s)
      | Ret _ \<Rightarrow>
      (case bind_api_key q of
         Inl e \<Rightarrow> (Ret (Inl (ReplyErr e)), s)
       | Inr api_key \<Rightarrow>
      (case req_body q of
         Inl e \<Rightarrow> (Ret (Inl (ReplyErr e)), s)
       | Inr rawreq \<Rightarrow>
      (case bind E h api_key rawreq (http_black_methods h) (erigon_methods h) (snd s) of
         (Panic p, w1) \<Rightarrow> (Panic p, (fst s, w1))
       | (Ret (Inl v_err), w1) \<Rightarrow> (Ret (Inl (ReplyJson 200 v_err)), (fst s, w1))
       | (Ret (Inr req), w1) \<Rightarrow> (Ret (Inr (api_key, req)), (fst s, w1))))))"

definition admit_tendermint ::
  "json_handler \<Rightarrow> http_request \<Rightarrow> 'w pstate \<Rightarrow> (reply + string \<times> tendermint_request) outcome \<times> 'w pstate" where
  "admit_tendermint h q s =
     (case new_logger q of
        Panic p \<Rightarrow> (Panic p, s)
      | Ret _ \<Rightarrow>
      (case bind_api_key q of
         Inl e \<Rightarrow> (Ret (Inl (ReplyErr e)), s)
       | Inr api_key \<Rightarrow>
      (case tendermint_path_bind api_key (request_uri q) (http_black_methods h) of
         Inl v_err \<Rightarrow> (Ret (Inl (ReplyJson 200 v_err)), s)
       | Inr tm \<Rightarrow> (Ret (Inr (api_key, tm)), s))))"

definition charge_with ::
  "('w, 'x) gateway_env_scheme \<Rightarrow> json_handler \<Rightarrow> ('a \<Rightarrow> int) \<Rightarrow> string \<times> 'a \<Rightarrow> 'w pstate \<Rightarrow>
   rpc_error option \<times> 'w pstate" where
  "charge_with E h price a s =
     (case rate_limit E h (fst a) (price (snd a)) (snd s) of (r, w) \<Rightarrow> (r, (fst s, w)))"

definition forward_http ::
  "('w, 'x) gateway_env_scheme \<Rightarrow> json_handler \<Rightarrow> http_request \<Rightarrow> string \<times> rpc_request \<Rightarrow> 'w pstate \<Rightarrow>
   reply outcome \<times> 'w pstate" where
  "forward_http E h q a s =
     (case http_proxy E (h_proxy h) (snd a) s of
        (Panic p, s3) \<Rightarrow> (Panic p, s3)
      | (Ret (Inl e), s3) \<Rightarrow> (Ret (ReplyJson 200 (new_internal_server_error None)), s3)
      | (Ret (Inr resp), s3) \<Rightarrow>
          (case single_call (snd a) of
             None \<Rightarrow> (Ret (ReplyBlob 200 resp), s3)
           | Some r \<Rightarrow>
               (case clear_info (request_uri q) resp (rq_method r) of
                  Inl e \<Rightarrow> (Ret (ReplyJson 200 (new_internal_server_error None)), s3)
                | Inr resp1 \<Rightarrow> (Ret (ReplyBlob 200 resp1), s3))))"

definition forward_tendermint ::
  "('w, 'x) gateway_env_scheme \<Rightarrow> json_handler \<Rightarrow> http_request \<Rightarrow> string \<times> tendermint_request \<Rightarrow> 'w pstate \<Rightarrow>
   reply outcome \<times> 'w pstate" where
  "forward_tendermint E h q a s =
     (case tendermint_proxy E (h_proxy h) (snd a) s of
        (Inl e, s3) \<Rightarrow> (Ret (ReplyJson 200 (new_internal_server_error None)), s3)
      | (Inr resp, s3) \<Rightarrow>
          (case clear_info (request_uri q) resp (request_uri q) of
             Inl e \<Rightarrow> (Ret (ReplyJson 200 (new_internal_server_error None)), s3)
           | Inr resp1 \<Rightarrow> (Ret (ReplyBlob 200 resp1), s3)))"

interpretation http_end: metered_endpoint "Http E h q" "admit_http E h q" "charge_with E h cost"
    "forward_http E h q" for E h q
  by unfold_locales
     (auto simp: Http_def admit_http_def charge_with_def forward_http_def Let_def
        split: prod.splits outcome.splits sum.splits option.splits)

interpretation tendermint_end: metered_endpoint "TendermintHttp E h q" "admit_tendermint h q"
    "charge_with E h (\<lambda>_. 1)" "forward_tendermint E h q" for E h q
  by unfold_locales
     (auto simp: TendermintHttp_def admit_tendermint_def charge_with_def forward_tendermint_def Let_def
        split: prod.splits outcome.splits sum.splits option.splits)

section \<open>What \<open>bind\<close> lets through\<close>

definition erigon_call :: "string list \<Rightarrow> single_request \<Rightarrow> bool" where
  "erigon_call erigon r \<longleftrightarrow> rq_method r \<in> set erigon"

lemma validate_req_None: "validate_req r black = None \<longleftrightarrow> rq_method r \<noteq> [] \<and> rq_method r \<notin> set black"
  by (simp add: validate_req_def In_iff)

lemma validate_req_Some: "validate_req r black = Some e \<Longrightarrow>
    e = parse_error \<or> (e = new_unsupported_method_error (rq_id r) \<and> rq_method r \<in> set black)"
  by (auto simp: validate_req_def In_iff split: if_splits)

lemma bind_batch_ok:
  "bind_batch E n black erigon rs ty w = (Inr ty', w') \<Longrightarrow>
   (\<forall>r \<in> set rs. rq_method r \<noteq> [] \<and> rq_method r \<notin> set black) \<and>
   ty' = (if \<exists>r \<in> set rs. erigon_call erigon r then RequestTypeErigon else ty) \<and>
   w' = ((erigon_count E n) ^^ length (filter (erigon_call erigon) rs)) w"
proof (induction rs arbitrary: ty w)
  case Nil
  then show ?case by simp
next
  case (Cons r rs)
  let ?er = "erigon_call erigon r"
  have v: "validate_req r black = None" using Cons.prems by (auto split: option.splits)
  then have rest: "bind_batch E n black erigon rs (if ?er then RequestTypeErigon else ty)
      (if ?er then erigon_count E n w else w) = (Inr ty', w')"
    using Cons.prems by (simp add: erigon_call_def In_iff split: if_splits)
  show ?case
    using Cons.IH [OF rest] v by (auto simp: validate_req_None funpow_swap1)
qed

text \<open>The calls before the first that is refused, and what a refused batch leaves behind.\<close>

definition admissible_call :: "string list \<Rightarrow> single_request \<Rightarrow> bool" where
  "admissible_call black r \<longleftrightarrow> rq_method r \<noteq> [] \<and> rq_method r \<notin> set black"

lemma bind_batch_error:
  "bind_batch E n black erigon rs ty w = (Inl e, w') \<Longrightarrow>
   (e = parse_error \<or> (\<exists>r \<in> set rs. e = new_unsupported_method_error (rq_id r) \<and> rq_method r \<in> set black)) \<and>
   w' = ((erigon_count E n) ^^ length (filter (erigon_call erigon) (takeWhile (admissible_call black) rs))) w"
proof (induction rs arbitrary: ty w)
  case (Cons r rs)
  let ?er = "erigon_call erigon r"
  show ?case
  proof (cases "validate_req r black")
    case None
    then have rest: "bind_batch E n black erigon rs (if ?er then RequestTypeErigon else ty)
        (if ?er then erigon_count E n w else w) = (Inl e, w')"
      using Cons.prems by (simp add: erigon_call_def In_iff split: if_splits)
    have "admissible_call black r" using None by (simp add: validate_req_None admissible_call_def)
    then show ?thesis using Cons.IH [OF rest] by (auto simp: funpow_swap1)
  next
    case (Some e')
    moreover have "\<not> admissible_call black r" using Some validate_req_None [of r black] by (auto simp: admissible_call_def)
    ultimately show ?thesis using Cons.prems validate_req_Some [OF Some] by auto
  qed
qed simp

lemma set_black_list:
  "set (black_list h k black) = (if k \<in> set (h_whitelist h) then set black else set black \<union> set (just_white_methods h))"
  by (simp add: black_list_def check_in_white_list_iff)

text \<open>An accepted request: its calls are admissible, and the type says whether one is Erigon's.\<close>

lemma bind_ok:
  assumes "bind E h k raw black erigon w = (Ret (Inr req'), w')"
  obtains req where "unmarshal_request raw = Some req"
    "req' = req\<lparr>request_type := (if \<exists>r \<in> set (calls_of req). erigon_call erigon r then RequestTypeErigon else 0)\<rparr>"
    "\<forall>r \<in> set (calls_of req). rq_method r \<noteq> [] \<and> rq_method r \<notin> set (black_list h k black)"
    "batch_call req \<noteq> None \<or> single_call req \<noteq> None"
    "w' = ((erigon_count E (int (length (calls_of req)))) ^^ length (filter (erigon_call erigon) (calls_of req))) w"
proof -
  obtain req where req: "unmarshal_request raw = Some req"
    using assms by (auto simp: bind_def split: option.splits)
  have ty: "request_type req = 0" using unmarshal_request_decoded [OF req] by (simp add: decoded_request_def)
  show thesis
  proof (cases "batch_call req")
    case (Some rs)
    then obtain t where t: "bind_batch E (int (length rs)) (black_list h k black) erigon rs 0 w = (Inr t, w')"
      "req' = req\<lparr>request_type := t\<rparr>"
      using assms req ty
      by (auto simp: bind_def is_batch_call_def get_batch_call_def Let_def split: prod.splits sum.splits)
    show thesis
      using that [OF req] bind_batch_ok [OF t(1)] t(2) Some by (simp add: calls_of_def)
  next
    case None
    then obtain r where r: "single_call req = Some r" "validate_req r (black_list h k black) = None"
      and rest: "req' = (if In (rq_method r) erigon then req\<lparr>request_type := RequestTypeErigon\<rparr> else req)"
        "w' = (if In (rq_method r) erigon then erigon_count E 1 w else w)"
      using assms req
      by (auto simp: bind_def is_batch_call_def Let_def split: option.splits if_splits)
    have "req\<lparr>request_type := 0\<rparr> = req" using ty by simp
    then show thesis
      using that [OF req] None r rest
      by (auto simp: calls_of_def validate_req_None erigon_call_def In_iff)
  qed
qed

text \<open>
  A request with a method that is not admissible is refused before anything is charged: only the calls
  before the first one refused have been counted for Erigon.
\<close>

lemma bind_refuses:
  assumes "unmarshal_request raw = Some req" "r \<in> set (calls_of req)"
    and "rq_method r \<in> set (black_list h k black)"
  shows "\<exists>e. bind E h k raw black erigon w = (Ret (Inl e),
      ((erigon_count E (int (length (calls_of req)))) ^^ length (filter (erigon_call erigon)
         (takeWhile (admissible_call (black_list h k black)) (calls_of req)))) w) \<and> je_code e \<in> {- 32601, - 32700}"
proof (cases "batch_call req")
  case (Some rs)
  then have calls: "calls_of req = rs" by (simp add: calls_of_def)
  obtain x w' where b: "bind_batch E (int (length rs)) (black_list h k black) erigon rs (request_type req) w = (x, w')"
    by (cases "bind_batch E (int (length rs)) (black_list h k black) erigon rs (request_type req) w")
  have "\<not> isl x \<Longrightarrow> False"
    using bind_batch_ok [of E "int (length rs)" "black_list h k black" erigon rs "request_type req" w "projr x" w']
      b assms(2,3) Some by (cases x) (auto simp: calls_of_def)
  then obtain e where e: "x = Inl e" by (cases x) auto
  note err = bind_batch_error [OF b [unfolded e]]
  have "bind E h k raw black erigon w = (Ret (Inl e), w')"
    using assms(1) Some b e by (simp add: bind_def is_batch_call_def get_batch_call_def)
  moreover have "je_code e \<in> {- 32601, - 32700}"
    using err by (auto simp: parse_error_def new_unsupported_method_error_def)
  ultimately show ?thesis using err unfolding calls by blast
next
  case None
  then have r: "single_call req = Some r" using assms(2) by (auto simp: calls_of_def split: option.splits)
  then have calls: "calls_of req = [r]" using None by (simp add: calls_of_def)
  then obtain e where e: "validate_req r (black_list h k black) = Some e"
    using assms(3) validate_req_None by (metis not_None_eq)
  have "\<not> admissible_call (black_list h k black) r" using assms(3) by (simp add: admissible_call_def)
  moreover have "bind E h k raw black erigon w = (Ret (Inl e), w)"
    using assms(1) None r e by (simp add: bind_def is_batch_call_def)
  moreover have "je_code e \<in> {- 32601, - 32700}"
    using validate_req_Some [OF e] by (auto simp: parse_error_def new_unsupported_method_error_def)
  ultimately show ?thesis by (simp add: calls)
qed

section \<open>Checking and charging do not look upstream\<close>

lemma env_ignores_post:
  "rd_get (E\<lparr>http_post := post\<rparr>) = rd_get E" "rd_set (E\<lparr>http_post := post\<rparr>) = rd_set E"
  "rd_incrby (E\<lparr>http_post := post\<rparr>) = rd_incrby E" "rd_decrby (E\<lparr>http_post := post\<rparr>) = rd_decrby E"
  "rd_expire (E\<lparr>http_post := post\<rparr>) = rd_expire E" "rd_eval (E\<lparr>http_post := post\<rparr>) = rd_eval E"
  "now (E\<lparr>http_post := post\<rparr>) = now E" "tonum (E\<lparr>http_post := post\<rparr>) = tonum E"
  "key_erigon_total (E\<lparr>http_post := post\<rparr>) = key_erigon_total E"
  "key_chain_hour (E\<lparr>http_post := post\<rparr>) = key_chain_hour E"
  "key_chain_day (E\<lparr>http_post := post\<rparr>) = key_chain_day E"
  "key_total_hour (E\<lparr>http_post := post\<rparr>) = key_total_hour E"
  "key_total_day (E\<lparr>http_post := post\<rparr>) = key_total_day E"
  by simp_all

lemma lua_ignores_post:
  "lua_count (E\<lparr>http_post := post\<rparr>) = lua_count E" "lua_quota (E\<lparr>http_post := post\<rparr>) = lua_quota E"
  unfolding lua_count_def [abs_def] lua_quota_def [abs_def] env_ignores_post by (rule refl)+

lemma script_ignores_post: "lua_ratelimit (E\<lparr>http_post := post\<rparr>) = lua_ratelimit E"
  unfolding lua_ratelimit_def [abs_def] lua_day_part_def [abs_def] lua_ignores_post env_ignores_post by (rule refl)+

lemma limiter_ignores_post:
  "erigon_count (E\<lparr>http_post := post\<rparr>) = erigon_count E"
  "redis_allow (E\<lparr>http_post := post\<rparr>) = redis_allow E"
  "allow_whitelist (E\<lparr>http_post := post\<rparr>) = allow_whitelist E"
  "count_allowed (E\<lparr>http_post := post\<rparr>) = count_allowed E"
  unfolding erigon_count_def [abs_def] redis_allow_def [abs_def] allow_whitelist_def [abs_def] count_allowed_def [abs_def] increase_and_set_expire_def [abs_def] script_ignores_post env_ignores_post by (rule refl)+

lemma rate_limit_ignores_post: "rate_limit (E\<lparr>http_post := post\<rparr>) = rate_limit E"
  unfolding rate_limit_def [abs_def] allow_def [abs_def] limiter_ignores_post env_ignores_post by (rule refl)+

lemma bind_batch_ignores_post: "bind_batch (E\<lparr>http_post := post\<rparr>) = bind_batch E"
proof (intro ext)
  show "bind_batch (E\<lparr>http_post := post\<rparr>) n black erigon rs ty w = bind_batch E n black erigon rs ty w"
    for n black erigon rs ty w
    by (induction rs arbitrary: ty w) (simp_all add: limiter_ignores_post split: option.split)
qed

lemma bind_ignores_post: "bind (E\<lparr>http_post := post\<rparr>) = bind E"
  unfolding bind_def [abs_def] bind_batch_ignores_post limiter_ignores_post by (rule refl)

section \<open>Properties\<close>

text \<open>A handler, its configuration and a request for the witnesses.\<close>

definition demo_handler :: json_handler where
  "demo_handler = \<lparr>h_chain_id = 1, h_chain_name = ''ETH'', http_black_methods = [''eth_newFilter''],
     ws_black_methods = [], just_white_methods = [''trace_call''], erigon_methods = [''eth_getLogs''],
     h_proxy = demo_cfg, h_whitelist = [''w''], h_is_dev = False\<rparr>"

definition demo_text :: "string \<Rightarrow> bytes" where
  "demo_text m = enc_object
     [enc_member ''id'' (enc_string ''1''), enc_member ''jsonrpc'' (enc_string ''2.0''),
      enc_member ''method'' (enc_string m)]"

definition demo_call_of :: "string \<Rightarrow> single_request" where
  "demo_call_of m = \<lparr>rq_id = Some (AStr ''1''), rq_version = ''2.0'', rq_method = m, rq_params = []\<rparr>"

definition demo_members :: "string \<Rightarrow> texts" where
  "demo_members m = [(''id'', ''1''), (''jsonrpc'', ''2.0''), (''method'', m)]"

lemma demo_members_plain: "plain_text m \<Longrightarrow> plain_texts (demo_members m)"
proof -
  have "plain_text ''id'' \<and> plain_text ''1'' \<and> plain_text ''jsonrpc'' \<and> plain_text ''2.0'' \<and> plain_text ''method''" by code_simp
  then show "plain_text m \<Longrightarrow> plain_texts (demo_members m)" by (simp add: plain_texts_def demo_members_def)
qed

lemma demo_text_members: "plain_text m \<Longrightarrow> demo_text m = object_text (demo_members m)"
  using demo_members_plain [of m]
  by (simp add: demo_text_def object_text_def demo_members_def plain_texts_def enc_plain_member)

lemma demo_members_read: "decode_members (json_members (demo_members m)) zero_request = Some (demo_call_of m)"
proof -
  have "field_matches ''id'' ''id''" "\<not> field_matches ''id'' ''jsonrpc''" "\<not> field_matches ''id'' ''method''"
    "field_matches ''jsonrpc'' ''jsonrpc''" "\<not> field_matches ''jsonrpc'' ''method''" "field_matches ''method'' ''method''"
    by code_simp+
  then show ?thesis
    by (simp add: demo_members_def json_members_def decode_member_def decode_text_def zero_request_def demo_call_of_def)
qed

lemma demo_text_read:
  "plain_text m \<Longrightarrow> unmarshal_request (demo_text m) = Some (zero_rpc_request\<lparr>single_call := Some (demo_call_of m)\<rparr>)"
  using unmarshal_object [OF demo_members_plain [of m]] by (simp add: demo_text_members demo_members_read)

lemma demo_batch_read:
  assumes "\<forall>m \<in> set ms. plain_text m" "ms \<noteq> []"
  shows "unmarshal_request (''['' @ str_join '','' (map demo_text ms) @ '']'') =
    Some (zero_rpc_request\<lparr>batch_call := Some (map demo_call_of ms)\<rparr>)"
proof -
  have t: "map demo_text ms = map object_text (map demo_members ms)" using assms(1) by (simp add: demo_text_members)
  have "decode_list (map (\<lambda>kvs. JObj (json_members kvs)) (map demo_members ms)) = Some (map demo_call_of ms)"
    by (induction ms) (simp_all add: demo_members_read)
  then show ?thesis
    unfolding t by (subst unmarshal_array) (use assms demo_members_plain in auto)
qed

lemma demo_methods_plain:
  "plain_text ''trace_call''" "plain_text ''eth_call''" "plain_text ''eth_getLogs''" "plain_text ''status''" "plain_text ''dial_seeds''"
  by code_simp+

lemmas demo_reads = demo_methods_plain [THEN demo_text_read]

definition demo_request :: "string \<Rightarrow> bytes \<Rightarrow> http_request" where
  "demo_request uri b =
     \<lparr>request_uri = uri, api_key_param = Inr ''k'', req_body = Inr b, request_id_value = Some ''r''\<rparr>"

text \<open>
  C6. Inadmissible calls never reach a node.  If any call of a request, alone or in a batch, has a
  method on the chain's black list, or one reserved for whitelisted keys under another key,
  the reply is an error (unsupported method, or parse error when an earlier call has no
  method), whatever a node would answer.  All that has happened is that the Erigon statistics grew by
  the number of the request's calls for each call of an Erigon method before the first one that is
  refused: no node is asked and the key is not charged, no counter of the limiter being touched.
\<close>

theorem inadmissible_calls_never_forwarded:
  assumes "new_logger q = Ret ()" "bind_api_key q = Inr k" "req_body q = Inr raw"
    and "unmarshal_request raw = Some req" "r \<in> set (calls_of req)"
    and "rq_method r \<in> set (http_black_methods h) \<or>
      (k \<notin> set (h_whitelist h) \<and> rq_method r \<in> set (just_white_methods h))"
  shows "\<exists>e j. je_code e \<in> {- 32601, - 32700} \<and>
    j = length (filter (erigon_call (erigon_methods h))
      (takeWhile (admissible_call (black_list h k (http_black_methods h))) (calls_of req))) \<and>
    (\<forall>post. Http (E\<lparr>http_post := post\<rparr>) h q (rid, w) =
      (Ret (ReplyJson 200 e), (rid, ((erigon_count E (int (length (calls_of req)))) ^^ j) w)))"
proof -
  have bl: "rq_method r \<in> set (black_list h k (http_black_methods h))"
    using assms(6) by (auto simp: set_black_list)
  let ?w' = "((erigon_count E (int (length (calls_of req)))) ^^ length (filter (erigon_call (erigon_methods h))
      (takeWhile (admissible_call (black_list h k (http_black_methods h))) (calls_of req)))) w"
  obtain e where e: "bind E h k raw (http_black_methods h) (erigon_methods h) w = (Ret (Inl e), ?w')"
    "je_code e \<in> {- 32601, - 32700}"
    using bind_refuses [OF assms(4,5) bl, of E "erigon_methods h" w] by (elim exE conjE)
  have "Http (E\<lparr>http_post := post\<rparr>) h q (rid, w) = (Ret (ReplyJson 200 e), (rid, ?w'))" for post
    by (rule http_end.refused) (simp add: admit_http_def assms(1-3) bind_ignores_post e(1))
  then show ?thesis using e(2) by blast
qed

theorem inadmissible_calls_never_forwarded_witness:
  "\<exists>e. je_code e \<in> {- 32601, - 32700} \<and>
     Http (demo_env []) demo_handler (demo_request ''/eth/v1/k'' (demo_text ''trace_call'')) (0, demo_start) =
       (Ret (ReplyJson 200 e), (0, demo_start))"
proof -
  let ?q = "demo_request ''/eth/v1/k'' (demo_text ''trace_call'')"
  have q: "new_logger ?q = Ret ()" "bind_api_key ?q = Inr ''k''" "req_body ?q = Inr (demo_text ''trace_call'')"
    by (simp_all add: new_logger_def bind_api_key_def demo_request_def)
  have d: "map_option (map rq_method \<circ> calls_of) (unmarshal_request (demo_text ''trace_call'')) = Some [''trace_call'']"
    by (simp add: demo_reads calls_of_def zero_rpc_request_def demo_call_of_def)
  then obtain req r where r: "unmarshal_request (demo_text ''trace_call'') = Some req" "r \<in> set (calls_of req)"
    "rq_method r = ''trace_call''" "calls_of req = [r]"
    by (auto simp: map_eq_Cons_conv)
  then have "takeWhile (admissible_call (black_list demo_handler ''k'' (http_black_methods demo_handler))) (calls_of req) = []"
    by (simp add: admissible_call_def set_black_list demo_handler_def)
  then show ?thesis
    using inadmissible_calls_never_forwarded [OF q r(1,2), of demo_handler "demo_env []" 0 demo_start] r(3)
    by (auto simp: demo_handler_def dest: spec [of _ "http_post (demo_env [])"])
qed

text \<open>
  C7. Unpaid requests never reach a node.  When the limiter does not let the calls of an
  admissible request through, the reply is its error (429 over a quota, 401 for an unknown
  key, -32000 when Redis fails) and nothing depends on what a node would answer.
\<close>

theorem unpaid_requests_never_forwarded:
  assumes "new_logger q = Ret ()" "bind_api_key q = Inr k" "req_body q = Inr raw"
    and "bind E h k raw (http_black_methods h) (erigon_methods h) w = (Ret (Inr req), w1)"
    and "allow E (h_whitelist h) (h_chain_id h) k (cost req) w1 = (Some err, w2)"
  shows "Http (E\<lparr>http_post := post\<rparr>) h q (rid, w) =
    (Ret (ReplyJson 200 (case err of
        ExceededRateLimitError \<Rightarrow> too_many_request_err
      | ApiKeyNotExistError \<Rightarrow> unauthorized_err
      | OtherLimitError e \<Rightarrow> new_internal_server_error None)), (rid, w2))"
proof (rule http_end.denied)
  show "admit_http (E\<lparr>http_post := post\<rparr>) h q (rid, w) = (Ret (Inr (k, req)), (rid, w1))"
    by (simp add: admit_http_def assms(1-4) bind_ignores_post)
  show "charge_with (E\<lparr>http_post := post\<rparr>) h cost (k, req) (rid, w1) =
    (Some (case err of
        ExceededRateLimitError \<Rightarrow> too_many_request_err
      | ApiKeyNotExistError \<Rightarrow> unauthorized_err
      | OtherLimitError e \<Rightarrow> new_internal_server_error None), (rid, w2))"
    using assms(5) by (simp add: charge_with_def rate_limit_ignores_post rate_limit_def split: limit_error.split)
qed

text \<open>In the empty store no key has a quota.\<close>

theorem unpaid_requests_never_forwarded_witness:
  "\<exists>w'. Http (demo_env []) demo_handler (demo_request ''/eth/v1/k'' (demo_text ''eth_call'')) (0, demo_start) =
     (Ret (ReplyJson 200 unauthorized_err), (0, w'))"
proof -
  let ?q = "demo_request ''/eth/v1/k'' (demo_text ''eth_call'')" and ?E = "demo_env []"
  have q: "new_logger ?q = Ret ()" "bind_api_key ?q = Inr ''k''" "req_body ?q = Inr (demo_text ''eth_call'')"
    by (simp_all add: new_logger_def bind_api_key_def demo_request_def)
  have "case bind ?E demo_handler ''k'' (demo_text ''eth_call'') (http_black_methods demo_handler)
      (erigon_methods demo_handler) demo_start of
      (Ret (Inr req), w1) \<Rightarrow> fst (allow ?E (h_whitelist demo_handler) (h_chain_id demo_handler) ''k'' (cost req) w1) =
        Some ApiKeyNotExistError
    | _ \<Rightarrow> False"
    unfolding bind_def demo_reads by code_simp
  then obtain req w1 where b: "bind ?E demo_handler ''k'' (demo_text ''eth_call'') (http_black_methods demo_handler)
      (erigon_methods demo_handler) demo_start = (Ret (Inr req), w1)"
    and a: "fst (allow ?E (h_whitelist demo_handler) (h_chain_id demo_handler) ''k'' (cost req) w1) =
        Some ApiKeyNotExistError"
    by (auto split: prod.splits outcome.splits sum.splits)
  obtain w2 where "allow ?E (h_whitelist demo_handler) (h_chain_id demo_handler) ''k'' (cost req) w1 =
      (Some ApiKeyNotExistError, w2)"
    using a by (metis prod.collapse)
  from unpaid_requests_never_forwarded [OF q b this, of "http_post ?E" 0] show ?thesis by auto
qed

text \<open>
  C20. Routing to Erigon.  An accepted request is posted to the Erigon node exactly when one of
  its calls has an Erigon method, and otherwise to the ordinary node; and for each call of an Erigon
  method the whole number of the request's calls is added to the Erigon statistics.
\<close>

theorem erigon_routing:
  assumes "bind E h k raw black erigon w = (Ret (Inr req), w')"
  shows "upstream_url cfg (request_type req) =
      (if \<exists>r \<in> set (calls_of req). rq_method r \<in> set erigon then http_erigon_stream cfg else http_upstream cfg) \<and>
    w' = ((erigon_count E (cost req)) ^^ length (filter (\<lambda>r. rq_method r \<in> set erigon) (calls_of req))) w"
proof -
  obtain req0 where r0: "unmarshal_request raw = Some req0"
    and req: "req = req0\<lparr>request_type := (if \<exists>r \<in> set (calls_of req0). erigon_call erigon r
                                     then RequestTypeErigon else 0)\<rparr>"
    and some: "batch_call req0 \<noteq> None \<or> single_call req0 \<noteq> None"
    and w': "w' = ((erigon_count E (int (length (calls_of req0)))) ^^
        length (filter (erigon_call erigon) (calls_of req0))) w"
    using assms by (rule bind_ok)
  have calls: "calls_of req = calls_of req0" using req by simp
  have cost: "cost req = int (length (calls_of req0))" if "calls_of req0 \<noteq> []"
    using that unmarshal_request_decoded [OF r0] some req
    by (auto simp: cost_def calls_of_def get_batch_call_def decoded_request_def Let_def split: option.splits)
  have er: "erigon_call erigon = (\<lambda>r. rq_method r \<in> set erigon)"
    by (simp add: fun_eq_iff erigon_call_def)
  show ?thesis
  proof (cases "calls_of req0 = []")
    case True
    then show ?thesis using w' req calls by (simp add: upstream_url_def RequestTypeErigon_def)
  next
    case False
    then show ?thesis
      using w' req calls cost er by (simp add: upstream_url_def RequestTypeErigon_def)
  qed
qed

definition demo_batch :: bytes where
  "demo_batch = ''['' @ str_join '','' (map demo_text [''eth_getLogs'', ''eth_call'', ''eth_getLogs'']) @ '']''"

theorem erigon_routing_witness:
  "\<exists>req w'. bind (demo_env []) demo_handler ''k'' demo_batch [] [''eth_getLogs''] demo_start = (Ret (Inr req), w') \<and>
     upstream_url demo_cfg (request_type req) = ''http://erigon'' \<and>
     w' = ((erigon_count (demo_env []) 3) ^^ 2) demo_start"
proof -
  have "case bind (demo_env []) demo_handler ''k'' demo_batch [] [''eth_getLogs''] demo_start of
      (Ret (Inr req), _) \<Rightarrow> map rq_method (calls_of req) = [''eth_getLogs'', ''eth_call'', ''eth_getLogs''] \<and> cost req = 3
    | _ \<Rightarrow> False"
    unfolding bind_def demo_batch_def
    by (subst demo_batch_read, use demo_methods_plain in force, simp) code_simp
  then obtain req w' where b: "bind (demo_env []) demo_handler ''k'' demo_batch [] [''eth_getLogs''] demo_start =
      (Ret (Inr req), w')"
    and m: "map rq_method (calls_of req) = [''eth_getLogs'', ''eth_call'', ''eth_getLogs'']" "cost req = 3"
    by (auto split: prod.splits outcome.splits sum.splits)
  have "length (filter (\<lambda>r. rq_method r \<in> set [''eth_getLogs'']) (calls_of req)) = 2"
    "\<exists>r \<in> set (calls_of req). rq_method r \<in> set [''eth_getLogs'']"
    using m(1) by (auto simp: map_eq_Cons_conv)
  then show ?thesis
    using erigon_routing [OF b, of demo_cfg] b m(2) by (auto simp: demo_cfg_def)
qed

text \<open>
  A body that is the JSON text null crashes the handler: it decodes to a request without a
  call, which \<open>bind\<close> dereferences (the middleware turns the panic into a 500).
\<close>

theorem null_body_panics:
  "Http E h (demo_request ''/eth/v1/k'' ''null'') (rid, w) = (Panic ''nil pointer dereference'', (rid, w))"
proof -
  have "unmarshal_request ''null'' = Some zero_rpc_request" by code_simp
  then have "bind E h k ''null'' black erigon w = (Panic ''nil pointer dereference'', w)" for k black erigon
    by (simp add: bind_def is_batch_call_def zero_rpc_request_def Let_def)
  then have "admit_http E h (demo_request ''/eth/v1/k'' ''null'') (rid, w) =
      (Panic ''nil pointer dereference'', (rid, w))"
    by (simp add: admit_http_def new_logger_def bind_api_key_def demo_request_def)
  then show ?thesis by (rule http_end.stuck)
qed

text \<open>The value at the end of a path of member names.\<close>

fun any_path :: "string list \<Rightarrow> any \<Rightarrow> any option" where
  "any_path [] v = Some v"
| "any_path (k # ks) v = (case v of AObj kvs \<Rightarrow> Option.bind (map_of kvs k) (any_path ks) | _ \<Rightarrow> None)"

lemma map_of_in_object:
  "map_of (in_object k f kvs) k' = (if k' = k then map_option (on_obj f) (map_of kvs k') else map_of kvs k')"
  by (induction kvs) (auto simp: in_object_def)

lemma map_of_blank: "map_of (blank a kvs) k = map_option (\<lambda>v. if k = a then AStr [] else v) (map_of kvs k)"
  by (induction kvs) (auto simp: blank_def)

lemma any_path_inside:
  assumes "\<And>v. any_path ks (on_obj f v) = map_option g (any_path ks v)"
  shows "any_path (k # ks) (on_obj (in_object k f) v) = map_option g (any_path (k # ks) v)"
proof (cases v)
  case (AObj kvs)
  then show ?thesis using assms by (cases "map_of kvs k") (simp_all add: map_of_in_object)
qed simp_all

lemma any_path_inside_same:
  assumes "\<And>v. any_path ks (on_obj f v) = any_path ks v"
  shows "any_path (k # ks) (on_obj (in_object k f) v) = any_path (k # ks) v"
  using any_path_inside [of ks f "\<lambda>u. u" k v] assms by (simp add: option.map_ident)

lemma any_path_beside: "k' \<noteq> k \<Longrightarrow> any_path (k' # ks) (on_obj (in_object k f) v) = any_path (k' # ks) v"
  by (cases v) (simp_all add: map_of_in_object)

lemma any_path_blank: "any_path [a] (on_obj (blank a) v) = map_option (\<lambda>_. AStr []) (any_path [a] v)"
proof (cases v)
  case (AObj kvs)
  then show ?thesis by (cases "map_of kvs a") (simp_all add: map_of_blank)
qed simp_all

lemma any_path_blank_same: "k \<noteq> a \<Longrightarrow> any_path [k] (on_obj (blank a) v) = any_path [k] v"
proof (cases v)
  case (AObj kvs)
  then show "k \<noteq> a \<Longrightarrow> ?thesis" by (cases "map_of kvs k") (simp_all add: map_of_blank)
qed simp_all

text \<open>
  C21. A cleared reply hides the node's address and nothing else.  In a Tendermint status reply
  that mentions an address, the member at result, node_info, other, rpc_address is the empty text
  afterwards if it was there (it is neither left out nor added), and every other member of those
  four objects is unchanged.
\<close>

theorem cleared_reply_hides_the_address:
  assumes "str_contains uri ''tendermint''" "str_contains path ''status''" "str_contains raw ''rpc_address''"
    and "unmarshal_any raw = Some (AObj kvs)"
  shows "\<exists>kvs'. clear_info uri raw path = Inr (enc_any (AObj kvs')) \<and>
    any_path [''result'', ''node_info'', ''other'', ''rpc_address''] (AObj kvs') =
      map_option (\<lambda>_. AStr []) (any_path [''result'', ''node_info'', ''other'', ''rpc_address''] (AObj kvs)) \<and>
    (\<forall>k. k \<noteq> ''rpc_address'' \<longrightarrow>
       any_path [''result'', ''node_info'', ''other'', k] (AObj kvs') =
       any_path [''result'', ''node_info'', ''other'', k] (AObj kvs)) \<and>
    (\<forall>k. k \<noteq> ''other'' \<longrightarrow>
       any_path [''result'', ''node_info'', k] (AObj kvs') = any_path [''result'', ''node_info'', k] (AObj kvs)) \<and>
    (\<forall>k. k \<noteq> ''node_info'' \<longrightarrow> any_path [''result'', k] (AObj kvs') = any_path [''result'', k] (AObj kvs)) \<and>
    (\<forall>k. k \<noteq> ''result'' \<longrightarrow> any_path [k] (AObj kvs') = any_path [k] (AObj kvs))"
proof (intro exI conjI allI impI)
  show "clear_info uri raw path = Inr (enc_any (AObj (change_rpc_address kvs)))"
    using assms by (simp add: clear_info_def)
  have obj: "AObj (change_rpc_address kvs) = on_obj change_rpc_address (AObj kvs)" by simp
  show "any_path [''result'', ''node_info'', ''other'', ''rpc_address''] (AObj (change_rpc_address kvs)) =
      map_option (\<lambda>_. AStr []) (any_path [''result'', ''node_info'', ''other'', ''rpc_address''] (AObj kvs))"
    unfolding obj unfolding change_rpc_address_def by (intro any_path_inside any_path_blank)
  show "any_path [''result'', ''node_info'', ''other'', k] (AObj (change_rpc_address kvs)) =
      any_path [''result'', ''node_info'', ''other'', k] (AObj kvs)" if "k \<noteq> ''rpc_address''" for k
    unfolding obj unfolding change_rpc_address_def by (intro any_path_inside_same any_path_blank_same that)
  show "any_path [''result'', ''node_info'', k] (AObj (change_rpc_address kvs)) =
      any_path [''result'', ''node_info'', k] (AObj kvs)" if "k \<noteq> ''other''" for k
    unfolding obj unfolding change_rpc_address_def by (intro any_path_inside_same any_path_beside that)
  show "any_path [''result'', k] (AObj (change_rpc_address kvs)) = any_path [''result'', k] (AObj kvs)"
    if "k \<noteq> ''node_info''" for k
    unfolding obj unfolding change_rpc_address_def by (intro any_path_inside_same any_path_beside that)
  show "any_path [k] (AObj (change_rpc_address kvs)) = any_path [k] (AObj kvs)" if "k \<noteq> ''result''" for k
    unfolding obj unfolding change_rpc_address_def by (intro any_path_beside that)
qed

text \<open>A status reply with one address.\<close>

definition demo_status :: bytes where
  "demo_status = enc_any (AObj [(''result'', AObj [(''node_info'', AObj [(''id'', AStr ''n1''),
     (''other'', AObj [(''rpc_address'', AStr ''10.0.0.1''), (''tx_index'', AStr ''on'')])])])])"

theorem cleared_reply_hides_the_address_witness:
  "\<exists>kvs'. clear_info ''/kava/tendermint/v1/k/status'' demo_status ''status'' = Inr (enc_any (AObj kvs')) \<and>
     any_path [''result'', ''node_info'', ''other'', ''rpc_address''] (AObj kvs') = Some (AStr []) \<and>
     any_path [''result'', ''node_info'', ''other'', ''tx_index''] (AObj kvs') = Some (AStr ''on'')"
proof -
  have "str_contains ''/kava/tendermint/v1/k/status'' ''tendermint''" "str_contains ''status'' ''status''"
    "str_contains demo_status ''rpc_address''"
    by code_simp+
  moreover have "unmarshal_any demo_status = Some (AObj [(''result'', AObj [(''node_info'', AObj [(''id'', AStr ''n1''),
     (''other'', AObj [(''rpc_address'', AStr ''10.0.0.1''), (''tx_index'', AStr ''on'')])])])])"
    by code_simp
  ultimately show ?thesis
    by (rule cleared_reply_hides_the_address [THEN exE]) (intro exI conjI, auto)
qed

lemma tendermint_path_read:
  assumes "CHR ''/'' \<notin> set p" "CHR ''?'' \<notin> set p" "CHR ''/'' \<notin> set query" "CHR ''?'' \<notin> set query"
  shows "tendermint_path_bind k (prefix @ ''/'' @ p @ ''?'' @ query) black =
    (if p = k then Inl parse_error
     else if p \<in> set black then Inl (new_unsupported_method_error None)
     else Inr \<lparr>tm_path = p, tm_query = ''?'' @ query\<rparr>)"
proof -
  have "last (str_split (CHR ''/'') (prefix @ CHR ''/'' # (p @ CHR ''?'' # query))) = p @ CHR ''?'' # query"
    by (rule str_split_last_append) (use assms in auto)
  moreover have "str_split (CHR ''?'') (p @ CHR ''?'' # query) = [p, query]"
    using assms by (simp add: str_split_append str_split_no_sep)
  moreover have "p \<noteq> ''/''" using assms(1) by auto
  ultimately show ?thesis by (simp add: tendermint_path_bind_def Let_def In_iff)
qed

text \<open>The same with an optional query, in which every question mark is dropped.\<close>

lemma last_segment_split:
  assumes "CHR ''/'' \<notin> set p" "CHR ''?'' \<notin> set p" "CHR ''/'' \<notin> set rest" "rest = [] \<or> hd rest = CHR ''?''"
  shows "last (str_split (CHR ''/'') (prefix @ ''/'' @ p @ rest)) = p @ rest"
    "hd (str_split (CHR ''?'') (p @ rest)) = p"
    "concat (tl (str_split (CHR ''?'') (p @ rest))) = filter (\<lambda>x. x \<noteq> CHR ''?'') rest"
proof -
  show "last (str_split (CHR ''/'') (prefix @ ''/'' @ p @ rest)) = p @ rest"
    using str_split_last_append [of "CHR ''/''" "p @ rest" prefix] assms(1,3) by simp
  show "hd (str_split (CHR ''?'') (p @ rest)) = p"
    "concat (tl (str_split (CHR ''?'') (p @ rest))) = filter (\<lambda>x. x \<noteq> CHR ''?'') rest"
    using assms(2,4) by (cases rest; simp add: str_split_no_sep str_split_append concat_str_split)+
qed

lemma tendermint_path_parts:
  assumes "CHR ''/'' \<notin> set p" "CHR ''?'' \<notin> set p" "CHR ''/'' \<notin> set rest" "rest = [] \<or> hd rest = CHR ''?''"
  shows "tendermint_path_bind k (prefix @ ''/'' @ p @ rest) black =
    (if p = k then Inl parse_error
     else if p \<in> set black then Inl (new_unsupported_method_error None)
     else Inr \<lparr>tm_path = p, tm_query = ''?'' @ filter (\<lambda>x. x \<noteq> CHR ''?'') rest\<rparr>)"
proof -
  have "p \<noteq> ''/''" using assms(1) by auto
  then show ?thesis
    using last_segment_split(1) [OF assms, of prefix] last_segment_split(2,3) [OF assms]
    by (simp add: tendermint_path_bind_def Let_def In_iff)
qed

text \<open>
  Reading a Tendermint path.  The last segment of a URI, up to a question mark, is the
  path and the rest its query; a black path is refused, and so is a URI that ends with the API
  key.
\<close>

theorem tendermint_path_is_read:
  assumes "CHR ''/'' \<notin> set p" "CHR ''?'' \<notin> set p" "CHR ''/'' \<notin> set query" "CHR ''?'' \<notin> set query"
  shows "tendermint_path_bind k (prefix @ ''/'' @ p @ ''?'' @ query) black =
    (if p = k then Inl parse_error
     else if p \<in> set black then Inl (new_unsupported_method_error None)
     else Inr \<lparr>tm_path = p, tm_query = ''?'' @ query\<rparr>)"
  using assms by (rule tendermint_path_read)

theorem tendermint_path_is_read_witness:
  "tendermint_path_bind ''k'' ''/kava/tendermint/v1/k/block?height=5'' [''dial_seeds''] =
     Inr \<lparr>tm_path = ''block'', tm_query = ''?height=5''\<rparr>"
  using tendermint_path_is_read [of "''block''" "''height=5''" "''k''" "''/kava/tendermint/v1/k''" "[''dial_seeds'']"]
  by simp

text \<open>
  What the path reader gets wrong.  A slash in the query moves the path into the query, so
  \<^verbatim>\<open>abci_query\<close> with a store path asks the node for something else; and the black list is
  compared with the raw path, so a percent-encoded black method passes and is sent on.
\<close>

theorem tendermint_path_misreadings:
  "tendermint_path_bind ''k'' ''/kava/tendermint/v1/k/abci_query?path=/store/key'' black =
     (if ''key'' \<in> set black then Inl (new_unsupported_method_error None)
      else Inr \<lparr>tm_path = ''key'', tm_query = ''?''\<rparr>) \<and>
   tendermint_path_bind ''k'' ''/kava/tendermint/v1/k/dial%5Fseeds?seeds=x'' [''dial_seeds'', ''dial_peers''] =
     Inr \<lparr>tm_path = ''dial%5Fseeds'', tm_query = ''?seeds=x''\<rparr>"
  by (simp add: tendermint_path_bind_def Let_def In_iff)

text \<open>
  Replies to batches are not cleared.  The reply to an admitted and paid batch is what the
  proxy got, byte for byte, on every chain and whatever addresses it holds.
\<close>

theorem batch_replies_are_not_cleared:
  assumes "admit_http E h q s = (Ret (Inr (k, req)), s1)" "charge_with E h cost (k, req) s1 = (None, s2)"
    and "http_proxy E (h_proxy h) req s2 = (Ret (Inr resp), s3)" "batch_call req \<noteq> None"
  shows "Http E h q s = (Ret (ReplyBlob 200 resp), s3)"
proof -
  obtain raw where "bind E h k raw (http_black_methods h) (erigon_methods h) (snd s) = (Ret (Inr req), snd s1)"
    using assms(1) by (auto simp: admit_http_def split: outcome.splits sum.splits prod.splits)
  then obtain req0 t where "unmarshal_request raw = Some req0" "req = req0\<lparr>request_type := t\<rparr>"
    by (rule bind_ok)
  then have "single_call req = None"
    using assms(4) unmarshal_request_decoded [of raw req0] by (auto simp: decoded_request_def)
  then have "forward_http E h q (k, req) s2 = (Ret (ReplyBlob 200 resp), s3)"
    using assms(3) by (simp add: forward_http_def)
  then show ?thesis using http_end.passed [OF assms(1,2)] by simp
qed

text \<open>A batch of one status call by a whitelisted key; its reply names an address.\<close>

definition status_batch_request :: http_request where
  "status_batch_request =
     \<lparr>request_uri = ''/kava/tendermint/v1/w'', api_key_param = Inr ''w'',
      req_body = Inr (''['' @ demo_text ''status'' @ '']''), request_id_value = Some ''r''\<rparr>"

theorem batch_replies_are_not_cleared_witness:
  "\<exists>s3. Http (demo_env demo_status) demo_handler status_batch_request (0, demo_start) =
      (Ret (ReplyBlob 200 demo_status), s3)"
proof -
  let ?E = "demo_env demo_status"
  let ?req = "zero_rpc_request\<lparr>batch_call := Some [demo_call_of ''status'']\<rparr>"
  have "unmarshal_request (''['' @ demo_text ''status'' @ '']'') = Some ?req"
    using demo_batch_read [of "[''status'']"] demo_methods_plain by simp
  then have a: "admit_http ?E demo_handler status_batch_request (0, demo_start) = (Ret (Inr (''w'', ?req)), (0, demo_start))"
    by (simp add: admit_http_def status_batch_request_def new_logger_def bind_api_key_def bind_def Let_def is_batch_call_def
        get_batch_call_def validate_req_def In_iff set_black_list demo_handler_def demo_call_of_def zero_rpc_request_def)
  have rest: "case charge_with ?E demo_handler cost (''w'', ?req) (0, demo_start) of
           (None, s2) \<Rightarrow>
             (case http_proxy ?E (h_proxy demo_handler) ?req s2 of
                (Ret (Inr resp), s3) \<Rightarrow> is_batch_call ?req \<and> resp = demo_status | _ \<Rightarrow> False)
         | _ \<Rightarrow> False"
    by code_simp
  from case_None_D [OF rest] obtain s2 where
    c: "charge_with ?E demo_handler cost (''w'', ?req) (0, demo_start) = (None, s2)"
    and last: "case http_proxy ?E (h_proxy demo_handler) ?req s2 of
                (Ret (Inr resp), s3) \<Rightarrow> is_batch_call ?req \<and> resp = demo_status | _ \<Rightarrow> False"
    by auto
  from case_Ret_Inr_D [OF last] obtain s3 where
    "http_proxy ?E (h_proxy demo_handler) ?req s2 = (Ret (Inr demo_status), s3)" "batch_call ?req \<noteq> None"
    by (auto simp: is_batch_call_def)
  with batch_replies_are_not_cleared [OF a c] show ?thesis by blast
qed

end
