(* ===== verification/WsProxy.thy ===== *)
theory WsProxy
  imports Handler
begin

text \<open>
  The WebSocket endpoint: \<^verbatim>\<open>handleWs\<close> of \<^verbatim>\<open>pkg/handler/jsonRpcHandler.go\<close>
  and \<^verbatim>\<open>pkg/proxy/websocket.go\<close>.  A session has four goroutines: the handler reads the
  client's frames, two readers read the frames of the node and of the Erigon node, and a writer
  sends to the client what the others give it over an unbuffered channel.  Each turn of each is a
  function on the session; \<open>ws_run\<close> lets them take turns in any order.
\<close>

section \<open>Environment and session\<close>

datatype ws_conn = MainConn | ErigonConn

text \<open>
  \<open>ws_upgrade\<close> upgrades the client's request, \<open>ws_connect\<close> dials an address, \<open>ws_send\<close> writes a
  frame to a node and \<open>ws_reply\<close> to the client.
\<close>

record 'w ws_env = "'w gateway_env" +
  ws_upgrade :: "'w \<Rightarrow> gerr option \<times> 'w"
  ws_connect :: "string \<Rightarrow> 'w \<Rightarrow> gerr option \<times> 'w"
  ws_send :: "ws_conn \<Rightarrow> bytes \<Rightarrow> 'w \<Rightarrow> gerr option \<times> 'w"
  ws_reply :: "bytes \<Rightarrow> 'w \<Rightarrow> gerr option \<times> 'w"

text \<open>
  Go's interface values, as far as the code puts them in one: an \<^verbatim>\<open>int\<close>, an
  \<^verbatim>\<open>int64\<close>, or a decoded JSON value.  Values of different types are not equal.
\<close>

datatype iface = IInt int | IInt64 int | IAny any

fun hashable :: "iface \<Rightarrow> bool" where
  "hashable (IAny (AArr xs)) = False"
| "hashable (IAny (AObj kvs)) = False"
| "hashable _ = True"

record resp_data =
  rd_data :: "bytes option"
  rd_method :: string
  rd_subscription :: bool

text \<open>Who sends on the channel.\<close>

datatype sender = FromHandler | FromNode ws_conn

text \<open>
  A sender waits while its message is pending.  \<open>ss_closed\<close> is the flag of \<^verbatim>\<open>Client\<close>,
  \<open>ss_writing\<close> and \<open>ss_reading\<close> say which goroutines still run, \<open>ss_ending\<close> that the handler
  returns once its last message is taken, and \<open>ss_rid\<close> is the id counter of the proxy.
\<close>

record 'w session =
  ss_key :: string
  ss_rid :: int
  ss_world :: 'w
  ss_erigon :: bool
  ss_closed :: bool
  ss_requests :: "iface \<Rightarrow> upstream_request option"
  ss_pending :: "sender \<Rightarrow> resp_data option"
  ss_writing :: bool
  ss_reading :: "ws_conn \<Rightarrow> bool"
  ss_ending :: bool

section \<open>websocket.go\<close>

definition client_send :: "sender \<Rightarrow> resp_data \<Rightarrow> ('w, 'x) session_scheme \<Rightarrow> ('w, 'x) session_scheme" where
  "client_send who d s = (if ss_closed s then s else s\<lparr>ss_pending := (ss_pending s)(who \<mapsto> d)\<rparr>)"

text \<open>\<^verbatim>\<open>WriteJSON\<close>: the encoder ends the text with a newline.\<close>

definition write_json ::
  "('w, 'y) ws_env_scheme \<Rightarrow> ws_conn \<Rightarrow> rpc_request \<Rightarrow> ('w, 'x) session_scheme \<Rightarrow> gerr option \<times> ('w, 'x) session_scheme" where
  "write_json E c req s =
     (case marshal_request req of
        None \<Rightarrow> (Some ''json: error calling MarshalJSON'', s)
      | Some b \<Rightarrow>
          (case ws_send E c (b @ [char_of (10::nat)]) (ss_world s) of (e, w) \<Rightarrow> (e, s\<lparr>ss_world := w\<rparr>)))"

text \<open>\<^verbatim>\<open>UpstreamWebSocket.Send\<close>.  What is written is the client's request, with the client's id.\<close>

definition ws_proxy_send ::
  "('w, 'y) ws_env_scheme \<Rightarrow> proxy_config \<Rightarrow> rpc_request \<Rightarrow> ('w, 'x) session_scheme \<Rightarrow>
   gerr option outcome \<times> ('w, 'x) session_scheme" where
  "ws_proxy_send E cfg raw s =
     (if is_batch_call raw then (case write_json E MainConn raw s of (e, s1) \<Rightarrow> (Ret e, s1))
      else
        (let (req, rid1) = from_request raw (ss_rid s) in
         case from_cache E cfg req (ss_world s) of
           (Panic p, w1) \<Rightarrow> (Panic p, s\<lparr>ss_rid := rid1, ss_world := w1\<rparr>)
         | (Ret (req1, Inl e), w1) \<Rightarrow> (Ret (Some e), s\<lparr>ss_rid := rid1, ss_world := w1\<rparr>)
         | (Ret (req1, Inr (Some resp)), w1) \<Rightarrow>
             (Ret None, client_send FromHandler \<lparr>rd_data = Some resp, rd_method = [], rd_subscription = False\<rparr>
                (s\<lparr>ss_rid := rid1, ss_world := w1\<rparr>))
         | (Ret (req1, Inr None), w1) \<Rightarrow>
             (let s1 = s\<lparr>ss_rid := rid1, ss_world := w1,
                         ss_requests := (ss_requests s)(IInt64 (up_id req1) \<mapsto> req1)\<rparr> in
              if request_type raw = RequestTypeErigon then
                (if ss_erigon s then (case write_json E ErigonConn raw s1 of (e, s2) \<Rightarrow> (Ret e, s2))
                 else (Panic ''nil pointer dereference'', s1))
              else (case write_json E MainConn raw s1 of (e, s2) \<Rightarrow> (Ret e, s2)))))"

text \<open>
  A frame of a node: one turn of the loop of \<^verbatim>\<open>run\<close>, or of the loop for the Erigon node.
  A reader that returns ends the connections only on the main one; the client's read then fails.
\<close>

definition stop_reading :: "ws_conn \<Rightarrow> ('w, 'x) session_scheme \<Rightarrow> ('w, 'x) session_scheme" where
  "stop_reading c s =
     (if c = MainConn then s\<lparr>ss_reading := (\<lambda>_. False), ss_ending := True\<rparr>
      else s\<lparr>ss_reading := (ss_reading s)(ErigonConn := False)\<rparr>)"

definition plain_resp :: "bytes \<Rightarrow> bool \<Rightarrow> resp_data" where
  "plain_resp b sub = \<lparr>rd_data = Some b, rd_method = [], rd_subscription = sub\<rparr>"

definition upstream_frame ::
  "('w, 'y) ws_env_scheme \<Rightarrow> proxy_config \<Rightarrow> ws_conn \<Rightarrow> bytes \<Rightarrow> ('w, 'x) session_scheme \<Rightarrow>
   unit outcome \<times> ('w, 'x) session_scheme" where
  "upstream_frame E cfg c raw s =
     (let rawresp = trim_space raw in
      if rawresp = [] then (Panic ''index out of range'', s)
      else if hd rawresp = CHR ''['' \<and> last rawresp = CHR '']'' then
        (Ret (), client_send (FromNode c) (plain_resp rawresp False) s)
      else case unmarshal_response rawresp of
        None \<Rightarrow> (Ret (), stop_reading c s)
      | Some ur \<Rightarrow>
          (let rid = IAny (ur_id ur) in
           if rid = IInt 0 then (Ret (), client_send (FromNode c) (plain_resp rawresp True) s)
           else if \<not> hashable rid then (Panic ''hash of unhashable type'', s)
           else
             (let s1 = (case ss_requests s rid of
                          None \<Rightarrow> s
                        | Some req \<Rightarrow>
                            s\<lparr>ss_requests := (ss_requests s)(rid := None),
                              ss_world := store_result E cfg (up_cache_key req) (ur_result ur) (ss_world s)\<rparr>)
              in (Ret (), client_send (FromNode c) (plain_resp rawresp False) s1))))"

section \<open>handleWs\<close>

text \<open>Dialling: the error, or whether there is an Erigon connection.\<close>

definition new_upstream_ws :: "('w, 'y) ws_env_scheme \<Rightarrow> proxy_config \<Rightarrow> 'w \<Rightarrow> (gerr + bool) \<times> 'w" where
  "new_upstream_ws E cfg w =
     (case ws_connect E (ws_upstream cfg) w of
        (Some e, w1) \<Rightarrow> (Inl e, w1)
      | (None, w1) \<Rightarrow>
          if ws_erigon_upstream cfg = [] then (Inr False, w1)
          else (case ws_connect E (ws_erigon_upstream cfg) w1 of
                  (Some e, w2) \<Rightarrow> (Inl e, w2)
                | (None, w2) \<Rightarrow> (Inr True, w2)))"

definition open_ws ::
  "('w, 'y) ws_env_scheme \<Rightarrow> json_handler \<Rightarrow> http_request \<Rightarrow> 'w pstate \<Rightarrow> (gerr + 'w session) \<times> 'w" where
  "open_ws E h q st =
     (let (rid, w) = st in
      case bind_api_key q of
        Inl e \<Rightarrow> (Inl e, w)
      | Inr api_key \<Rightarrow>
      (case ws_upgrade E w of
         (Some e, w1) \<Rightarrow> (Inl e, w1)
       | (None, w1) \<Rightarrow>
      (case new_upstream_ws E (h_proxy h) w1 of
         (Inl e, w2) \<Rightarrow> (Inl e, w2)
       | (Inr erigon, w2) \<Rightarrow>
           (Inr \<lparr>ss_key = api_key, ss_rid = rid, ss_world = w2, ss_erigon = erigon, ss_closed = False,
              ss_requests = Map.empty, ss_pending = Map.empty, ss_writing = True,
              ss_reading = (\<lambda>c. c = MainConn \<or> erigon), ss_ending = False\<rparr>, w2))))"

text \<open>
  \<^verbatim>\<open>Ws\<close>, the endpoint: an error of \<^verbatim>\<open>handleWs\<close> is logged, and echo is told that there was none.
\<close>

definition Ws ::
  "('w, 'y) ws_env_scheme \<Rightarrow> json_handler \<Rightarrow> http_request \<Rightarrow> 'w pstate \<Rightarrow> gerr option \<times> 'w session option \<times> 'w" where
  "Ws E h q st =
     (case open_ws E h q st of
        (Inl e, w) \<Rightarrow> (None, None, w)
      | (Inr s, w) \<Rightarrow> (None, Some s, w))"

definition resp_json :: "rpc_error \<Rightarrow> ('w, 'x) session_scheme \<Rightarrow> ('w, 'x) session_scheme" where
  "resp_json e s =
     s\<lparr>ss_pending := (ss_pending s)(FromHandler \<mapsto>
         \<lparr>rd_data = marshal_error e, rd_method = [], rd_subscription = False\<rparr>)\<rparr>"

text \<open>A frame of the client: one turn of the handler's loop.\<close>

definition client_frame ::
  "('w, 'y) ws_env_scheme \<Rightarrow> json_handler \<Rightarrow> bytes \<Rightarrow> ('w, 'x) session_scheme \<Rightarrow> unit outcome \<times> ('w, 'x) session_scheme" where
  "client_frame E h rawreq s =
     (case bind E h (ss_key s) rawreq (ws_black_methods h) (erigon_methods h) (ss_world s) of
        (Panic p, w1) \<Rightarrow> (Panic p, s\<lparr>ss_world := w1\<rparr>)
      | (Ret (Inl v_err), w1) \<Rightarrow> (Ret (), resp_json v_err (s\<lparr>ss_world := w1\<rparr>))
      | (Ret (Inr req), w1) \<Rightarrow>
      (case rate_limit E h (ss_key s) (cost req) w1 of
         (Some rl_err, w2) \<Rightarrow> (Ret (), resp_json rl_err (s\<lparr>ss_world := w2\<rparr>))
       | (None, w2) \<Rightarrow>
      (case ws_proxy_send E (h_proxy h) req (s\<lparr>ss_world := w2\<rparr>) of
         (Panic p, s3) \<Rightarrow> (Panic p, s3)
       | (Ret None, s3) \<Rightarrow> (Ret (), s3)
       | (Ret (Some e), s3) \<Rightarrow> (Ret (), (resp_json (new_internal_server_error None) s3)\<lparr>ss_ending := True\<rparr>))))"

text \<open>The writer takes a pending message: one turn of its loop.\<close>

definition write_response ::
  "('w, 'y) ws_env_scheme \<Rightarrow> json_handler \<Rightarrow> string \<Rightarrow> resp_data \<Rightarrow> ('w, 'x) session_scheme \<Rightarrow> ('w, 'x) session_scheme" where
  "write_response E h uri d s =
     (case rd_data d of
        None \<Rightarrow> s\<lparr>ss_writing := False\<rparr>
      | Some b \<Rightarrow>
          (let meth = (if str_contains b ''node_info'' then ''status'' else rd_method d);
               new_data = (case clear_info uri b meth of Inl e \<Rightarrow> [] | Inr b' \<Rightarrow> b')
           in case ws_reply E new_data (ss_world s) of
                (Some e, w1) \<Rightarrow> s\<lparr>ss_world := w1, ss_writing := False\<rparr>
              | (None, w1) \<Rightarrow>
                  if rd_subscription d then
                    (case rate_limit E h (ss_key s) 1 w1 of
                       (None, w2) \<Rightarrow> s\<lparr>ss_world := w2\<rparr>
                     | (Some e, w2) \<Rightarrow> s\<lparr>ss_world := w2, ss_writing := False\<rparr>)
                  else s\<lparr>ss_world := w1\<rparr>))"

text \<open>
  The handler returns: the client is marked closed and the channel is closed; a sender that still
  waits there panics, and recovers.
\<close>

definition leave_ws :: "('w, 'x) session_scheme \<Rightarrow> ('w, 'x) session_scheme" where
  "leave_ws s = s\<lparr>ss_closed := True, ss_pending := Map.empty, ss_writing := False, ss_reading := (\<lambda>_. False), ss_ending := True\<rparr>"

text \<open>Runs of a session, until it ends or a goroutine panics.  Other sessions move the world and the counter.\<close>

inductive ws_run ::
  "('w, 'y) ws_env_scheme \<Rightarrow> json_handler \<Rightarrow> string \<Rightarrow> ('w, 'x) session_scheme \<Rightarrow> ('w, 'x) session_scheme \<Rightarrow> bool"
  for E h uri s0 where
  opened: "ws_run E h uri s0 s0"
| client: "ws_run E h uri s0 s \<Longrightarrow> \<not> ss_ending s \<Longrightarrow> ss_pending s FromHandler = None \<Longrightarrow>
     client_frame E h rawreq s = (Ret (), s1) \<Longrightarrow> ws_run E h uri s0 s1"
| node: "ws_run E h uri s0 s \<Longrightarrow> ss_reading s c \<Longrightarrow> ss_pending s (FromNode c) = None \<Longrightarrow>
     upstream_frame E (h_proxy h) c rawresp s = (Ret (), s1) \<Longrightarrow> ws_run E h uri s0 s1"
| writer: "ws_run E h uri s0 s \<Longrightarrow> ss_writing s \<Longrightarrow> ss_pending s who = Some d \<Longrightarrow>
     ws_run E h uri s0 (write_response E h uri d (s\<lparr>ss_pending := (ss_pending s)(who := None)\<rparr>))"
| leave: "ws_run E h uri s0 s \<Longrightarrow> ws_run E h uri s0 (leave_ws s)"
| outside: "ws_run E h uri s0 s \<Longrightarrow> ws_run E h uri s0 (s\<lparr>ss_rid := r, ss_world := w\<rparr>)"

section \<open>An invariant of sessions\<close>

text \<open>No message is marked as a notification, and the requests wait under \<^verbatim>\<open>int64\<close> keys.\<close>

definition unmarked :: "('w, 'x) session_scheme \<Rightarrow> bool" where
  "unmarked s \<longleftrightarrow> (\<forall>who d. ss_pending s who = Some d \<longrightarrow> \<not> rd_subscription d) \<and> (\<forall>a. ss_requests s (IAny a) = None)"

lemma unmarked_opened: "open_ws E h q st = (Inr s, w) \<Longrightarrow> unmarked s"
  by (auto simp: open_ws_def unmarked_def split: prod.splits sum.splits option.splits)

lemma unmarked_client_send: "unmarked s \<Longrightarrow> \<not> rd_subscription d \<Longrightarrow> unmarked (client_send who d s)"
  by (auto simp: unmarked_def client_send_def)

lemma unmarked_resp_json: "unmarked s \<Longrightarrow> unmarked (resp_json e s)"
  by (auto simp: unmarked_def resp_json_def)

lemma unmarked_simps [simp]:
  "unmarked (s\<lparr>ss_world := w\<rparr>) = unmarked s" "unmarked (s\<lparr>ss_rid := r\<rparr>) = unmarked s"
  "unmarked (s\<lparr>ss_ending := b\<rparr>) = unmarked s" "unmarked (s\<lparr>ss_writing := b\<rparr>) = unmarked s"
  "unmarked (s\<lparr>ss_reading := f\<rparr>) = unmarked s"
  by (simp_all add: unmarked_def)

lemma write_json_session: "write_json E c req s = (e, s1) \<Longrightarrow> \<exists>w. s1 = s\<lparr>ss_world := w\<rparr>"
  by (auto simp: write_json_def split: option.splits prod.splits intro: exI [of _ "ss_world s"])

lemma unmarked_write_json: "write_json E c req s = (e, s1) \<Longrightarrow> unmarked s1 = unmarked s"
  by (drule write_json_session) auto

lemma unmarked_proxy_send:
  assumes "ws_proxy_send E cfg raw s = (x, s1)" "unmarked s"
  shows "unmarked s1"
proof -
  have "unmarked (s\<lparr>ss_rid := r, ss_world := w, ss_requests := (ss_requests s)(IInt64 k \<mapsto> v)\<rparr>)" for r w k v
    using assms(2) by (simp add: unmarked_def)
  then show ?thesis
    using assms
    by (auto simp: ws_proxy_send_def Let_def dest!: unmarked_write_json intro!: unmarked_client_send
        split: prod.splits outcome.splits sum.splits option.splits if_splits)
qed

lemma unmarked_client_frame: "client_frame E h raw s = (x, s1) \<Longrightarrow> unmarked s \<Longrightarrow> unmarked s1"
  by (auto simp: client_frame_def dest!: unmarked_proxy_send intro!: unmarked_resp_json
      split: prod.splits outcome.splits sum.splits option.splits)

text \<open>A node's frame finds no request, whatever its id.\<close>

lemma upstream_frame_unmarked:
  assumes "upstream_frame E cfg c raw s = (x, s1)" "unmarked s"
  shows "unmarked s1 \<and> ss_world s1 = ss_world s \<and> ss_requests s1 = ss_requests s"
proof -
  have none: "ss_requests s (IAny a) = None" for a using assms(2) by (simp add: unmarked_def)
  have sent: "unmarked (client_send (FromNode c) (plain_resp b False) s) \<and>
      ss_world (client_send (FromNode c) (plain_resp b False) s) = ss_world s \<and>
      ss_requests (client_send (FromNode c) (plain_resp b False) s) = ss_requests s" for b
    using unmarked_client_send [OF assms(2), of "plain_resp b False"] by (simp add: client_send_def plain_resp_def)
  show ?thesis
    using assms sent by (auto simp: upstream_frame_def Let_def none stop_reading_def split: if_splits option.splits)
qed

lemma unmarked_write_response: "unmarked s \<Longrightarrow> unmarked (write_response E h uri d s)"
  by (auto simp: write_response_def Let_def split: option.split prod.split)

lemma unmarked_run: "ws_run E h uri s0 s \<Longrightarrow> unmarked s0 \<Longrightarrow> unmarked s"
proof (induction rule: ws_run.induct)
  case (client s rawreq s1)
  then show ?case using unmarked_client_frame by blast
next
  case (node s c rawresp s1)
  then show ?case using upstream_frame_unmarked by blast
next
  case (writer s who d)
  then have "unmarked (s\<lparr>ss_pending := (ss_pending s)(who := None)\<rparr>)" by (auto simp: unmarked_def)
  then show ?case by (rule unmarked_write_response)
next
  case (leave s)
  then show ?case by (simp add: leave_ws_def unmarked_def)
qed simp_all

text \<open>A client whose key is not read is told nothing: nothing is written, and echo gets no error.\<close>

lemma Ws_hides_errors: "bind_api_key q = Inl e \<Longrightarrow> Ws E h q (rid, w) = (None, None, w)"
  by (simp add: Ws_def open_ws_def)

section \<open>Properties\<close>

text \<open>
  C16. What a node sends is neither charged nor cached.  In every run of a session no message is
  marked as a subscription's notification, so the writer charges for none; and no frame of a node
  finds the request it answers, so none is cached and the table of waiting requests is never
  emptied.  (The id of a decoded reply is never the \<^verbatim>\<open>int\<close> 0, nor an \<^verbatim>\<open>int64\<close>.)
\<close>

theorem notifications_are_never_charged:
  assumes "open_ws E h q st = (Inr s0, w0)" "ws_run E h uri s0 s"
  shows "(\<forall>who d. ss_pending s who = Some d \<longrightarrow>
       \<not> rd_subscription d \<and>
       ss_world (write_response E h uri d s) \<in> insert (ss_world s) (range (\<lambda>b. snd (ws_reply E b (ss_world s))))) \<and>
    (\<forall>c raw x s1. upstream_frame E (h_proxy h) c raw s = (x, s1) \<longrightarrow>
       ss_world s1 = ss_world s \<and> ss_requests s1 = ss_requests s)"
proof -
  have u: "unmarked s" using assms(2) unmarked_opened [OF assms(1)] by (rule unmarked_run)
  have "ss_world (write_response E h uri d s) \<in> insert (ss_world s) (range (\<lambda>b. snd (ws_reply E b (ss_world s))))"
    if "\<not> rd_subscription d" for d
  proof (cases "rd_data d")
    case None
    then show ?thesis by (simp add: write_response_def)
  next
    case (Some b)
    obtain e w1 where "ws_reply E (case clear_info uri b (if str_contains b ''node_info'' then ''status'' else rd_method d) of
        Inl e \<Rightarrow> [] | Inr b' \<Rightarrow> b') (ss_world s) = (e, w1)" by fastforce
    then show ?thesis
      using that Some by (auto simp: write_response_def Let_def image_iff split: option.split) (metis snd_conv)+
  qed
  moreover have "\<forall>who d. ss_pending s who = Some d \<longrightarrow> \<not> rd_subscription d" using u by (simp add: unmarked_def)
  moreover have "\<forall>c raw x s1. upstream_frame E (h_proxy h) c raw s = (x, s1) \<longrightarrow>
       ss_world s1 = ss_world s \<and> ss_requests s1 = ss_requests s"
    using upstream_frame_unmarked u by blast
  ultimately show ?thesis by blast
qed

text \<open>A session of the example handler.\<close>

definition demo_ws_env :: "bytes \<Rightarrow> demo_world ws_env" where
  "demo_ws_env reply =
     gateway_env.extend (demo_env reply)
       (ws_env.fields (\<lambda>w. (None, w)) (\<lambda>url w. (None, w)) (\<lambda>c b w. (None, w\<lparr>sent := (''node'', b) # sent w\<rparr>))
          (\<lambda>b w. (None, w\<lparr>sent := (''client'', b) # sent w\<rparr>)))"

definition demo_session :: "demo_world session" where
  "demo_session =
     \<lparr>ss_key = ''k'', ss_rid = 0, ss_world = demo_start, ss_erigon = True, ss_closed = False,
      ss_requests = Map.empty, ss_pending = Map.empty, ss_writing = True, ss_reading = (\<lambda>c. True), ss_ending = False\<rparr>"

lemma demo_session_opens:
  "open_ws (demo_ws_env reply) demo_handler (demo_request ''/ws/eth/v1/k'' []) (0, demo_start) = (Inr demo_session, demo_start)"
proof -
  have "bind_api_key (demo_request ''/ws/eth/v1/k'' []) = Inr ''k''" by code_simp
  then show ?thesis
    by (auto simp: open_ws_def new_upstream_ws_def demo_ws_env_def ws_env.defs gateway_env.defs demo_handler_def
        demo_cfg_def demo_session_def fun_eq_iff intro: ws_conn.exhaust)
qed

text \<open>A notification of a subscription.\<close>

definition demo_notification :: bytes where
  \<open>demo_notification = ''{"method":"eth_subscription"}''\<close>

theorem notifications_are_never_charged_witness:
  "\<exists>s d. ws_run (demo_ws_env []) demo_handler ''/ws/eth/v1/k'' demo_session s \<and>
     ss_pending s (FromNode MainConn) = Some d \<and> rd_data d = Some demo_notification \<and> \<not> rd_subscription d"
proof -
  let ?E = "demo_ws_env []"
  have "trim_space demo_notification = demo_notification" "hd demo_notification \<noteq> CHR ''[''"
    "demo_notification \<noteq> []" "map_option ur_id (unmarshal_response demo_notification) = Some ANil"
    by code_simp+
  then have f: "upstream_frame ?E (h_proxy demo_handler) MainConn demo_notification demo_session =
      (Ret (), client_send (FromNode MainConn) (plain_resp demo_notification False) demo_session)"
    by (auto simp: upstream_frame_def Let_def demo_session_def)
  let ?s = "client_send (FromNode MainConn) (plain_resp demo_notification False) demo_session"
  have run: "ws_run ?E demo_handler ''/ws/eth/v1/k'' demo_session ?s"
    by (rule ws_run.node [OF ws_run.opened _ _ f]) (simp_all add: demo_session_def)
  have p: "ss_pending ?s (FromNode MainConn) = Some (plain_resp demo_notification False)"
    by (simp add: client_send_def demo_session_def)
  have "\<not> rd_subscription (plain_resp demo_notification False)"
    using notifications_are_never_charged [OF demo_session_opens run] p by blast
  then show ?thesis using run p by (auto simp: plain_resp_def)
qed



text \<open>An Erigon call in a session without an Erigon connection.\<close>

lemma erigon_call_without_connection:
  assumes "\<not> ss_erigon s" "batch_call raw = None" "single_call raw = Some r" "request_type raw = RequestTypeErigon"
    and "\<not> In (rq_method r) (cacheable_methods cfg)"
  shows "\<exists>s1. ws_proxy_send E cfg raw s = (Panic ''nil pointer dereference'', s1)"
  using assms by (simp add: ws_proxy_send_def is_batch_call_def from_request_def from_cache_def Let_def)

lemma open_ws_erigon:
  "open_ws E h q st = (Inr s, w) \<Longrightarrow> ss_erigon s \<longleftrightarrow> ws_erigon_upstream (h_proxy h) \<noteq> []"
  by (auto simp: open_ws_def new_upstream_ws_def split: prod.splits sum.splits option.splits if_splits)

text \<open>A session does not gain or lose its Erigon connection.\<close>

lemma write_json_erigon: "write_json E c req s = (e, s1) \<Longrightarrow> ss_erigon s1 = ss_erigon s"
  by (drule write_json_session) auto

lemma ws_proxy_send_erigon: "ws_proxy_send E cfg raw s = (x, s1) \<Longrightarrow> ss_erigon s1 = ss_erigon s"
  by (auto simp: ws_proxy_send_def Let_def client_send_def dest!: write_json_erigon
      split: prod.splits outcome.splits sum.splits option.splits if_splits)

lemma client_frame_erigon: "client_frame E h raw s = (x, s1) \<Longrightarrow> ss_erigon s1 = ss_erigon s"
  by (auto simp: client_frame_def resp_json_def dest!: ws_proxy_send_erigon
      split: prod.splits outcome.splits sum.splits option.splits)

lemma upstream_frame_erigon: "upstream_frame E cfg c raw s = (x, s1) \<Longrightarrow> ss_erigon s1 = ss_erigon s"
  by (auto simp: upstream_frame_def Let_def client_send_def stop_reading_def split: if_splits option.splits)

lemma write_response_erigon: "ss_erigon (write_response E h uri d s) = ss_erigon s"
  by (auto simp: write_response_def Let_def split: option.split prod.split)

lemma ws_run_erigon: "ws_run E h uri s0 s \<Longrightarrow> ss_erigon s = ss_erigon s0"
proof (induction rule: ws_run.induct)
  case (client s rawreq s1)
  then show ?case using client_frame_erigon by metis
next
  case (node s c rawresp s1)
  then show ?case using upstream_frame_erigon by metis
qed (simp_all add: leave_ws_def write_response_erigon)

end
