(* ===== verification/Quota.thy ===== *)
theory Quota
  imports WsProxy
begin

text \<open>
  The daily quota from end to end.  Requests of any keys to any chains' handlers, over HTTP,
  Tendermint and WebSockets, are served one after another, with failing Redis commands and failing
  nodes; the calls of one key on one chain that are answered or reach a node during a day stay within
  its quota.
\<close>

section \<open>What the handlers leave alone\<close>

definition untouched ::
  "('w \<Rightarrow> string \<Rightarrow> int option) \<Rightarrow> ('w \<Rightarrow> string \<Rightarrow> string option) \<Rightarrow> string set \<Rightarrow> 'w \<Rightarrow> 'w \<Rightarrow> bool" where
  "untouched cval ctext S w w' \<longleftrightarrow> (\<forall>i \<in> S. cval w' i = cval w i \<and> ctext w' i = ctext w i)"

lemma untouched_refl [intro, simp]: "untouched cval ctext S w w"
  by (simp add: untouched_def)

lemma untouched_trans [trans]:
  "untouched cval ctext S w w1 \<Longrightarrow> untouched cval ctext S w1 w2 \<Longrightarrow> untouched cval ctext S w w2"
  by (simp add: untouched_def)

definition day_key :: "nat \<Rightarrow> string \<Rightarrow> nat \<Rightarrow> string" where
  "day_key c k d = day_rate_limit_key (show_nat c) (hash_tag k) (show_nat d)"

definition quota_key :: "nat \<Rightarrow> string \<Rightarrow> string" where
  "quota_key c k = day_quota_key (show_nat c) (hash_tag k)"

definition limiter_keys :: "nat \<Rightarrow> string \<Rightarrow> string set" where
  "limiter_keys c k = insert (sec_rate_limit_key (show_nat c) (hash_tag k)) (range (day_key c k))"

definition cache_keys :: "string set" where
  "cache_keys = {rpc_cache_key c m p |c m p. True} \<union> {tendermint_cache_key c m q |c m q. True}"

lemma cache_keys_intros [simp, intro]:
  "rpc_cache_key c m p \<in> cache_keys" "tendermint_cache_key c m q \<in> cache_keys"
  unfolding cache_keys_def by blast+

lemma cache_keys_free:
  "S \<inter> cache_keys = {} \<Longrightarrow> rpc_cache_key c m p \<notin> S"
  "S \<inter> cache_keys = {} \<Longrightarrow> tendermint_cache_key c m q \<notin> S"
  using cache_keys_intros by blast+

text \<open>The keys of one key's day are neither another's nor the cache's.\<close>

lemma quota_keys_apart:
  "{day_key c k d, quota_key c k} \<inter> cache_keys = {}"
  "(c', k') \<noteq> (c, k) \<Longrightarrow> {day_key c k d, quota_key c k} \<inter> limiter_keys c' k' = {}"
proof -
  show "{day_key c k d, quota_key c k} \<inter> cache_keys = {}"
    by (auto simp: cache_keys_def day_key_def quota_key_def rpc_cache_key_def tendermint_cache_key_def
        day_rate_limit_key_def day_quota_key_def)
qed (auto simp: limiter_keys_def day_key_def quota_key_def key_simps)

definition stat_keys :: "('w, 'x) limiter_env_scheme \<Rightarrow> string set" where
  "stat_keys E =
     {key_erigon_total E} \<union> {key_chain_hour E c t |c t. True} \<union> {key_chain_day E c t |c t. True} \<union>
     range (key_total_hour E) \<union> range (key_total_day E)"

text \<open>
  A relation that the commands respect, as long as they write to no key of a set: what holds of the
  limiter, of the checks of a request and of a look into the cache follows command by command.
\<close>

locale command_frame =
  fixes E :: "('w, 'x) gateway_env_scheme" and S :: "string set" and R :: "'w \<Rightarrow> 'w \<Rightarrow> bool"
  assumes same: "R w w"
    and steps: "R w w1 \<Longrightarrow> R w1 w2 \<Longrightarrow> R w w2"
    and get_step: "rd_get E j w = (x1, w') \<Longrightarrow> R w w'"
    and incrby_step: "rd_incrby E j n w = (x2, w') \<Longrightarrow> j \<notin> S \<Longrightarrow> R w w'"
    and decrby_step: "rd_decrby E j n w = (x3, w') \<Longrightarrow> j \<notin> S \<Longrightarrow> R w w'"
    and expire_step: "rd_expire E j t w = (x4, w') \<Longrightarrow> j \<notin> S \<Longrightarrow> R w w'"
    and now_step: "now E w = (t', w') \<Longrightarrow> R w w'"
    and eval_step: "rd_eval E f w = (x5, w') \<Longrightarrow> R w (snd (f w)) \<Longrightarrow> R w w'"
begin

lemma increase_kept: "j \<notin> S \<Longrightarrow> R w (increase_and_set_expire E j n t w)"
proof -
  assume j: "j \<notin> S"
  obtain x w1 where i: "rd_incrby E j n w = (x, w1)" by (cases "rd_incrby E j n w")
  obtain y w2 where e: "rd_expire E j t w1 = (y, w2)" by (cases "rd_expire E j t w1")
  show ?thesis
    using incrby_step [OF i j] steps [OF incrby_step [OF i j] expire_step [OF e j]] i e
    by (auto simp: increase_and_set_expire_def split: sum.split)
qed

lemma count_allowed_kept: "S \<inter> stat_keys E = {} \<Longrightarrow> R w (count_allowed E c t n w)"
proof -
  assume S: "S \<inter> stat_keys E = {}"
  have "{key_chain_hour E c t, key_chain_day E c t, key_total_hour E t, key_total_day E t} \<subseteq> stat_keys E"
    by (auto simp: stat_keys_def)
  then have k: "key_chain_hour E c t \<notin> S" "key_chain_day E c t \<notin> S" "key_total_hour E t \<notin> S" "key_total_day E t \<notin> S"
    using S by blast+
  show ?thesis
    unfolding count_allowed_def Let_def
    by (rule steps [OF steps [OF steps [OF increase_kept increase_kept] increase_kept] increase_kept]) (rule k)+
qed

lemma erigon_count_kept: "S \<inter> stat_keys E = {} \<Longrightarrow> R w (erigon_count E n w)"
proof -
  assume "S \<inter> stat_keys E = {}"
  moreover have "key_erigon_total E \<in> stat_keys E" by (simp add: stat_keys_def)
  ultimately have "key_erigon_total E \<notin> S" by blast
  then show ?thesis
    unfolding erigon_count_def by (cases "rd_incrby E (key_erigon_total E) n w") (auto dest: incrby_step)
qed

text \<open>The script.\<close>

lemma lua_count_kept:
  assumes "lua_count E j n t w = (r, w')" "j \<notin> S"
  shows "R w w'"
  using assms(1)
  by (auto simp: lua_count_def split: prod.splits sum.splits if_splits
      dest!: incrby_step [OF _ assms(2)] expire_step [OF _ assms(2)] intro: steps)

lemma lua_quota_kept: "lua_quota E tn j w = (r, w') \<Longrightarrow> R w w'"
  by (auto simp: lua_quota_def split: prod.splits sum.splits dest!: get_step)

lemma lua_day_part_kept:
  assumes "lua_day_part E tn a ch day n rv w = (r, w')" "day_rate_limit_key ch a day \<notin> S"
  shows "R w w'"
  using assms(1)
  by (auto simp: lua_day_part_def split: prod.splits sum.splits option.splits if_splits
      dest!: lua_quota_kept lua_count_kept [OF _ assms(2)] decrby_step [OF _ assms(2)]
      intro: steps)

lemma lua_ratelimit_kept:
  assumes "lua_ratelimit E tn a ch day n rv w = (r, w')" "day_rate_limit_key ch a day \<notin> S" "sec_rate_limit_key ch a \<notin> S"
  shows "R w w'"
  using assms(1)
  by (auto simp: lua_ratelimit_def split: prod.splits sum.splits option.splits if_splits
      dest!: lua_quota_kept lua_count_kept [OF _ assms(3)] lua_day_part_kept [OF _ assms(2)]
      intro: steps)

lemma redis_allow_kept:
  assumes "redis_allow E c k t n rv w = (r, w')" "S \<inter> limiter_keys c k = {}"
  shows "R w w'"
proof (cases "0 < n")
  case False
  then show ?thesis using assms(1) same by (simp add: redis_allow_def)
next
  case True
  let ?f = "lua_ratelimit E (tonum E) (hash_tag k) (show_nat c) (show_nat (tm_day t)) n (if rv then ''1'' else ''0'')"
  have ev: "rd_eval E ?f w = (r, w')" using assms(1) True by (simp add: redis_allow_def)
  obtain x v where f: "?f w = (x, v)" by (cases "?f w")
  have "day_rate_limit_key (show_nat c) (hash_tag k) (show_nat (tm_day t)) \<notin> S"
    "sec_rate_limit_key (show_nat c) (hash_tag k) \<notin> S"
    using assms(2) by (auto simp: limiter_keys_def day_key_def)
  then have "R w (snd (?f w))" using lua_ratelimit_kept [OF f] by (simp add: f)
  then show ?thesis by (rule eval_step [OF ev])
qed

text \<open>Charging a request.\<close>

lemma allow_whitelist_kept:
  assumes "allow_whitelist E wl c k n w = (r, w')" "S \<inter> limiter_keys c k = {}"
  shows "R w w'"
proof (cases "k \<in> set wl")
  case False
  then show ?thesis using assms(1) same by (simp add: allow_whitelist_def check_in_white_list_iff)
next
  case True
  obtain t w1 where t: "now E w = (t, w1)" by (cases "now E w")
  let ?j = "whitelist_day_key c k t"
  have j: "?j \<notin> S"
    using assms(2) by (auto simp: whitelist_day_key_eq limiter_keys_def day_key_def)
  have w1: "R w w1" using t by (rule now_step)
  show ?thesis
    using assms(1) True t steps [OF w1 incrby_step [OF _ j]]
      steps [OF w1 steps [OF incrby_step [OF _ j] expire_step [OF _ j]]]
    by (auto simp: allow_whitelist_def check_in_white_list_iff Let_def split: prod.splits sum.splits if_splits)
qed

lemma rate_limit_kept:
  assumes "rate_limit E h k n w = (r, w')" "S \<inter> limiter_keys (h_chain_id h) k = {}" "S \<inter> stat_keys E = {}"
  shows "R w w'"
proof -
  obtain b w1 where b: "allow_whitelist E (h_whitelist h) (h_chain_id h) k n w = (b, w1)"
    by (cases "allow_whitelist E (h_whitelist h) (h_chain_id h) k n w")
  have w1: "R w w1" using allow_whitelist_kept [OF b assms(2)] .
  obtain t w2 where t: "now E w1 = (t, w2)" by (cases "now E w1")
  have w2: "R w w2" using w1 now_step [OF t] by (rule steps)
  obtain x w3 where x: "redis_allow E (h_chain_id h) k t n True w2 = (x, w3)"
    by (cases "redis_allow E (h_chain_id h) k t n True w2")
  have w3: "R w w3" using w2 redis_allow_kept [OF x assms(2)] by (rule steps)
  have w4: "R w (count_allowed E (h_chain_id h) t n w3)"
    using w3 count_allowed_kept [OF assms(3)] by (rule steps)
  show ?thesis
    using assms(1) b t x w1 w3 w4
    by (auto simp: rate_limit_def allow_def Let_def
        split: prod.splits option.splits bool.splits sum.splits if_splits limit_error.splits)
qed

lemma charge_kept:
  assumes "charge_with E h price (k, a) s = (r, s')" "S \<inter> limiter_keys (h_chain_id h) k = {}" "S \<inter> stat_keys E = {}"
  shows "R (snd s) (snd s')"
  using assms(1) rate_limit_kept [OF _ assms(2,3)] by (auto simp: charge_with_def split: prod.splits)

text \<open>Checking a request.\<close>

lemma bind_batch_kept:
  assumes "S \<inter> stat_keys E = {}"
  shows "bind_batch E n black erigon rs ty w = (r, w') \<Longrightarrow> R w w'"
proof (induction rs arbitrary: ty w)
  case (Cons a rs)
  show ?case
    using Cons.prems Cons.IH steps [of w "erigon_count E n w" w'] erigon_count_kept [OF assms] same
    by (auto split: option.splits if_splits)
qed (simp add: same)

lemma bind_kept:
  assumes "bind E h k raw black erigon w = (r, w')" "S \<inter> stat_keys E = {}"
  shows "R w w'"
  using assms(1) erigon_count_kept [OF assms(2)] bind_batch_kept [OF assms(2)] same
  by (auto simp: bind_def Let_def split: option.splits prod.splits sum.splits if_splits)

lemma admit_http_kept:
  "admit_http E h r s = (y, s1) \<Longrightarrow> S \<inter> stat_keys E = {} \<Longrightarrow> R (snd s) (snd s1)"
  using bind_kept [of h _ _ _ _ "snd s"] same
  by (auto simp: admit_http_def split: outcome.splits sum.splits prod.splits)

lemma admit_tendermint_kept: "admit_tendermint h r s = (y, s1) \<Longrightarrow> R (snd s) (snd s1)"
  using same by (auto simp: admit_tendermint_def split: outcome.splits sum.splits)

lemma from_cache_kept: "from_cache E cfg req w = (x, w') \<Longrightarrow> R w w'"
  using get_step same
  by (auto simp: from_cache_def Let_def split: option.splits prod.splits sum.splits if_splits)

end

text \<open>
  What a command may do when it fails, or when its reply is lost: it was run or it was not, and
  it touches no key but its own.  Talking to a node leaves Redis alone, and the keys of the
  statistics are not the limiter's.
\<close>

locale gateway_contract =
  limiter_contract E cval ctext cttl
  for E :: "('w, 'x) gateway_env_scheme"
    and cval :: "'w \<Rightarrow> string \<Rightarrow> int option"
    and ctext :: "'w \<Rightarrow> string \<Rightarrow> string option"
    and cttl :: "'w \<Rightarrow> string \<Rightarrow> int option" +
  assumes get_frame: "rd_get E j w = (x1, w') \<Longrightarrow> untouched cval ctext UNIV w w'"
    and incrby_frame: "rd_incrby E j n w = (r, w') \<Longrightarrow>
      untouched cval ctext (- {j}) w w' \<and> counter_of cval w' j \<in> {counter_of cval w j, counter_of cval w j + n}"
    and decrby_frame: "rd_decrby E j n w = (r, w') \<Longrightarrow>
      untouched cval ctext (- {j}) w w' \<and> counter_of cval w' j \<in> {counter_of cval w j, counter_of cval w j - n}"
    and expire_frame: "rd_expire E j s w = (x4, w') \<Longrightarrow>
      untouched cval ctext (- {j}) w w' \<and> (0 < s \<longrightarrow> cval w' j = cval w j)"
    and set_frame: "rd_set E j v s w = (x, w') \<Longrightarrow> untouched cval ctext (- {j}) w w'"
    and eval_frame: "rd_eval E f w = (r, w') \<Longrightarrow>
      untouched cval ctext UNIV w w' \<or> untouched cval ctext UNIV (snd (f w)) w'"
    and post_frame: "http_post E url b w = (x3, w') \<Longrightarrow> untouched cval ctext UNIV w w'"
    and get_http_frame: "http_get E url w = (x2, w') \<Longrightarrow> untouched cval ctext UNIV w w'"
    and stat_keys_apart: "j \<in> stat_keys E \<Longrightarrow> j \<noteq> day_key c k d \<and> j \<noteq> quota_key c k"
begin

abbreviation kept :: "string set \<Rightarrow> 'w \<Rightarrow> 'w \<Rightarrow> bool" where
  "kept \<equiv> untouched cval ctext"

lemma kept_UNIV: "kept UNIV w w' \<Longrightarrow> kept S w w'"
  by (simp add: untouched_def)

lemma kept_but: "kept (- {j}) w w' \<Longrightarrow> j \<notin> S \<Longrightarrow> kept S w w'"
  by (auto simp: untouched_def)

text \<open>Commands on other keys.\<close>

lemma get_kept: "rd_get E j w = (r, w') \<Longrightarrow> kept S w w'"
  using get_frame kept_UNIV by blast

lemma set_kept: "rd_set E j v s w = (x, w') \<Longrightarrow> j \<notin> S \<Longrightarrow> kept S w w'"
  using set_frame kept_but by blast

lemma eval_preserves:
  assumes "rd_eval E f w = (r, w')" "P w" "P (snd (f w))" "\<And>v v'. kept UNIV v v' \<Longrightarrow> P v \<Longrightarrow> P v'"
  shows "P w'"
  using eval_frame [OF assms(1)] assms(2-4) by blast

lemma eval_kept: "rd_eval E f w = (r, w') \<Longrightarrow> kept S w (snd (f w)) \<Longrightarrow> kept S w w'"
  by (rule eval_preserves [where P = "kept S w"]) (assumption, rule untouched_refl, assumption, blast intro: untouched_trans kept_UNIV)

end

sublocale gateway_contract \<subseteq> frame: command_frame E S "untouched cval ctext S" for S
proof (unfold_locales, goal_cases)
  case (2 w w1 w2)
  then show ?case by (rule untouched_trans)
next
  case (4 j n w x2 w')
  then show ?case using incrby_frame kept_but by blast
next
  case (5 j n w x3 w')
  then show ?case using decrby_frame kept_but by blast
next
  case (6 j t w x4 w')
  then show ?case using expire_frame kept_but by blast
next
  case (7 w t' w')
  then show ?case using now_ok by (simp add: untouched_def)
qed (blast intro: get_kept eval_kept)+

section \<open>One key's day\<close>

text \<open>The quota is \<open>q\<close>, and of it \<open>m\<close> calls are used up and counted.\<close>

definition within_quota ::
  "('w, 'x) limiter_env_scheme \<Rightarrow> ('w \<Rightarrow> string \<Rightarrow> int option) \<Rightarrow> ('w \<Rightarrow> string \<Rightarrow> string option) \<Rightarrow>
   nat \<Rightarrow> string \<Rightarrow> nat \<Rightarrow> int \<Rightarrow> int \<Rightarrow> 'w \<Rightarrow> bool" where
  "within_quota E cval ctext c k d q m w \<longleftrightarrow>
     Option.bind (ctext w (quota_key c k)) (tonum E) = Some q \<and> m \<le> q \<and> m \<le> counter_of cval w (day_key c k d)"

context gateway_contract
begin

lemmas now_kept = frame.now_step
lemmas count_allowed_kept = frame.count_allowed_kept
lemmas lua_count_kept = frame.lua_count_kept
lemmas lua_quota_kept = frame.lua_quota_kept
lemmas rate_limit_kept = frame.rate_limit_kept
lemmas bind_kept = frame.bind_kept
lemmas admit_http_kept = frame.admit_http_kept
lemmas admit_tendermint_kept = frame.admit_tendermint_kept
lemmas from_cache_kept = frame.from_cache_kept

abbreviation within :: "nat \<Rightarrow> string \<Rightarrow> nat \<Rightarrow> int \<Rightarrow> int \<Rightarrow> 'w \<Rightarrow> bool" where
  "within \<equiv> within_quota E cval ctext"

lemma within_kept: "kept {day_key c k d, quota_key c k} w w' \<Longrightarrow> within c k d q m w \<Longrightarrow> within c k d q m w'"
  by (simp add: within_quota_def untouched_def counter_of_def)

lemma day_quota_keys_differ [simp]: "day_key c k d \<noteq> quota_key c' k'" "quota_key c' k' \<noteq> day_key c k d"
  by (simp_all add: day_key_def quota_key_def key_simps)

text \<open>The script's day part, however far it gets.\<close>

lemma lua_count_within:
  assumes "lua_count E (day_key c k d) n s w = (r, w')" "within c k d q m w" "0 < n" "0 < s"
  shows "within c k d q m w' \<and> (\<forall>v. r = Inr v \<longrightarrow> counter_of cval w' (day_key c k d) = v)"
proof -
  obtain x w1 where i: "rd_incrby E (day_key c k d) n w = (x, w1)" by (cases "rd_incrby E (day_key c k d) n w")
  have f: "kept (- {day_key c k d}) w w1"
    "counter_of cval w1 (day_key c k d) \<in> {counter_of cval w (day_key c k d), counter_of cval w (day_key c k d) + n}"
    using incrby_frame [OF i] by auto
  have w1: "within c k d q m w1" using f assms(2,3) by (auto simp: within_quota_def untouched_def)
  have v: "x = Inr v \<Longrightarrow> counter_of cval w1 (day_key c k d) = v" for v
    using incrby_ok [of "day_key c k d" n w v w1] i by (simp add: counter_of_def)
  obtain y w2 where e: "rd_expire E (day_key c k d) s w1 = (y, w2)" by (cases "rd_expire E (day_key c k d) s w1")
  have w2: "within c k d q m w2" "counter_of cval w2 (day_key c k d) = counter_of cval w1 (day_key c k d)"
    using expire_frame [OF e] assms(4) w1 by (auto simp: within_quota_def untouched_def counter_of_def)
  show ?thesis
    using assms(1) i e w1 w2 v by (auto simp: lua_count_def split: sum.splits if_splits)
qed

lemma lua_day_part_within:
  assumes "lua_day_part E (tonum E) (hash_tag k) (show_nat c) (show_nat d) n ''1'' w = (r, w')"
    and "within c k d q m w" "0 < n"
  shows "within c k d q m w'"
proof -
  obtain x w1 where x: "lua_quota E (tonum E) (quota_key c k) w = (x, w1)"
    by (cases "lua_quota E (tonum E) (quota_key c k) w")
  have w1: "within c k d q m w1" using within_kept [OF lua_quota_kept [OF x] assms(2)] .
  obtain y w2 where y: "lua_count E (day_key c k d) n 129600 w1 = (y, w2)"
    by (cases "lua_count E (day_key c k d) n 129600 w1")
  note w2 = lua_count_within [OF y w1 assms(3)]
  have q: "x = Inr (Some q') \<Longrightarrow> q' = q" for q'
    using lua_quota_ok [of "tonum E" "quota_key c k" w "Some q'" w1] x assms(2) by (auto simp: within_quota_def)
  have reverted: "within c k d q m w3"
    if "y = Inr v" "q < v" "rd_decrby E (day_key c k d) (v - q) w2 = (z, w3)" for v z w3
    using decrby_frame [OF that(3)] w2 that(1,2) by (auto simp: within_quota_def untouched_def)
  show ?thesis
    using assms(1) x y w1 w2 q reverted
    by (auto simp: lua_day_part_def day_key_def [symmetric] quota_key_def [symmetric]
        split: sum.splits option.splits if_splits prod.splits)
qed

lemma lua_ratelimit_within:
  assumes "lua_ratelimit E (tonum E) (hash_tag k) (show_nat c) (show_nat d) n ''1'' w = (r, w')"
    and "within c k d q m w" "0 < n"
  shows "within c k d q m w'"
proof -
  let ?sk = "sec_rate_limit_key (show_nat c) (hash_tag k)"
  have apart: "?sk \<notin> {day_key c k d, quota_key c k}" by (simp add: day_key_def quota_key_def key_simps)
  obtain x w1 where x: "lua_quota E (tonum E) (sec_quota_key (show_nat c) (hash_tag k)) w = (x, w1)"
    by (cases "lua_quota E (tonum E) (sec_quota_key (show_nat c) (hash_tag k)) w")
  obtain y w2 where y: "lua_count E ?sk n n w1 = (y, w2)" by (cases "lua_count E ?sk n n w1")
  have w1: "within c k d q m w1" using within_kept [OF lua_quota_kept [OF x] assms(2)] .
  have w2: "within c k d q m w2" using within_kept [OF lua_count_kept [OF y apart] w1] .
  show ?thesis
    using assms(1) x y w1 w2 lua_day_part_within [OF _ w2 assms(3)]
    by (auto simp: lua_ratelimit_def split: sum.splits option.splits if_splits)
qed

lemma redis_allow_within:
  assumes "redis_allow E c k t n True w = (r, w')" "within c k (tm_day t) q m w"
  shows "within c k (tm_day t) q (if r = Inr 1 then m + n else m) w'"
proof (cases "0 < n")
  case False
  then show ?thesis using assms by (auto simp: redis_allow_def split: if_splits)
next
  case True
  let ?f = "lua_ratelimit E (tonum E) (hash_tag k) (show_nat c) (show_nat (tm_day t)) n ''1''"
  have ev: "rd_eval E ?f w = (r, w')" using assms(1) True by (simp add: redis_allow_def)
  have "within c k (tm_day t) q m (snd (?f w))"
    by (cases "?f w") (simp add: lua_ratelimit_within [OF _ assms(2) True])
  then have m: "within c k (tm_day t) q m w'"
    using eval_preserves [where P = "within c k (tm_day t) q m", OF ev assms(2)] kept_UNIV within_kept by blast
  show ?thesis
  proof (cases "r = Inr 1")
    case one: True
    then have f: "?f w = (Inr 1, w')" using eval_ok ev by blast
    have "within c k (tm_day t) q (m + n) w'"
      using f True
    proof (cases rule: lua_ratelimit_cases)
      case (day sq w2)
      have c2: "counter_of cval w2 (day_key c k (tm_day t)) = counter_of cval w (day_key c k (tm_day t))"
        using day(3) by (simp add: counter_of_def day_key_def key_simps)
      show ?thesis
        using lua_day_part_allowed [OF day(6)] day(4) assms(2) c2 m
        by (auto simp: within_quota_def counter_of_def day_key_def [symmetric] quota_key_def [symmetric])
    qed simp_all
    then show ?thesis using one by simp
  qed (use m in simp)
qed

text \<open>Charging one request.\<close>

lemma stat_keys_free: "{day_key c k d, quota_key c k} \<inter> stat_keys E = {}"
  using stat_keys_apart by blast

lemma rate_limit_own:
  assumes "rate_limit E h k n w = (r, w')" "k \<notin> set (h_whitelist h)"
    and "within (h_chain_id h) k (tm_day (fst (now E w))) q m w"
  shows "within (h_chain_id h) k (tm_day (fst (now E w))) q (if r = None then m + n else m) w'"
proof -
  let ?c = "h_chain_id h"
  have b: "allow_whitelist E (h_whitelist h) ?c k n w = ((False, None), w)"
    using assms(2) by (simp add: allow_whitelist_def check_in_white_list_iff)
  obtain t w1 where t: "now E w = (t, w1)" by (cases "now E w")
  obtain x w2 where x: "redis_allow E ?c k t n True w1 = (x, w2)" by (cases "redis_allow E ?c k t n True w1")
  have w1: "within ?c k (tm_day t) q m w1" using within_kept [OF now_kept [OF t]] assms(3) t by simp
  note w2 = redis_allow_within [OF x w1]
  have w3: "within ?c k (tm_day t) q (if x = Inr 1 then m + n else m) (count_allowed E ?c t n w2)"
    by (rule within_kept [OF count_allowed_kept [OF stat_keys_free] w2])
  show ?thesis
    using assms(1) b t x w2 w3
    by (auto simp: rate_limit_def allow_def Let_def limit_codes
        split: prod.splits option.splits sum.splits if_splits limit_error.splits)
qed

text \<open>Forwarding.\<close>

lemma store_result_kept: "j \<notin> S \<Longrightarrow> kept S w (store_result E cfg (Some j) x w)"
  using set_kept by (auto simp: store_result_def cache_fn_def split: option.split) (metis prod.collapse)

lemma post_kept: "http_post E url b w = (x, w') \<Longrightarrow> kept S w w'"
  using post_frame kept_UNIV by blast

lemma do_http_upstream_call_kept: "do_http_upstream_call E cfg req w = (r, w') \<Longrightarrow> kept S w w'"
  by (auto simp: do_http_upstream_call_def split: option.splits prod.splits sum.splits dest: post_kept)

lemma do_tendermint_upstream_call_kept: "do_tendermint_upstream_call E cfg tm w = (r, w') \<Longrightarrow> kept S w w'"
  using get_http_frame kept_UNIV
  by (auto simp: do_tendermint_upstream_call_def split: prod.splits sum.splits if_splits)

lemma http_proxy_kept:
  assumes "http_proxy E cfg raw (rid, w) = (r, (rid', w'))" "S \<inter> cache_keys = {}"
  shows "kept S w w'"
proof (cases "batch_call raw")
  case (Some rs)
  then show ?thesis
    using assms(1) do_http_upstream_call_kept by (auto simp: http_proxy_batch split: prod.splits)
next
  case None
  note batch = this
  show ?thesis
  proof (cases "single_call raw")
    case None
    then show ?thesis
      using assms(1) batch by (simp add: http_proxy_def is_batch_call_def from_request_def from_cache_def Let_def)
  next
    case (Some q)
    obtain x where x: "single_proxy E cfg raw q w = (x, w')"
      using assms(1) by (auto simp: http_proxy_single [OF batch Some] split: prod.splits)
    from x show ?thesis
    proof (rule rpc.call_keeps [where P = "kept S w"])
      show "kept S w s1" if "find_rpc E cfg q w = (y, s1)" for y s1
        using that get_kept by (auto simp: find_rpc_def split: prod.splits sum.splits option.splits if_splits)
      show "kept S w s2" if "kept S w s1" "fetch_rpc E cfg (rpc_key_of cfg q) raw s1 = (y, s2)" for y s1 s2
      proof -
        obtain z v where z: "do_http_upstream_call E cfg raw s1 = (z, v)" by (cases "do_http_upstream_call E cfg raw s1")
        have v: "kept S w v" using that(1) do_http_upstream_call_kept [OF z] by (rule untouched_trans)
        have "kept S w (store_result E cfg (rpc_key_of cfg q) res v)" for res
          using untouched_trans [OF v store_result_kept] cache_keys_free(1) [OF assms(2)] v
          by (auto simp: rpc_key_of_def store_result_def)
        then show ?thesis using that(2) z v by (auto simp: fetch_rpc_def split: sum.splits option.splits)
      qed
    qed
  qed
qed

lemma http_proxy_state_kept:
  "http_proxy E cfg raw s = (r, s') \<Longrightarrow> S \<inter> cache_keys = {} \<Longrightarrow> kept S (snd s) (snd s')"
  using http_proxy_kept [of cfg raw "fst s" "snd s" r "fst s'" "snd s'"] by simp

lemma tendermint_proxy_kept:
  assumes "tendermint_proxy E cfg tm s = (r, s')" "S \<inter> cache_keys = {}"
  shows "kept S (snd s) (snd s')"
  using assms(1)
proof (rule tendermint.call_keeps [where P = "\<lambda>s1. kept S (snd s) (snd s1)"])
  show "kept S (snd s) (snd s1)" if "find_tendermint E cfg tm s = (y, s1)" for y s1
    using that get_kept
    by (auto simp: find_tendermint_def from_request_path_def from_tendermint_cache_def Let_def
        split: prod.splits sum.splits if_splits)
  show "kept S (snd s) (snd s2)"
    if "kept S (snd s) (snd s1)" "fetch_tendermint E cfg tm s1 = (y, s2)" for y s1 s2
  proof -
    obtain z v where z: "do_tendermint_upstream_call E cfg tm (snd s1) = (z, v)"
      by (cases "do_tendermint_upstream_call E cfg tm (snd s1)")
    have v: "kept S (snd s) v" using that(1) do_tendermint_upstream_call_kept [OF z] by (rule untouched_trans)
    have "kept S (snd s) (store_result E cfg (tendermint_key_of cfg tm) res v)" for res
      using untouched_trans [OF v store_result_kept] cache_keys_free(2) [OF assms(2)] v
      by (auto simp: tendermint_key_of_def store_result_def)
    then show ?thesis
      using that(2) z v
      by (auto simp: fetch_tendermint_def tendermint_upstream_def Let_def split: sum.splits option.splits if_splits)
  qed
qed

end

section \<open>A day of requests\<close>

text \<open>
  The calls that a request makes of the chain \<open>c\<close> with the key \<open>k\<close>, read off the request itself: those
  its body, or its frame, decodes to; and one for a Tendermint path.
\<close>

definition calls_in :: "bytes \<Rightarrow> int" where
  "calls_in raw = (case unmarshal_request raw of None \<Rightarrow> 0 | Some req \<Rightarrow> int (length (calls_of req)))"

definition made_http :: "json_handler \<Rightarrow> http_request \<Rightarrow> nat \<Rightarrow> string \<Rightarrow> int" where
  "made_http h r c k =
     (if h_chain_id h = c \<and> bind_api_key r = Inr k then (case req_body r of Inl e \<Rightarrow> 0 | Inr raw \<Rightarrow> calls_in raw) else 0)"

definition made_tendermint :: "json_handler \<Rightarrow> http_request \<Rightarrow> nat \<Rightarrow> string \<Rightarrow> int" where
  "made_tendermint h r c k = (if h_chain_id h = c \<and> bind_api_key r = Inr k then 1 else 0)"

definition made_ws :: "json_handler \<Rightarrow> bytes \<Rightarrow> nat \<Rightarrow> string \<Rightarrow> ('w, 'x) session_scheme \<Rightarrow> int" where
  "made_ws h raw c k s = (if h_chain_id h = c \<and> ss_key s = k then calls_in raw else 0)"

text \<open>
  What is seen of a request being served: a node has been asked (\<open>asked\<close> is whatever can be observed
  of what was sent to the nodes), or the client gets a reply that is not an error of the gateway.
\<close>

definition served :: "('w \<Rightarrow> 'a) \<Rightarrow> 'w \<Rightarrow> reply outcome \<Rightarrow> 'w \<Rightarrow> bool" where
  "served asked w x w' \<longleftrightarrow> asked w' \<noteq> asked w \<or> (\<exists>status b. x = Ret (ReplyBlob status b))"

definition served_ws :: "('w \<Rightarrow> 'a) \<Rightarrow> ('w, 'x) session_scheme \<Rightarrow> ('w, 'x) session_scheme \<Rightarrow> bool" where
  "served_ws asked s s' \<longleftrightarrow> asked (ss_world s') \<noteq> asked (ss_world s) \<or>
     (ss_pending s' FromHandler \<noteq> ss_pending s FromHandler \<and>
      (\<forall>d e. ss_pending s' FromHandler = Some d \<longrightarrow> rd_data d \<noteq> marshal_error e))"

text \<open>
  \<open>gateway_day \<dots> w m\<close>: from a world without a counter for the day the requests so far led to
  \<open>w\<close>, and the key's calls in those that were seen to be served are \<open>m\<close>.  A request is any, of any key
  and session, to any handler that does not whitelist \<open>k\<close> on the chain; the clock reads the day when it
  is charged.  Between two requests anything may happen that neither changes the quota nor lowers the counter.
\<close>

inductive gateway_day ::
  "('w, 'x) ws_env_scheme \<Rightarrow> ('w \<Rightarrow> 'a) \<Rightarrow> ('w \<Rightarrow> string \<Rightarrow> int option) \<Rightarrow> ('w \<Rightarrow> string \<Rightarrow> string option) \<Rightarrow>
   nat \<Rightarrow> string \<Rightarrow> nat \<Rightarrow> int \<Rightarrow> 'w \<Rightarrow> int \<Rightarrow> bool"
  for E asked cval ctext c k d q where
  fresh: "cval w (day_key c k d) = None \<Longrightarrow> Option.bind (ctext w (quota_key c k)) (tonum E) = Some q \<Longrightarrow>
     gateway_day E asked cval ctext c k d q w 0"
| http: "gateway_day E asked cval ctext c k d q w m \<Longrightarrow> (h_chain_id h = c \<longrightarrow> k \<notin> set (h_whitelist h)) \<Longrightarrow>
     (\<forall>a s1. admit_http E h r (rid, w) = (Ret (Inr a), s1) \<longrightarrow> tm_day (fst (now E (snd s1))) = d) \<Longrightarrow>
     Http E h r (rid, w) = (x, (rid', w')) \<Longrightarrow>
     gateway_day E asked cval ctext c k d q w' (m + (if served asked w x w' then made_http h r c k else 0))"
| tendermint: "gateway_day E asked cval ctext c k d q w m \<Longrightarrow> (h_chain_id h = c \<longrightarrow> k \<notin> set (h_whitelist h)) \<Longrightarrow>
     (\<forall>a s1. admit_tendermint h r (rid, w) = (Ret (Inr a), s1) \<longrightarrow> tm_day (fst (now E (snd s1))) = d) \<Longrightarrow>
     TendermintHttp E h r (rid, w) = (x, (rid', w')) \<Longrightarrow>
     gateway_day E asked cval ctext c k d q w' (m + (if served asked w x w' then made_tendermint h r c k else 0))"
| ws: "gateway_day E asked cval ctext c k d q w m \<Longrightarrow> (h_chain_id h = c \<longrightarrow> k \<notin> set (h_whitelist h)) \<Longrightarrow>
     ss_world s = w \<Longrightarrow>
     (\<forall>req w1. bind E h (ss_key s) raw (ws_black_methods h) (erigon_methods h) w = (Ret (Inr req), w1) \<longrightarrow>
        tm_day (fst (now E w1)) = d) \<Longrightarrow>
     client_frame E h raw (s :: 'w session) = (x, s') \<Longrightarrow>
     gateway_day E asked cval ctext c k d q (ss_world s') (m + (if served_ws asked s s' then made_ws h raw c k s else 0))"
| other: "gateway_day E asked cval ctext c k d q w m \<Longrightarrow>
     ctext w' (quota_key c k) = ctext w (quota_key c k) \<Longrightarrow>
     counter_of cval w (day_key c k d) \<le> counter_of cval w' (day_key c k d) \<Longrightarrow>
     gateway_day E asked cval ctext c k d q w' m"

text \<open>An accepted request costs what it has of calls, and at least that.\<close>

lemma calls_in_cost:
  assumes "bind E h k raw black erigon w = (Ret (Inr req), w1)"
  shows "calls_in raw \<le> cost req"
proof -
  obtain req0 where r0: "unmarshal_request raw = Some req0"
    and req: "req = req0\<lparr>request_type := (if \<exists>r \<in> set (calls_of req0). erigon_call erigon r
                                     then RequestTypeErigon else 0)\<rparr>"
    using assms by (rule bind_ok)
  show ?thesis
    using unmarshal_request_decoded [OF r0] r0 req
    by (auto simp: calls_in_def cost_def calls_of_def get_batch_call_def decoded_request_def Let_def split: option.splits)
qed

lemma made_nonneg: "0 \<le> calls_in raw" "0 \<le> made_http h r c k" "0 \<le> made_tendermint h r c k" "0 \<le> made_ws h raw c k s"
  by (auto simp: calls_in_def made_http_def made_tendermint_def made_ws_def split: option.split sum.split)

lemma made_http_cost:
  assumes "admit_http E h r s = (Ret (Inr (k', req)), s1)"
  shows "made_http h r c k \<le> (if h_chain_id h = c \<and> k' = k then cost req else 0)"
proof -
  obtain raw w where "bind_api_key r = Inr k'" "req_body r = Inr raw"
    "bind E h k' raw (http_black_methods h) (erigon_methods h) (snd s) = (Ret (Inr req), w)"
    using assms by (auto simp: admit_http_def split: outcome.splits sum.splits prod.splits)
  then show ?thesis using calls_in_cost by (auto simp: made_http_def)
qed

lemma made_tendermint_cost:
  "admit_tendermint h r s = (Ret (Inr (k', a)), s1) \<Longrightarrow>
   made_tendermint h r c k \<le> (if h_chain_id h = c \<and> k' = k then 1 else 0)"
  by (auto simp: admit_tendermint_def made_tendermint_def split: outcome.splits sum.splits prod.splits)

context gateway_contract
begin

lemma rate_limit_within:
  assumes "rate_limit E h k' n w = (x, w')" "within c k d q m w"
    and "h_chain_id h = c \<longrightarrow> k \<notin> set (h_whitelist h)" "tm_day (fst (now E w)) = d"
  shows "within c k d q (if h_chain_id h = c \<and> k' = k \<and> x = None then m + n else m) w'"
proof (cases "h_chain_id h = c \<and> k' = k")
  case True
  then have own: "k \<notin> set (h_whitelist h)" "within (h_chain_id h) k (tm_day (fst (now E w))) q m w"
    "rate_limit E h k n w = (x, w')"
    using assms by auto
  show ?thesis using rate_limit_own [OF own(3,1,2)] True assms(4) by auto
next
  case False
  then have "kept {day_key c k d, quota_key c k} w w'"
    by (intro rate_limit_kept [OF assms(1) quota_keys_apart(2) stat_keys_free]) auto
  then show ?thesis using within_kept assms(2) False by auto
qed

lemma charge_within:
  assumes "charge_with E h price (k', a) s = (x, s')" "within c k d q m (snd s)"
    and "h_chain_id h = c \<longrightarrow> k \<notin> set (h_whitelist h)" "tm_day (fst (now E (snd s))) = d"
  shows "within c k d q (if h_chain_id h = c \<and> k' = k \<and> x = None then m + price a else m) (snd s')"
proof -
  have "rate_limit E h k' (price a) (snd s) = (x, snd s')"
    using assms(1) by (auto simp: charge_with_def split: prod.splits)
  then show ?thesis using assms(2-4) by (rule rate_limit_within)
qed

lemma forward_http_kept:
  "forward_http E h r a s = (y, s1) \<Longrightarrow> S \<inter> cache_keys = {} \<Longrightarrow> kept S (snd s) (snd s1)"
  using http_proxy_state_kept [of "h_proxy h" "snd a" s]
  by (auto simp: forward_http_def split: outcome.splits sum.splits prod.splits option.splits)

lemma forward_tendermint_kept:
  "forward_tendermint E h r a s = (y, s1) \<Longrightarrow> S \<inter> cache_keys = {} \<Longrightarrow> kept S (snd s) (snd s1)"
  using tendermint_proxy_kept [of "h_proxy h" "snd a" s]
  by (auto simp: forward_tendermint_def split: sum.splits prod.splits)

end

text \<open>Writing to a node over a WebSocket leaves Redis alone, too.\<close>

locale ws_contract =
  gateway_contract E cval ctext cttl
  for E :: "('w, 'x) ws_env_scheme"
    and cval :: "'w \<Rightarrow> string \<Rightarrow> int option"
    and ctext :: "'w \<Rightarrow> string \<Rightarrow> string option"
    and cttl :: "'w \<Rightarrow> string \<Rightarrow> int option" +
  assumes ws_send_frame: "ws_send E conn b w = (x, w') \<Longrightarrow> untouched cval ctext UNIV w w'"
begin

lemma write_json_kept:
  assumes "write_json E conn req s = (e, s')"
  shows "kept S (ss_world s) (ss_world s')"
proof (cases "marshal_request req")
  case None
  then show ?thesis using assms by (simp add: write_json_def)
next
  case (Some b)
  then obtain w where "ws_send E conn (b @ [char_of (10::nat)]) (ss_world s) = (e, w)" "s' = s\<lparr>ss_world := w\<rparr>"
    using assms by (auto simp: write_json_def split: prod.splits)
  then show ?thesis using ws_send_frame kept_UNIV by auto
qed

lemma client_send_world [simp]: "ss_world (client_send who d s) = ss_world s"
  by (simp add: client_send_def)

lemma ws_proxy_send_kept:
  fixes s :: "('w, 'z) session_scheme"
  assumes "ws_proxy_send E cfg raw s = (x, s')"
  shows "kept S (ss_world s) (ss_world s')"
proof (cases "is_batch_call raw")
  case True
  then show ?thesis using assms write_json_kept by (auto simp: ws_proxy_send_def split: prod.splits)
next
  case False
  obtain req rid1 where r: "from_request raw (ss_rid s) = (req, rid1)" by (cases "from_request raw (ss_rid s)")
  obtain y w1 where y: "from_cache E cfg req (ss_world s) = (y, w1)" by (cases "from_cache E cfg req (ss_world s)")
  have w1: "kept S (ss_world s) w1" using y by (rule from_cache_kept)
  have sent: "kept S (ss_world s) (ss_world s2)" if "write_json E conn raw s1 = (e, s2)" "ss_world s1 = w1"
    for conn e and s1 s2 :: "('w, 'z) session_scheme"
    using untouched_trans [OF w1] write_json_kept [OF that(1)] that(2) by simp
  show ?thesis
    using assms False r y w1 sent
    by (auto simp: ws_proxy_send_def Let_def split: prod.splits outcome.splits sum.splits option.splits if_splits)
qed

end

text \<open>
  What can be observed of the nodes being asked: no command of Redis changes it, and a script no more
  than its own steps do.  Nothing is said of sending to a node.
\<close>

locale observed_contract =
  ws_contract E cval ctext cttl
  for E :: "('w, 'x) ws_env_scheme"
    and cval :: "'w \<Rightarrow> string \<Rightarrow> int option"
    and ctext :: "'w \<Rightarrow> string \<Rightarrow> string option"
    and cttl :: "'w \<Rightarrow> string \<Rightarrow> int option" +
  fixes asked :: "'w \<Rightarrow> 'a"
  assumes get_silent: "rd_get E j w = (x1, w') \<Longrightarrow> asked w' = asked w"
    and incrby_silent: "rd_incrby E j n w = (x2, w') \<Longrightarrow> asked w' = asked w"
    and decrby_silent: "rd_decrby E j n w = (x3, w') \<Longrightarrow> asked w' = asked w"
    and expire_silent: "rd_expire E j t w = (x4, w') \<Longrightarrow> asked w' = asked w"
    and now_silent: "now E w = (t', w') \<Longrightarrow> asked w' = asked w"
    and eval_silent: "rd_eval E f w = (x5, w') \<Longrightarrow> asked w' \<in> {asked w, asked (snd (f w))}"

sublocale observed_contract \<subseteq> silent: command_frame E "{}" "\<lambda>w w'. asked w' = asked w"
proof (unfold_locales, goal_cases)
  case (8 f w x5 w')
  then show ?case using eval_silent by fastforce
qed (auto dest: get_silent incrby_silent decrby_silent expire_silent now_silent)

context observed_contract
begin

lemma within_less: "within c k d q (m + p) w \<Longrightarrow> m' \<le> p \<Longrightarrow> 0 \<le> m' \<Longrightarrow> within c k d q (m + (if b then m' else 0)) w"
  by (simp add: within_quota_def)

text \<open>
  An endpoint that charges before it forwards: what is seen to be served is paid for, so the calls in it
  are within the quota.
\<close>

lemma endpoint_within:
  assumes "metered_endpoint serve admit (charge_with E h price) forward"
    and "\<And>y s1. admit s = (y, s1) \<Longrightarrow> kept {day_key c k d, quota_key c k} (snd s) (snd s1) \<and> asked (snd s1) = asked (snd s)"
    and "\<And>a s2 y s3. forward a s2 = (y, s3) \<Longrightarrow> kept {day_key c k d, quota_key c k} (snd s2) (snd s3)"
    and "serve s = (x, s')" "within c k d q m (snd s)" "h_chain_id h = c \<longrightarrow> k \<notin> set (h_whitelist h)"
    and "\<forall>a s1. admit s = (Ret (Inr a), s1) \<longrightarrow> tm_day (fst (now E (snd s1))) = d"
    and "\<And>k' a s1. admit s = (Ret (Inr (k', a)), s1) \<Longrightarrow> made \<le> (if h_chain_id h = c \<and> k' = k then price a else 0)"
    and "0 \<le> made"
  shows "within c k d q (m + (if served asked (snd s) x (snd s') then made else 0)) (snd s')"
proof (cases rule: metered_endpoint.serve_cases [OF assms(1), of s, case_names panics rejects unpaid served])
  case (panics p s1)
  then have "\<not> served asked (snd s) x (snd s')" using assms(2,4) by (auto simp: served_def)
  then show ?thesis using panics assms(2,4,5) within_kept by auto
next
  case (rejects r s1)
  then have "\<not> served asked (snd s) x (snd s')"
    using assms(2,4) metered_endpoint.refusal_is_no_blob [OF assms(1) rejects(1)] by (auto simp: served_def)
  then show ?thesis using rejects assms(2,4,5) within_kept by auto
next
  case (unpaid a s1 e s2)
  obtain k' b where a: "a = (k', b)" by (cases a)
  have s1: "within c k d q m (snd s1)" using within_kept assms(2) [OF unpaid(1)] assms(5) by blast
  have day: "tm_day (fst (now E (snd s1))) = d" using assms(7) unpaid(1) by blast
  have "asked (snd s2) = asked (snd s)"
    using silent.charge_kept [OF unpaid(2) [unfolded a]] assms(2) [OF unpaid(1)] by simp
  then have "\<not> served asked (snd s) x (snd s')" using unpaid(3) assms(4) by (auto simp: served_def)
  then show ?thesis
    using charge_within [OF unpaid(2) [unfolded a] s1 assms(6) day] unpaid(3) assms(4) by auto
next
  case (served a s1 s2)
  obtain k' b where a: "a = (k', b)" by (cases a)
  have s1: "within c k d q m (snd s1)" using within_kept assms(2) [OF served(1)] assms(5) by blast
  have day: "tm_day (fst (now E (snd s1))) = d" using assms(7) served(1) by blast
  have fwd: "kept {day_key c k d, quota_key c k} (snd s2) (snd s')" using assms(3,4) served(3) by metis
  have paid: "within c k d q (m + (if h_chain_id h = c \<and> k' = k then price b else 0)) (snd s')"
    using within_kept [OF fwd charge_within [OF served(2) [unfolded a] s1 assms(6) day]] by (auto split: if_splits)
  show ?thesis by (rule within_less [OF paid assms(8) [OF served(1) [unfolded a]] assms(9)])
qed

lemma client_frame_within:
  assumes "client_frame E h raw s = (x, s')" "within c k d q m (ss_world s)"
    and "h_chain_id h = c \<longrightarrow> k \<notin> set (h_whitelist h)"
    and "\<forall>req w1. bind E h (ss_key s) raw (ws_black_methods h) (erigon_methods h) (ss_world s) = (Ret (Inr req), w1) \<longrightarrow>
      tm_day (fst (now E w1)) = d"
  shows "within c k d q (m + (if served_ws asked s s' then made_ws h raw c k s else 0)) (ss_world s')"
proof -
  let ?b = "bind E h (ss_key s) raw (ws_black_methods h) (erigon_methods h) (ss_world s)"
  obtain y w1 where y: "?b = (y, w1)" by (cases ?b)
  have w1: "within c k d q m w1" by (rule within_kept [OF bind_kept [OF y stat_keys_free] assms(2)])
  have a1: "asked w1 = asked (ss_world s)" using silent.bind_kept [OF y] by simp
  show ?thesis
  proof (cases "\<exists>req. y = Ret (Inr req)")
    case False
    then have "ss_world s' = w1" "\<not> served_ws asked s s'"
      using assms(1) y a1 by (auto simp: client_frame_def resp_json_def served_ws_def split: outcome.splits sum.splits)
    then show ?thesis using w1 by simp
  next
    case True
    then obtain req where req: "?b = (Ret (Inr req), w1)" using y by auto
    obtain z w2 where z: "rate_limit E h (ss_key s) (cost req) w1 = (z, w2)"
      by (cases "rate_limit E h (ss_key s) (cost req) w1")
    have w2: "within c k d q (if h_chain_id h = c \<and> ss_key s = k \<and> z = None then m + cost req else m) w2"
      using rate_limit_within [OF z w1 assms(3)] assms(4) req by blast
    have a2: "asked w2 = asked (ss_world s)" using silent.rate_limit_kept [OF z] a1 by simp
    show ?thesis
    proof (cases z)
      case None
      obtain v s3 where v: "ws_proxy_send E (h_proxy h) req (s\<lparr>ss_world := w2\<rparr>) = (v, s3)"
        by (cases "ws_proxy_send E (h_proxy h) req (s\<lparr>ss_world := w2\<rparr>)")
      have s3: "ss_world s' = ss_world s3"
        using assms(1) req z None v by (auto simp: client_frame_def resp_json_def split: outcome.splits option.splits)
      have "kept {day_key c k d, quota_key c k} w2 (ss_world s3)" using ws_proxy_send_kept [OF v] by simp
      then have paid: "within c k d q (m + (if h_chain_id h = c \<and> ss_key s = k then cost req else 0)) (ss_world s')"
        using within_kept [OF _ w2] None s3 by (auto split: if_splits)
      have "made_ws h raw c k s \<le> (if h_chain_id h = c \<and> ss_key s = k then cost req else 0)"
        using calls_in_cost [OF req] by (simp add: made_ws_def)
      then show ?thesis by (rule within_less [OF paid _ made_nonneg(4)])
    next
      case (Some e)
      then have "ss_world s' = w2" "\<not> served_ws asked s s'"
        using assms(1) req z a2 by (auto simp: client_frame_def resp_json_def served_ws_def)
      then show ?thesis using w2 Some by simp
    qed
  qed
qed

lemma gateway_day_within:
  assumes "gateway_day E asked cval ctext c k d q w m" "0 \<le> q"
  shows "within c k d q m w"
  using assms
proof (induction rule: gateway_day.induct)
  case (fresh w)
  then show ?case by (simp add: within_quota_def counter_of_def)
next
  case (http w m h r rid x rid' w')
  have admitted: "kept {day_key c k d, quota_key c k} w (snd s1) \<and> asked (snd s1) = asked w"
    if "admit_http E h r (rid, w) = (y, s1)" for y s1
    using admit_http_kept [OF that stat_keys_free] silent.admit_http_kept [OF that] by simp
  have "within c k d q (m + (if served asked (snd (rid, w)) x (snd (rid', w')) then made_http h r c k else 0)) (snd (rid', w'))"
  proof (rule endpoint_within [OF http_end.metered_endpoint_axioms [of E h r] _ _ http(4) _ http(2,3) _ made_nonneg(2)], goal_cases)
    case (1 y s1)
    then show ?case using admitted by simp
  next
    case (2 a s2 y s3)
    then show ?case using quota_keys_apart(1) by (rule forward_http_kept)
  next
    case 3
    show ?case using http by simp
  next
    case (4 k' a s1)
    then show ?case by (rule made_http_cost)
  qed
  then show ?case by simp
next
  case (tendermint w m h r rid x rid' w')
  have admitted: "kept {day_key c k d, quota_key c k} w (snd s1) \<and> asked (snd s1) = asked w"
    if "admit_tendermint h r (rid, w) = (y, s1)" for y s1
    using admit_tendermint_kept [OF that] silent.admit_tendermint_kept [OF that] by simp
  have "within c k d q (m + (if served asked (snd (rid, w)) x (snd (rid', w')) then made_tendermint h r c k else 0)) (snd (rid', w'))"
  proof (rule endpoint_within [OF tendermint_end.metered_endpoint_axioms [of E h r] _ _ tendermint(4) _ tendermint(2,3) _ made_nonneg(3)], goal_cases)
    case (1 y s1)
    then show ?case using admitted by simp
  next
    case (2 a s2 y s3)
    then show ?case using quota_keys_apart(1) by (rule forward_tendermint_kept)
  next
    case 3
    show ?case using tendermint by simp
  next
    case (4 k' a s1)
    then show ?case by (rule made_tendermint_cost)
  qed
  then show ?case by simp
next
  case (ws w m h s raw x s')
  then show ?case using client_frame_within [OF ws(5)] by simp
next
  case (other w m w')
  then show ?case by (auto simp: within_quota_def)
qed

end

section \<open>The example satisfies the contract\<close>

lemma untouched_kv:
  "untouched (\<lambda>w. kv_num (store w)) (\<lambda>w. kv_txt (store w)) S w w' \<longleftrightarrow>
     (\<forall>i \<in> S. kv_num (store w') i = kv_num (store w) i \<and> kv_txt (store w') i = kv_txt (store w) i)"
  by (simp add: untouched_def)

lemma kv_agree:
  "\<forall>i. i \<noteq> j \<longrightarrow> w' i = w i \<Longrightarrow> \<forall>i \<in> - {j}. kv_num w' i = kv_num w i \<and> kv_txt w' i = kv_txt w i"
  by (simp add: kv_num_def kv_txt_def)

lemma kv_incrby_frame:
  assumes "kv_incrby j n w = (r, w')"
  shows "(\<forall>i. i \<noteq> j \<longrightarrow> w' i = w i) \<and> counter_of kv_num w' j \<in> {counter_of kv_num w j, counter_of kv_num w j + n}"
proof (cases r)
  case (Inl e)
  then have "w' = w" using assms by (auto simp: kv_incrby_def split: option.splits prod.splits if_splits)
  then show ?thesis by simp
next
  case (Inr v)
  then have s: "v = counter_of kv_num w j + n" "w' = w(j \<mapsto> (show_int v, kv_ttl w j))"
    using kv_incrby_shape [of j n w v w'] assms by auto
  have "kv_num w' = (kv_num w)(j \<mapsto> v)" unfolding s(2) by (rule kv_views_upd)
  then have "counter_of kv_num w' j = v" by (simp add: counter_of_def)
  then show ?thesis using s by auto
qed

lemma kv_expire_frame:
  assumes "kv_expire j s w = (r, w')"
  shows "(\<forall>i. i \<noteq> j \<longrightarrow> w' i = w i) \<and> (0 < s \<longrightarrow> kv_num w' j = kv_num w j)"
  using assms by (auto simp: kv_expire_def kv_num_def split: option.splits prod.splits if_splits)

lemma counter_of_store: "counter_of (\<lambda>w. kv_num (store w)) w j = counter_of kv_num (store w) j"
  by (simp add: counter_of_def)

interpretation demo_gateway: gateway_contract "demo_env reply" "\<lambda>w. kv_num (store w)" "\<lambda>w. kv_txt (store w)"
    "\<lambda>w. kv_ttl (store w)" for reply
proof (unfold_locales, unfold untouched_kv counter_of_store, goal_cases)
  case (1 w t w')
  then show ?case by (simp add: demo_env_def)
next
  case (2 j w x1 w')
  then show ?case by (simp add: demo_env_def on_store_iff mem_redis_def)
next
  case (3 j n w r w')
  then have "kv_incrby j n (store w) = (r, store w')" by (simp add: demo_env_def on_store_iff mem_redis_def)
  from kv_incrby_frame [OF this] show ?case using kv_agree [of j "store w'" "store w"] by simp
next
  case (4 j n w r w')
  then have "kv_incrby j (- n) (store w) = (r, store w')" by (simp add: demo_env_def on_store_iff mem_redis_def)
  from kv_incrby_frame [OF this] show ?case using kv_agree [of j "store w'" "store w"] by simp
next
  case (5 j s w x4 w')
  then have "kv_expire j s (store w) = (x4, store w')" by (simp add: demo_env_def on_store_iff mem_redis_def)
  from kv_expire_frame [OF this] show ?case using kv_agree [of j "store w'" "store w"] by simp
next
  case (6 j v s w x w')
  then have "store w' = (store w)(j \<mapsto> (v, if s = 0 then None else Some s))"
    by (auto simp: demo_env_def on_store_iff mem_redis_def)
  then show ?case using kv_agree [of j "store w'" "store w"] by simp
next
  case (7 f w r w')
  then show ?case by (simp add: demo_env_def)
next
  case (8 url b w x3 w')
  then show ?case by (auto simp: demo_env_def)
next
  case (9 url w x2 w')
  then show ?case by (auto simp: demo_env_def)
next
  case (10 j c k d)
  then show ?case
    by (auto simp: stat_keys_def demo_env_def day_key_def quota_key_def day_rate_limit_key_def day_quota_key_def)
qed

lemma demo_ws_fields:
  "rd_get (demo_ws_env reply) = rd_get (demo_env reply)" "rd_set (demo_ws_env reply) = rd_set (demo_env reply)"
  "rd_incrby (demo_ws_env reply) = rd_incrby (demo_env reply)"
  "rd_decrby (demo_ws_env reply) = rd_decrby (demo_env reply)"
  "rd_expire (demo_ws_env reply) = rd_expire (demo_env reply)" "rd_eval (demo_ws_env reply) = rd_eval (demo_env reply)"
  "now (demo_ws_env reply) = now (demo_env reply)" "http_post (demo_ws_env reply) = http_post (demo_env reply)"
  "http_get (demo_ws_env reply) = http_get (demo_env reply)" "tonum (demo_ws_env reply) = tonum (demo_env reply)"
  "stat_keys (demo_ws_env reply) = stat_keys (demo_env reply)"
  by (simp_all add: demo_ws_env_def gateway_env.defs ws_env.defs stat_keys_def)

interpretation demo_ws: ws_contract "demo_ws_env reply" "\<lambda>w. kv_num (store w)" "\<lambda>w. kv_txt (store w)"
    "\<lambda>w. kv_ttl (store w)" for reply
proof (unfold_locales, unfold demo_ws_fields, goal_cases)
  case (16 conn b w x w')
  then show ?case by (auto simp: untouched_kv demo_ws_env_def gateway_env.defs ws_env.defs)
qed (rule demo_cache.get_ok demo_cache.incrby_ok demo_cache.decrby_ok demo_cache.expire_ok demo_cache.eval_ok
       demo_gateway.now_ok demo_gateway.get_frame demo_gateway.incrby_frame demo_gateway.decrby_frame
       demo_gateway.expire_frame demo_gateway.set_frame demo_gateway.eval_frame demo_gateway.post_frame
       demo_gateway.get_http_frame demo_gateway.stat_keys_apart; assumption)+

text \<open>The example's log of what was sent to the nodes is such an observation.\<close>

interpretation demo_observed: observed_contract "demo_ws_env reply" "\<lambda>w. kv_num (store w)" "\<lambda>w. kv_txt (store w)"
    "\<lambda>w. kv_ttl (store w)" sent for reply
proof (unfold_locales, unfold demo_ws_fields, goal_cases)
  case (6 f w x5 w')
  then show ?case by (simp add: demo_env_def)
qed (simp_all add: demo_env_def on_store_iff)

section \<open>Properties\<close>

text \<open>
  C1. The daily quota holds from end to end.  Whatever requests are sent to whatever handlers, over
  HTTP, Tendermint and WebSockets, by any keys, in any order, with Redis commands and nodes that fail at any
  point: count, for one key on one chain that does not exempt it, the calls in every request of a day (read
  off the request itself) for which a node was asked or the client got anything but an error of the
  gateway.  They are no more than the key's daily quota.
\<close>

theorem quota_holds_end_to_end:
  assumes "observed_contract E cval ctext cttl asked" "gateway_day E asked cval ctext c k d q w m" "0 \<le> q"
  shows "m \<le> q"
  using observed_contract.gateway_day_within [OF assms] by (simp add: within_quota_def)

definition quota_start :: demo_world where
  "quota_start = \<lparr>store = demo_kv, sent = []\<rparr>"

lemma demo_posted:
  obtains b where "do_http_upstream_call (demo_ws_env reply) cfg (zero_rpc_request\<lparr>single_call := Some (demo_call_of m)\<rparr>) w =
    (Inr reply, w\<lparr>sent := (http_upstream cfg, b) # sent w\<rparr>)"
proof -
  obtain b where "marshal_request (zero_rpc_request\<lparr>single_call := Some (demo_call_of m)\<rparr>) = Some b"
    by (simp add: marshal_request_def zero_rpc_request_def marshal_single_def raw_member_def demo_call_of_def)
  then show thesis
    using that by (simp add: do_http_upstream_call_def upstream_url_def zero_rpc_request_def RequestTypeErigon_def
        demo_ws_fields demo_env_def)
qed

theorem quota_holds_end_to_end_witness:
  "\<exists>w m. gateway_day (demo_ws_env demo_reply) sent (\<lambda>w. kv_num (store w)) (\<lambda>w. kv_txt (store w)) 1 ''k'' 5 10 w m \<and>
     m = 1 \<and> m \<le> 10"
proof -
  let ?E = "demo_ws_env demo_reply" and ?r = "demo_request ''/eth/v1/k'' (demo_text ''eth_call'')"
  let ?gd = "gateway_day ?E sent (\<lambda>w. kv_num (store w)) (\<lambda>w. kv_txt (store w)) 1 ''k'' 5 10"
  have "kv_num demo_kv (day_key 1 ''k'' 5) = None" "Option.bind (kv_txt demo_kv (quota_key 1 ''k'')) read_int = Some 10"
    by code_simp+
  then have start: "?gd quota_start 0"
    by (intro gateway_day.fresh) (simp_all add: quota_start_def demo_ws_fields, simp add: demo_env_def)
  let ?q = "demo_call_of ''eth_call''"
  let ?req = "zero_rpc_request\<lparr>single_call := Some ?q\<rparr>"
  have parts: "batch_call ?req = None" "single_call ?req = Some ?q" by (simp_all add: zero_rpc_request_def)
  have adm: "admit_http ?E demo_handler ?r (0, quota_start) = (Ret (Inr (''k'', ?req)), (0, quota_start))"
    by (simp add: admit_http_def demo_request_def new_logger_def bind_api_key_def bind_def Let_def is_batch_call_def demo_reads
        validate_req_def In_iff set_black_list demo_handler_def demo_call_of_def zero_rpc_request_def)
  have "fst (charge_with ?E demo_handler cost (''k'', ?req) (0, quota_start)) = None" by code_simp
  then obtain s2 where charged: "charge_with ?E demo_handler cost (''k'', ?req) (0, quota_start) = (None, s2)"
    by (metis prod.collapse)
  have kept: "sent (snd s2) = sent quota_start" using demo_observed.silent.charge_kept [OF charged] by simp
  obtain x rid' w' where fwd: "forward_http ?E demo_handler ?r (''k'', ?req) s2 = (x, (rid', w'))"
    by (metis prod.collapse)
  have step: "Http ?E demo_handler ?r (0, quota_start) = (x, (rid', w'))"
    using http_end.passed [OF adm charged] fwd by simp
  have f: "find_rpc ?E demo_cfg ?q v = (Inr None, v)" for v
    by (simp add: find_rpc_def demo_cfg_def demo_call_of_def In_iff)
  obtain b where post: "do_http_upstream_call ?E demo_cfg ?req (snd s2) =
      (Inr demo_reply, (snd s2)\<lparr>sent := (http_upstream demo_cfg, b) # sent (snd s2)\<rparr>)"
    by (rule demo_posted)
  have key: "rpc_key_of demo_cfg ?q = None" by (simp add: rpc_key_of_def demo_cfg_def demo_call_of_def In_iff)
  have single: "sent (snd (single_proxy ?E demo_cfg ?req ?q (snd s2))) = (http_upstream demo_cfg, b) # sent (snd s2)"
    by (simp add: single_proxy_def f fetch_rpc_def post key store_result_def split: option.split)
  have proxy: "h_proxy demo_handler = demo_cfg" by (simp add: demo_handler_def)
  have "w' = snd (single_proxy ?E demo_cfg ?req ?q (snd s2))"
    using fwd http_proxy_single [OF parts, of ?E demo_cfg "fst s2" "snd s2"]
    by (auto simp: forward_http_def proxy split: prod.splits sum.splits option.splits)
  then have "sent w' \<noteq> sent quota_start" using single kept by simp
  then have "served sent quota_start x w'" by (simp add: served_def)
  moreover have "made_http demo_handler ?r 1 ''k'' = 1"
    by (simp add: made_http_def calls_in_def demo_request_def bind_api_key_def demo_handler_def demo_reads calls_of_def
        zero_rpc_request_def)
  moreover have "?gd w' (0 + (if served sent quota_start x w' then made_http demo_handler ?r 1 ''k'' else 0))"
    by (rule gateway_day.http [OF start _ _ step]) (auto simp: demo_handler_def demo_ws_fields demo_env_def demo_time_def)
  ultimately have "?gd w' 1" by simp
  moreover from this have "(1::int) \<le> 10"
    by (rule quota_holds_end_to_end [OF demo_observed.observed_contract_axioms]) simp
  ultimately show ?thesis by blast
qed

end
