(* ===== verification/CacheRun.thy ===== *)
theory CacheRun
  imports Quota
begin

text \<open>
  The cache of replies from end to end.  Requests of any keys to any chains' handlers, over HTTP,
  Tendermint and WebSockets, fill the cache in Redis and are answered from it.  A run records
  what the nodes answered; every entry of the cache is such an answer's result, so every reply to a
  client goes back to an answer of a node of the same chain to the same call.
\<close>

section \<open>What the nodes answered\<close>

text \<open>A chain, the call or path that was sent to a node of it, and the text the node sent back.\<close>

datatype node_answer =
  RpcAnswer nat single_request bytes
| PathAnswer nat tendermint_request bytes

definition rpc_answers ::
  "('w, 'x) gateway_env_scheme \<Rightarrow> proxy_config \<Rightarrow> rpc_request \<Rightarrow> 'w \<Rightarrow> node_answer list" where
  "rpc_answers E cfg raw w =
     (case (batch_call raw, single_call raw) of
        (None, Some r) \<Rightarrow>
          (case find_rpc E cfg r w of
             (Inr None, w1) \<Rightarrow>
               (case do_http_upstream_call E cfg raw w1 of
                  (Inr resp, w2) \<Rightarrow> [RpcAnswer (chain_id cfg) r resp]
                | _ \<Rightarrow> [])
           | _ \<Rightarrow> [])
      | _ \<Rightarrow> [])"

definition path_answers ::
  "('w, 'x) gateway_env_scheme \<Rightarrow> proxy_config \<Rightarrow> tendermint_request \<Rightarrow> 'w pstate \<Rightarrow> node_answer list" where
  "path_answers E cfg tm s =
     (case find_tendermint E cfg tm s of
        (Inr None, s1) \<Rightarrow>
          (case do_tendermint_upstream_call E cfg tm (snd s1) of
             (Inr resp, w2) \<Rightarrow> [PathAnswer (chain_id cfg) tm resp]
           | _ \<Rightarrow> [])
      | _ \<Rightarrow> [])"

text \<open>The answers a whole request leads to: those of the calls that are admitted and charged.\<close>

definition answers_to ::
  "(reply + string \<times> 'a) outcome \<times> 's \<Rightarrow> (string \<times> 'a \<Rightarrow> 's \<Rightarrow> rpc_error option \<times> 's) \<Rightarrow>
   ('a \<Rightarrow> 's \<Rightarrow> node_answer list) \<Rightarrow> node_answer list" where
  "answers_to admitted charge ask =
     (case admitted of
        (Ret (Inr a), s1) \<Rightarrow> (case charge a s1 of (None, s2) \<Rightarrow> ask (snd a) s2 | _ \<Rightarrow> [])
      | _ \<Rightarrow> [])"

definition http_answers ::
  "('w, 'x) gateway_env_scheme \<Rightarrow> json_handler \<Rightarrow> http_request \<Rightarrow> 'w pstate \<Rightarrow> node_answer list" where
  "http_answers E h q s =
     answers_to (admit_http E h q s) (charge_with E h cost) (\<lambda>req s2. rpc_answers E (h_proxy h) req (snd s2))"

definition tendermint_answers ::
  "('w, 'x) gateway_env_scheme \<Rightarrow> json_handler \<Rightarrow> http_request \<Rightarrow> 'w pstate \<Rightarrow> node_answer list" where
  "tendermint_answers E h q s =
     answers_to (admit_tendermint h q s) (charge_with E h (\<lambda>_. 1)) (path_answers E (h_proxy h))"

text \<open>
  The text \<open>b\<close> is the result of a recorded answer of chain \<open>c\<close> to the method \<open>m\<close> with parameters
  of the hash of \<open>p\<close>.
\<close>

definition rpc_result_of :: "node_answer list \<Rightarrow> nat \<Rightarrow> string \<Rightarrow> bytes \<Rightarrow> bytes \<Rightarrow> bool" where
  "rpc_result_of H c m p b \<longleftrightarrow>
     (\<exists>r resp ur. RpcAnswer c r resp \<in> set H \<and> rq_method r = m \<and> md5_hex (rq_params r) = md5_hex p \<and>
        unmarshal_response resp = Some ur \<and> ur_result ur = Some b)"

definition path_result_of :: "node_answer list \<Rightarrow> nat \<Rightarrow> string \<Rightarrow> string \<Rightarrow> bytes \<Rightarrow> bool" where
  "path_result_of H c path q b \<longleftrightarrow>
     (\<exists>tm resp ur. PathAnswer c tm resp \<in> set H \<and> tm_path tm = path \<and>
        md5_hex (path @ tm_query tm) = md5_hex (path @ q) \<and>
        unmarshal_response resp = Some ur \<and> ur_result ur \<noteq> None \<and> marshal_upstream_response ur = Some b)"

definition sourced :: "('w \<Rightarrow> string \<Rightarrow> string option) \<Rightarrow> node_answer list \<Rightarrow> 'w \<Rightarrow> bool" where
  "sourced ctext H w \<longleftrightarrow>
     (\<forall>c m p b. ctext w (rpc_cache_key c m p) = Some b \<longrightarrow> rpc_result_of H c m p b) \<and>
     (\<forall>c path q b. ctext w (tendermint_cache_key c path q) = Some b \<longrightarrow> path_result_of H c path q b)"

lemma sourced_append: "sourced ctext H w \<Longrightarrow> sourced ctext (A @ H) w"
  unfolding sourced_def rpc_result_of_def path_result_of_def set_append by blast

lemma sourced_kept: "untouched cval ctext cache_keys w w' \<Longrightarrow> sourced ctext H w \<Longrightarrow> sourced ctext H w'"
  by (simp add: sourced_def untouched_def)

text \<open>An entry may be lost at any time.\<close>

lemma sourced_lost:
  "\<forall>j \<in> cache_keys. ctext w' j \<in> {None, ctext w j} \<Longrightarrow> sourced ctext H w \<Longrightarrow> sourced ctext H w'"
  unfolding sourced_def using cache_keys_intros by (metis (no_types, lifting) insertE option.distinct(1) singletonD)

lemma rpc_result_of_hash: "md5_hex p = md5_hex p' \<Longrightarrow> rpc_result_of H c m p b = rpc_result_of H c m p' b"
  by (simp add: rpc_result_of_def)

lemma path_result_of_hash:
  "md5_hex (m @ q) = md5_hex (m @ q') \<Longrightarrow> path_result_of H c m q b = path_result_of H c m q' b"
  by (simp add: path_result_of_def)

lemma sourced_rpc_entry:
  assumes "sourced ctext H w" "rpc_result_of H c m p b"
    and "untouched cval ctext (- {rpc_cache_key c m p}) w w'"
    and "ctext w' (rpc_cache_key c m p) \<in> {None, ctext w (rpc_cache_key c m p), Some b}"
  shows "sourced ctext H w'"
proof -
  have "rpc_result_of H c' m' p' b'" if e: "ctext w' (rpc_cache_key c' m' p') = Some b'" for c' m' p' b'
  proof (cases "rpc_cache_key c' m' p' = rpc_cache_key c m p")
    case True
    then have "c' = c" "m' = m" "md5_hex p' = md5_hex p" by (simp_all add: cache_key_eqs)
    then show ?thesis
      using assms(1,2,4) e True rpc_result_of_hash [of p' p] by (auto simp: sourced_def)
  next
    case False
    then show ?thesis using assms(1,3) e by (simp add: sourced_def untouched_def)
  qed
  moreover have "path_result_of H c' m' q' b'" if e: "ctext w' (tendermint_cache_key c' m' q') = Some b'" for c' m' q' b'
    using assms(1,3) e cache_key_eqs(3) [of c m p c' m' q'] by (simp add: sourced_def untouched_def)
  ultimately show ?thesis by (simp add: sourced_def)
qed

lemma sourced_path_entry:
  assumes "sourced ctext H w" "path_result_of H c m q b"
    and "untouched cval ctext (- {tendermint_cache_key c m q}) w w'"
    and "ctext w' (tendermint_cache_key c m q) \<in> {None, ctext w (tendermint_cache_key c m q), Some b}"
  shows "sourced ctext H w'"
proof -
  have "path_result_of H c' m' q' b'" if e: "ctext w' (tendermint_cache_key c' m' q') = Some b'" for c' m' q' b'
  proof (cases "tendermint_cache_key c' m' q' = tendermint_cache_key c m q")
    case True
    then have "c' = c" "m' = m" "md5_hex (m @ q') = md5_hex (m @ q)" by (auto simp: cache_key_eqs)
    then show ?thesis
      using assms(1,2,4) e True path_result_of_hash [of m q' q] by (auto simp: sourced_def)
  next
    case False
    then show ?thesis using assms(1,3) e by (simp add: sourced_def untouched_def)
  qed
  moreover have "rpc_result_of H c' m' p' b'" if e: "ctext w' (rpc_cache_key c' m' p') = Some b'" for c' m' p' b'
    using assms(1,3) e cache_key_eqs(3) [of c' m' p' c m q] by (simp add: sourced_def untouched_def)
  ultimately show ?thesis by (simp add: sourced_def)
qed

section \<open>What is assumed of Redis and the connections\<close>

text \<open>
  A command that stores a text leaves the old entry, the new one or none, also when it fails; the
  statistics are not kept under the cache's keys; and opening and writing to connections leaves
  Redis alone.
\<close>

locale cache_world =
  ws_contract E cval ctext cttl
  for E :: "('w, 'x) ws_env_scheme"
    and cval :: "'w \<Rightarrow> string \<Rightarrow> int option"
    and ctext :: "'w \<Rightarrow> string \<Rightarrow> string option"
    and cttl :: "'w \<Rightarrow> string \<Rightarrow> int option" +
  assumes set_text: "rd_set E j v t w = (x, w') \<Longrightarrow> ctext w' j \<in> {None, ctext w j, Some v}"
    and stats_not_cached: "cache_keys \<inter> stat_keys E = {}"
    and upgrade_frame: "ws_upgrade E w = (x, w') \<Longrightarrow> untouched cval ctext UNIV w w'"
    and connect_frame: "ws_connect E url w = (x, w') \<Longrightarrow> untouched cval ctext UNIV w w'"
    and reply_frame: "ws_reply E b w = (x, w') \<Longrightarrow> untouched cval ctext UNIV w w'"
begin

abbreviation sound :: "node_answer list \<Rightarrow> 'w \<Rightarrow> bool" where
  "sound \<equiv> sourced ctext"

lemma sound_kept: "kept cache_keys w w' \<Longrightarrow> sound H w \<Longrightarrow> sound H w'"
  by (rule sourced_kept)

lemma limiter_not_cached: "cache_keys \<inter> limiter_keys c k = {}"
  by (auto simp: cache_keys_def limiter_keys_def day_key_def rpc_cache_key_def tendermint_cache_key_def
      day_rate_limit_key_def sec_rate_limit_key_def)

lemma rate_limit_sound: "rate_limit E h k n w = (r, w') \<Longrightarrow> sound H w \<Longrightarrow> sound H w'"
  using sound_kept rate_limit_kept [OF _ limiter_not_cached stats_not_cached] by blast

lemma charge_sound: "charge_with E h price a s = (r, s') \<Longrightarrow> sound H (snd s) \<Longrightarrow> sound H (snd s')"
  by (auto simp: charge_with_def dest: rate_limit_sound split: prod.splits)

lemma bind_sound: "bind E h k raw black erigon w = (r, w') \<Longrightarrow> sound H w \<Longrightarrow> sound H w'"
  using sound_kept bind_kept [OF _ stats_not_cached] by blast

lemma set_others: "untouched cval ctext (- {j}) w (snd (rd_set E j v t w))"
  by (cases "rd_set E j v t w") (use set_frame in auto)

lemma set_own: "ctext (snd (rd_set E j v t w)) j \<in> {None, ctext w j, Some v}"
  by (cases "rd_set E j v t w") (use set_text in auto)

text \<open>A call fills the cache with the answer that it records.\<close>

lemma store_rpc_sound:
  assumes "sound H w" "\<And>b. x = Some b \<Longrightarrow> rpc_result_of H (chain_id cfg) (rq_method r) (rq_params r) b"
  shows "sound H (store_result E cfg (rpc_key_of cfg r) x w)"
proof (cases "x = None \<or> rpc_key_of cfg r = None")
  case False
  then obtain b where b: "x = Some b" "rpc_key_of cfg r = Some (rpc_cache_key (chain_id cfg) (rq_method r) (rq_params r))"
    by (auto simp: rpc_key_of_def split: if_splits)
  have "sound H (snd (rd_set E (rpc_cache_key (chain_id cfg) (rq_method r) (rq_params r)) b (cache_time cfg) w))"
    by (rule sourced_rpc_entry) (rule assms(1) assms(2) [OF b(1)] set_others set_own)+
  then show ?thesis by (simp add: b store_result_def cache_fn_def)
qed (use assms(1) in \<open>auto simp: store_result_def split: option.split\<close>)

lemma store_path_sound:
  assumes "sound H w" "\<And>b. x = Some b \<Longrightarrow> path_result_of H (chain_id cfg) (tm_path tm) (tm_query tm) b"
  shows "sound H (store_result E cfg (tendermint_key_of cfg tm) x w)"
proof (cases "x = None \<or> tendermint_key_of cfg tm = None")
  case False
  then obtain b where b: "x = Some b"
    "tendermint_key_of cfg tm = Some (tendermint_cache_key (chain_id cfg) (tm_path tm) (tm_query tm))"
    by (auto simp: tendermint_key_of_def split: if_splits)
  have "sound H (snd (rd_set E (tendermint_cache_key (chain_id cfg) (tm_path tm) (tm_query tm)) b (cache_time cfg) w))"
    by (rule sourced_path_entry) (rule assms(1) assms(2) [OF b(1)] set_others set_own)+
  then show ?thesis by (simp add: b store_result_def cache_fn_def)
qed (use assms(1) in \<open>auto simp: store_result_def split: option.split\<close>)

lemma find_rpc_kept: "find_rpc E cfg r w = (y, w1) \<Longrightarrow> kept S w w1"
  using get_kept by (auto simp: find_rpc_def split: prod.splits sum.splits option.splits if_splits)

lemma find_tendermint_kept: "find_tendermint E cfg tm s = (y, s1) \<Longrightarrow> kept S (snd s) (snd s1)"
  using get_kept
  by (auto simp: find_tendermint_def from_request_path_def from_tendermint_cache_def Let_def
      split: prod.splits sum.splits if_splits)

lemma single_proxy_sound:
  assumes "single_proxy E cfg raw r w = (x, w')" "batch_call raw = None" "single_call raw = Some r" "sound H w"
  shows "sound (rpc_answers E cfg raw w @ H) w'"
proof -
  obtain f w1 where f: "find_rpc E cfg r w = (f, w1)" by (cases "find_rpc E cfg r w")
  have w1: "sound H w1" using find_rpc_kept [OF f] assms(4) by (rule sound_kept)
  show ?thesis
  proof (cases "f = Inr None")
    case False
    then have "w' = w1" using assms(1) f by (auto simp: single_proxy_def split: sum.splits option.splits)
    then show ?thesis using w1 by (simp add: sourced_append)
  next
    case True
    obtain y w2 where y: "do_http_upstream_call E cfg raw w1 = (y, w2)"
      by (cases "do_http_upstream_call E cfg raw w1")
    have w2: "sound H' w2" if "sound H' w1" for H'
      using do_http_upstream_call_kept [OF y] that by (rule sound_kept)
    have fetch: "fetch_rpc E cfg (rpc_key_of cfg r) raw w1 = (x, w')"
      using assms(1) f True by (simp add: single_proxy_def)
    show ?thesis
    proof (cases y)
      case (Inl e)
      then show ?thesis using fetch y w2 [OF w1] by (auto simp: fetch_rpc_def intro: sourced_append)
    next
      case (Inr resp)
      have a: "rpc_answers E cfg raw w = [RpcAnswer (chain_id cfg) r resp]"
        using assms(2,3) f True y Inr by (simp add: rpc_answers_def)
      have now: "sound (RpcAnswer (chain_id cfg) r resp # H) w2"
        using sourced_append [OF w2 [OF w1], of "[RpcAnswer (chain_id cfg) r resp]"] by simp
      have "sound (RpcAnswer (chain_id cfg) r resp # H) (store_result E cfg (rpc_key_of cfg r) (ur_result ur) w2)"
        if "unmarshal_response resp = Some ur" for ur
        by (rule store_rpc_sound [OF now]) (use that in \<open>auto simp: rpc_result_of_def\<close>)
      then show ?thesis
        using fetch y Inr now by (auto simp: fetch_rpc_def a split: option.splits)
    qed
  qed
qed

lemma http_proxy_sound:
  assumes "http_proxy E cfg raw s = (x, s')" "sound H (snd s)"
  shows "sound (rpc_answers E cfg raw (snd s) @ H) (snd s')"
proof (cases "batch_call raw")
  case (Some rs)
  then have "\<exists>y. do_http_upstream_call E cfg raw (snd s) = (y, snd s')"
    using assms(1) http_proxy_batch [of raw E cfg "fst s" "snd s"] by (auto split: prod.splits)
  then have "sound H (snd s')" using do_http_upstream_call_kept assms(2) sound_kept by blast
  then show ?thesis by (rule sourced_append)
next
  case None
  show ?thesis
  proof (cases "single_call raw")
    case none: None
    have "snd s' = snd s"
      using assms(1) None none
      by (cases s) (auto simp: http_proxy_def is_batch_call_def from_request_def from_cache_def Let_def)
    then show ?thesis using assms(2) by (simp add: sourced_append)
  next
    case (Some r)
    obtain y where "single_proxy E cfg raw r (snd s) = (y, snd s')"
      using assms(1) http_proxy_single [OF None Some, of E cfg "fst s" "snd s"] by (auto split: prod.splits)
    then show ?thesis using None Some assms(2) by (rule single_proxy_sound)
  qed
qed

lemma tendermint_proxy_sound:
  assumes "tendermint_proxy E cfg tm s = (x, s')" "sound H (snd s)"
  shows "sound (path_answers E cfg tm s @ H) (snd s')"
proof -
  obtain f s1 where f: "find_tendermint E cfg tm s = (f, s1)" by (cases "find_tendermint E cfg tm s")
  have s1: "sound H (snd s1)" using find_tendermint_kept [OF f] assms(2) by (rule sound_kept)
  consider (err) e where "f = Inl e" | (hit) d where "f = Inr (Some d)" | (miss) "f = Inr None"
    by (metis obj_sumE option.exhaust)
  then show ?thesis
  proof cases
    case err
    then show ?thesis using assms(1) f tendermint.call_error s1 sourced_append by fastforce
  next
    case hit
    then show ?thesis using assms(1) f tendermint.call_hit s1 sourced_append by fastforce
  next
    case miss
    obtain y w2 where y: "do_tendermint_upstream_call E cfg tm (snd s1) = (y, w2)"
      by (cases "do_tendermint_upstream_call E cfg tm (snd s1)")
    have w2: "sound H w2" using do_tendermint_upstream_call_kept [OF y] s1 by (rule sound_kept)
    have fetch: "fetch_tendermint E cfg tm s1 = (x, s')"
      using assms(1) f miss tendermint.call_miss by metis
    show ?thesis
    proof (cases y)
      case (Inl e)
      then show ?thesis
        using fetch y w2 by (auto simp: fetch_tendermint_def tendermint_upstream_def Let_def intro: sourced_append)
    next
      case (Inr resp)
      let ?H = "PathAnswer (chain_id cfg) tm resp # H"
      have a: "path_answers E cfg tm s = [PathAnswer (chain_id cfg) tm resp]"
        using f miss y Inr by (simp add: path_answers_def)
      have now: "sound ?H w2" using sourced_append [OF w2, of "[PathAnswer (chain_id cfg) tm resp]"] by simp
      have "sound ?H (store_result E cfg (tendermint_key_of cfg tm) (marshal_upstream_response ur) w2)"
        if "unmarshal_response resp = Some ur" "ur_result ur \<noteq> None" for ur
        by (rule store_path_sound [OF now]) (use that in \<open>auto simp: path_result_of_def\<close>)
      then show ?thesis
        using fetch y Inr now
        by (auto simp: fetch_tendermint_def tendermint_upstream_def a Let_def split: option.splits if_splits)
    qed
  qed
qed

end

section \<open>Runs\<close>

text \<open>
  \<open>cache_run \<dots> w H\<close>: from a world with an empty cache the requests so far led to \<open>w\<close>, and the nodes
  gave the answers \<open>H\<close>, the last one first.  A step is a request over HTTP or to a Tendermint path, the
  opening of a session, a frame of its client, a frame of its node, or a message written to its
  client; or entries of the cache expire.
\<close>

inductive cache_run ::
  "('w, 'x) ws_env_scheme \<Rightarrow> ('w \<Rightarrow> string \<Rightarrow> string option) \<Rightarrow> 'w \<Rightarrow> node_answer list \<Rightarrow> bool"
  for E ctext where
  fresh: "\<forall>j \<in> cache_keys. ctext w j = None \<Longrightarrow> cache_run E ctext w []"
| http: "cache_run E ctext w H \<Longrightarrow> Http E h q (rid, w) = (x, (rid', w')) \<Longrightarrow>
     cache_run E ctext w' (http_answers E h q (rid, w) @ H)"
| tendermint: "cache_run E ctext w H \<Longrightarrow> TendermintHttp E h q (rid, w) = (x, (rid', w')) \<Longrightarrow>
     cache_run E ctext w' (tendermint_answers E h q (rid, w) @ H)"
| session: "cache_run E ctext w H \<Longrightarrow> open_ws E h q (rid, w) = (y, w') \<Longrightarrow> cache_run E ctext w' H"
| client: "cache_run E ctext w H \<Longrightarrow> ss_world s = w \<Longrightarrow> client_frame E h raw (s :: 'w session) = (x, s') \<Longrightarrow>
     cache_run E ctext (ss_world s') H"
| node: "cache_run E ctext w H \<Longrightarrow> open_ws E h q st = (Inr s0, w0) \<Longrightarrow> ws_run E h uri s0 s \<Longrightarrow> ss_world s = w \<Longrightarrow>
     upstream_frame E (h_proxy h) c raw s = (x, s') \<Longrightarrow> cache_run E ctext (ss_world s') H"
| writer: "cache_run E ctext w H \<Longrightarrow> ss_world s = w \<Longrightarrow>
     cache_run E ctext (ss_world (write_response E h uri d (s :: 'w session))) H"
| expiry: "cache_run E ctext w H \<Longrightarrow> \<forall>j \<in> cache_keys. ctext w' j \<in> {None, ctext w j} \<Longrightarrow> cache_run E ctext w' H"

context cache_world
begin

text \<open>Both endpoints, by what they admit, charge and forward.\<close>

lemma endpoint_sound:
  assumes "metered_endpoint serve admit (charge_with E h price) forward"
    and "\<And>y s1. admit s = (y, s1) \<Longrightarrow> sound H (snd s1)"
    and "\<And>a s2 y s3. forward a s2 = (y, s3) \<Longrightarrow> sound H (snd s2) \<Longrightarrow> sound (ask (snd a) s2 @ H) (snd s3)"
    and "serve s = (x, s')"
  shows "sound (answers_to (admit s) (charge_with E h price) ask @ H) (snd s')"
proof (cases rule: metered_endpoint.serve_cases [OF assms(1), of s, case_names panics rejects unpaid served])
  case (panics p s1)
  then show ?thesis using assms(2,4) by (auto simp: answers_to_def)
next
  case (rejects r s1)
  then show ?thesis using assms(2,4) by (auto simp: answers_to_def)
next
  case (unpaid a s1 e s2)
  then show ?thesis using charge_sound [OF unpaid(2) assms(2) [OF unpaid(1)]] assms(4) by (simp add: answers_to_def)
next
  case (served a s1 s2)
  have "sound H (snd s2)" by (rule charge_sound [OF served(2) assms(2) [OF served(1)]])
  then show ?thesis using assms(3,4) served by (simp add: answers_to_def)
qed

lemma forward_http_sound:
  "forward_http E h q a s = (y, s1) \<Longrightarrow> sound H (snd s) \<Longrightarrow> sound (rpc_answers E (h_proxy h) (snd a) (snd s) @ H) (snd s1)"
  using http_proxy_sound [of "h_proxy h" "snd a" s]
  by (auto simp: forward_http_def split: outcome.splits sum.splits prod.splits option.splits)

lemma forward_tendermint_sound:
  "forward_tendermint E h q a s = (y, s1) \<Longrightarrow> sound H (snd s) \<Longrightarrow> sound (path_answers E (h_proxy h) (snd a) s @ H) (snd s1)"
  using tendermint_proxy_sound [of "h_proxy h" "snd a" s]
  by (auto simp: forward_tendermint_def split: sum.splits prod.splits)

lemma Http_sound:
  assumes "Http E h q s = (x, s')" "sound H (snd s)"
  shows "sound (http_answers E h q s @ H) (snd s')"
  unfolding http_answers_def
proof (rule endpoint_sound [OF http_end.metered_endpoint_axioms])
  show "sound H (snd s1)" if "admit_http E h q s = (y, s1)" for y s1
    using admit_http_kept [OF that stats_not_cached] assms(2) by (rule sound_kept)
qed (erule (1) forward_http_sound, rule assms(1))

lemma TendermintHttp_sound:
  assumes "TendermintHttp E h q s = (x, s')" "sound H (snd s)"
  shows "sound (tendermint_answers E h q s @ H) (snd s')"
  unfolding tendermint_answers_def
proof (rule endpoint_sound [OF tendermint_end.metered_endpoint_axioms])
  show "sound H (snd s1)" if "admit_tendermint h q s = (y, s1)" for y s1
    using admit_tendermint_kept [OF that] assms(2) by (rule sound_kept)
qed (erule (1) forward_tendermint_sound, rule assms(1))

text \<open>Sessions.\<close>

lemma open_ws_kept:
  assumes "open_ws E h q st = (y, w')"
  shows "kept S (snd st) w'"
proof -
  have dial: "kept S w w2" if "new_upstream_ws E cfg w = (z, w2)" for cfg z w w2
    using that
    by (auto simp: new_upstream_ws_def split: prod.splits option.splits if_splits
        dest!: connect_frame intro: untouched_trans kept_UNIV)
  have up: "kept S w w1" if "ws_upgrade E w = (z, w1)" for z w w1
    using upgrade_frame [OF that] by (rule kept_UNIV)
  show ?thesis
    using assms
    by (auto simp: open_ws_def split: prod.splits sum.splits option.splits intro: untouched_trans up dial)
qed

lemma client_frame_sound:
  assumes "client_frame E h raw s = (x, s')" "sound H (ss_world s)"
  shows "sound H (ss_world s')"
proof -
  obtain y w1 where y: "bind E h (ss_key s) raw (ws_black_methods h) (erigon_methods h) (ss_world s) = (y, w1)"
    by fastforce
  have w1: "sound H w1" using bind_sound [OF y assms(2)] .
  have paid: "sound H w2" if "rate_limit E h (ss_key s) n w1 = (z, w2)" for n z w2
    using rate_limit_sound [OF that w1] .
  have sent: "sound H (ss_world s3)"
    if "rate_limit E h (ss_key s) n w1 = (z, w2)" "ws_proxy_send E (h_proxy h) req (s\<lparr>ss_world := w2\<rparr>) = (v, s3)"
    for n z w2 req v s3
    using sound_kept [OF ws_proxy_send_kept [OF that(2)]] paid [OF that(1)] by simp
  show ?thesis
    using assms(1) y w1 paid sent
    by (auto simp: client_frame_def resp_json_def split: outcome.splits sum.splits option.splits prod.splits)
qed

lemma write_response_sound:
  assumes "sound H (ss_world s)"
  shows "sound H (ss_world (write_response E h uri d s))"
proof (cases "rd_data d")
  case None
  then show ?thesis using assms by (simp add: write_response_def)
next
  case (Some b)
  let ?b = "case clear_info uri b (if str_contains b ''node_info'' then ''status'' else rd_method d) of
    Inl e \<Rightarrow> [] | Inr b' \<Rightarrow> b'"
  obtain e w1 where r: "ws_reply E ?b (ss_world s) = (e, w1)" by fastforce
  have w1: "sound H w1" using kept_UNIV [OF reply_frame [OF r]] assms by (rule sound_kept)
  obtain z w2 where l: "rate_limit E h (ss_key s) 1 w1 = (z, w2)" by fastforce
  have "sound H w2" using l w1 by (rule rate_limit_sound)
  then show ?thesis using w1 by (simp add: write_response_def Some r l split: option.split)
qed

lemma cache_run_sound: "cache_run E ctext w H \<Longrightarrow> sound H w"
proof (induction rule: cache_run.induct)
  case (fresh w)
  then show ?case by (simp add: sourced_def)
next
  case (http w H h q rid x rid' w')
  then show ?case using Http_sound [OF http(2)] by simp
next
  case (tendermint w H h q rid x rid' w')
  then show ?case using TendermintHttp_sound [OF tendermint(2)] by simp
next
  case (session w H h q rid y w')
  then show ?case using sound_kept [OF open_ws_kept [OF session(2)]] by simp
next
  case (client w H s h raw x s')
  then show ?case using client_frame_sound by blast
next
  case (node w H h q st s0 w0 uri s c raw x s')
  then show ?case using upstream_frame_unmarked unmarked_run unmarked_opened by metis
next
  case (writer w H s h uri d)
  then show ?case using write_response_sound by blast
next
  case (expiry w H w')
  then show ?case by (intro sourced_lost [OF expiry(2)])
qed

text \<open>What is found in the cache after a run.\<close>

lemma found_rpc_sourced:
  assumes "sound H w" "find_rpc E cfg r w = (Inr (Some d), w1)"
  shows "\<exists>res. rpc_result_of H (chain_id cfg) (rq_method r) (rq_params r) res \<and>
    marshal_response \<lparr>rs_id = rq_id r, rs_version = rq_version r, rs_error = [], rs_result = res\<rparr> = Some d"
proof -
  obtain t where g: "rd_get E (rpc_cache_key (chain_id cfg) (rq_method r) (rq_params r)) w = (Inr (Some t), w1)"
    and m: "marshal_response \<lparr>rs_id = rq_id r, rs_version = rq_version r, rs_error = [], rs_result = t\<rparr> = Some d"
    using assms(2) by (auto simp: find_rpc_def split: prod.splits sum.splits option.splits if_splits)
  have "ctext w (rpc_cache_key (chain_id cfg) (rq_method r) (rq_params r)) = Some t" using get_ok [OF g] by simp
  then have "rpc_result_of H (chain_id cfg) (rq_method r) (rq_params r) t" using assms(1) by (simp add: sourced_def)
  then show ?thesis using m by blast
qed

lemma found_path_sourced:
  assumes "sound H (snd s)" "find_tendermint E cfg tm s = (Inr (Some d), s1)"
  shows "path_result_of H (chain_id cfg) (tm_path tm) (tm_query tm) d"
proof -
  obtain w1 where g: "rd_get E (tendermint_cache_key (chain_id cfg) (tm_path tm) (tm_query tm)) (snd s) = (Inr (Some d), w1)"
    using assms(2)
    by (auto simp: find_tendermint_def from_request_path_def from_tendermint_cache_def Let_def
        split: prod.splits sum.splits option.splits if_splits)
  have "ctext (snd s) (tendermint_cache_key (chain_id cfg) (tm_path tm) (tm_query tm)) = Some d"
    using get_ok [OF g] by simp
  then show ?thesis using assms(1) by (simp add: sourced_def)
qed

end

section \<open>The example\<close>

interpretation demo_cached: cache_world "demo_ws_env reply" "\<lambda>w. kv_num (store w)" "\<lambda>w. kv_txt (store w)"
    "\<lambda>w. kv_ttl (store w)" for reply
proof (unfold_locales, unfold demo_ws_fields, goal_cases)
  case (1 j v t w x w')
  then have "store w' = (store w)(j \<mapsto> (v, if t = 0 then None else Some t))"
    by (auto simp: demo_env_def on_store_iff mem_redis_def)
  then show ?case by (simp add: kv_txt_def)
next
  case 2
  then show ?case
    by (auto simp: stat_keys_def demo_env_def cache_keys_def rpc_cache_key_def tendermint_cache_key_def)
next
  case (3 w x w')
  then show ?case by (auto simp: demo_ws_env_def gateway_env.defs ws_env.defs)
next
  case (4 url w x w')
  then show ?case by (auto simp: demo_ws_env_def gateway_env.defs ws_env.defs)
next
  case (5 b w x w')
  then show ?case by (auto simp: untouched_kv demo_ws_env_def gateway_env.defs ws_env.defs)
qed

text \<open>A call fills the cache, and a second one, under another id, is answered from it.\<close>

definition second_call :: rpc_request where
  "second_call = zero_rpc_request\<lparr>single_call := Some ((demo_call_of ''eth_chainId'')\<lparr>rq_id := Some (AStr ''2'')\<rparr>)\<rparr>"

lemma chain_id_admitted:
  "admit_http (demo_ws_env demo_reply) demo_handler (demo_request ''/eth/v1/k'' (demo_text ''eth_chainId'')) (0, quota_start) =
   (Ret (Inr (''k'', zero_rpc_request\<lparr>single_call := Some (demo_call_of ''eth_chainId'')\<rparr>)), (0, quota_start))"
proof -
  have "plain_text ''eth_chainId''" by code_simp
  then show ?thesis
    by (simp add: admit_http_def demo_request_def new_logger_def bind_api_key_def bind_def Let_def is_batch_call_def
        demo_text_read validate_req_def In_iff set_black_list demo_handler_def demo_call_of_def zero_rpc_request_def)
qed

lemma chain_id_charged:
  obtains w where "charge_with (demo_ws_env demo_reply) demo_handler cost
      (''k'', zero_rpc_request\<lparr>single_call := Some (demo_call_of ''eth_chainId'')\<rparr>) (0, quota_start) = (None, (0, w))"
    "\<And>j. j \<in> cache_keys \<Longrightarrow> kv_txt (store w) j = None"
proof -
  let ?a = "(''k'', zero_rpc_request\<lparr>single_call := Some (demo_call_of ''eth_chainId'')\<rparr>)"
  have "fst (charge_with (demo_ws_env demo_reply) demo_handler cost ?a (0, quota_start)) = None" by code_simp
  then obtain w where c: "charge_with (demo_ws_env demo_reply) demo_handler cost ?a (0, quota_start) = (None, (0, w))"
    by (cases "charge_with (demo_ws_env demo_reply) demo_handler cost ?a (0, quota_start)")
       (auto simp: charge_with_def split: prod.splits)
  have "kv_txt (store quota_start) j = None" if "j \<in> cache_keys" for j
    using that by (auto simp: quota_start_def demo_kv_def kv_txt_def cache_keys_def rpc_cache_key_def
        tendermint_cache_key_def sec_quota_key_def day_quota_key_def)
  moreover have "untouched (\<lambda>w. kv_num (store w)) (\<lambda>w. kv_txt (store w)) cache_keys quota_start w"
    by (rule demo_ws.rate_limit_kept [OF _ demo_cached.limiter_not_cached demo_cached.stats_not_cached, where r = None])
       (use c in \<open>auto simp: charge_with_def split: prod.splits\<close>)
  ultimately show thesis using that c by (simp add: untouched_def)
qed

lemma chain_id_fetched:
  fixes w :: demo_world
  assumes "kv_txt (store w) (rpc_cache_key 1 ''eth_chainId'' []) = None"
  obtains w' where
    "single_proxy (demo_ws_env demo_reply) demo_cfg (zero_rpc_request\<lparr>single_call := Some (demo_call_of ''eth_chainId'')\<rparr>)
       (demo_call_of ''eth_chainId'') w = (Inr demo_reply, w')"
    "rpc_answers (demo_ws_env demo_reply) demo_cfg (zero_rpc_request\<lparr>single_call := Some (demo_call_of ''eth_chainId'')\<rparr>) w =
       [RpcAnswer 1 (demo_call_of ''eth_chainId'') demo_reply]"
    "kv_txt (store w') (rpc_cache_key 1 ''eth_chainId'' []) = Some (enc_string ''0x1'')"
proof -
  let ?E = "demo_ws_env demo_reply" and ?r = "demo_call_of ''eth_chainId''"
  let ?req = "zero_rpc_request\<lparr>single_call := Some ?r\<rparr>"
  have f: "find_rpc ?E demo_cfg ?r w = (Inr None, w)"
    using assms
    by (simp add: find_rpc_def demo_ws_fields demo_env_def on_store_def mem_redis_def demo_cfg_def demo_call_of_def)
  obtain b where m: "marshal_request ?req = Some b"
    by (simp add: marshal_request_def zero_rpc_request_def marshal_single_def raw_member_def demo_call_of_def)
  have p: "do_http_upstream_call ?E demo_cfg ?req w = (Inr demo_reply, w\<lparr>sent := (''http://geth'', b) # sent w\<rparr>)"
    unfolding do_http_upstream_call_def m
    by (simp add: demo_ws_fields upstream_url_def zero_rpc_request_def RequestTypeErigon_def)
       (simp add: demo_env_def demo_cfg_def)
  let ?w' = "w\<lparr>sent := (''http://geth'', b) # sent w,
    store := (store w)(rpc_cache_key 1 ''eth_chainId'' [] \<mapsto> (enc_string ''0x1'', Some 12))\<rparr>"
  have "single_proxy ?E demo_cfg ?req ?r w = (Inr demo_reply, ?w')"
    unfolding single_proxy_def f
    by (simp add: fetch_rpc_def p demo_reply_decoded rpc_key_of_def store_result_def cache_fn_def demo_ws_fields)
       (simp add: demo_env_def on_store_def mem_redis_def demo_cfg_def demo_call_of_def In_iff)
  moreover have "rpc_answers ?E demo_cfg ?req w = [RpcAnswer 1 ?r demo_reply]"
  proof -
    have "batch_call zero_rpc_request = None" by (simp add: zero_rpc_request_def)
    then show ?thesis by (simp add: rpc_answers_def f p) (simp add: demo_cfg_def)
  qed
  ultimately show thesis using that by (simp add: kv_txt_def)
qed
lemma chain_id_run:
  obtains w' where
    "cache_run (demo_ws_env demo_reply) (\<lambda>w. kv_txt (store w)) w' [RpcAnswer 1 (demo_call_of ''eth_chainId'') demo_reply]"
    "kv_txt (store w') (rpc_cache_key 1 ''eth_chainId'' []) = Some (enc_string ''0x1'')"
proof -
  let ?E = "demo_ws_env demo_reply" and ?r = "demo_call_of ''eth_chainId''"
  let ?q = "demo_request ''/eth/v1/k'' (demo_text ''eth_chainId'')"
  let ?req = "zero_rpc_request\<lparr>single_call := Some ?r\<rparr>" and ?run = "cache_run ?E (\<lambda>w. kv_txt (store w))"
  obtain w where c: "charge_with ?E demo_handler cost (''k'', ?req) (0, quota_start) = (None, (0, w))"
    and empty: "\<And>j. j \<in> cache_keys \<Longrightarrow> kv_txt (store w) j = None"
    using chain_id_charged by blast
  obtain w' where p: "single_proxy ?E demo_cfg ?req ?r w = (Inr demo_reply, w')"
    and a: "rpc_answers ?E demo_cfg ?req w = [RpcAnswer 1 ?r demo_reply]"
    and held: "kv_txt (store w') (rpc_cache_key 1 ''eth_chainId'' []) = Some (enc_string ''0x1'')"
    using chain_id_fetched [of w] empty by blast
  have cfg: "h_proxy demo_handler = demo_cfg" by (simp add: demo_handler_def)
  have one: "batch_call ?req = None" "single_call ?req = Some ?r" by (simp_all add: zero_rpc_request_def)
  have "Http ?E demo_handler ?q (0, quota_start) = forward_http ?E demo_handler ?q (''k'', ?req) (0, w)"
    using chain_id_admitted c by (rule http_end.passed)
  then have "snd (Http ?E demo_handler ?q (0, quota_start)) = (1, w')"
    by (auto simp: forward_http_def cfg http_proxy_single [OF one] p i64_def split: option.splits sum.splits)
  then obtain x where x: "Http ?E demo_handler ?q (0, quota_start) = (x, (1, w'))" by (metis prod.collapse)
  have "?run quota_start []"
    by (rule cache_run.fresh)
       (auto simp: quota_start_def demo_kv_def kv_txt_def cache_keys_def rpc_cache_key_def
          tendermint_cache_key_def sec_quota_key_def day_quota_key_def)
  from cache_run.http [OF this x] have "?run w' [RpcAnswer 1 ?r demo_reply]"
    by (simp add: http_answers_def answers_to_def chain_id_admitted c cfg a)
  then show thesis using that held by blast
qed

section \<open>Properties\<close>

text \<open>
  C4. Every reply is a node's.  After any run of requests, by any keys to any chains' handlers, over HTTP,
  Tendermint paths and WebSockets, with Redis commands and nodes that fail at any point and entries
  that expire, a call that gets a reply gets what a node of its chain answers to it now, byte for
  byte, or the result of an answer that a node of the same chain gave in the run to a call of the
  same method and parameters (up to their MD5 sum), under its own id and version.
\<close>

theorem replies_come_from_nodes:
  assumes "cache_world E cval ctext cttl" "cache_run E ctext w H"
    and "batch_call raw = None" "single_call raw = Some r"
    and "http_proxy E cfg raw (rid, w) = (Ret (Inr d), s')"
  shows "rpc_answers E cfg raw w = [RpcAnswer (chain_id cfg) r d] \<or>
    (\<exists>res. rpc_result_of H (chain_id cfg) (rq_method r) (rq_params r) res \<and>
       marshal_response \<lparr>rs_id = rq_id r, rs_version = rq_version r, rs_error = [], rs_result = res\<rparr> = Some d)"
proof -
  have "single_proxy E cfg raw r w = (Inr d, snd s')"
    using assms(5) http_proxy_single [OF assms(3,4), of E cfg rid w] by (auto split: prod.splits)
  then show ?thesis
  proof (cases rule: rpc.reply_cases)
    case found
    then show ?thesis
      using cache_world.found_rpc_sourced [OF assms(1) cache_world.cache_run_sound [OF assms(1,2)]] by blast
  next
    case (fetched w1)
    then show ?thesis
      using assms(3,4)
      by (auto simp: rpc_answers_def fetch_rpc_def split: prod.splits sum.splits option.splits)
  qed
qed

theorem replies_come_from_nodes_witness:
  "\<exists>w H s d s'. cache_run (demo_ws_env demo_reply) (\<lambda>w. kv_txt (store w)) w H \<and>
     http_proxy (demo_ws_env demo_reply) demo_cfg second_call (s, w) = (Ret (Inr d), s') \<and>
     (\<exists>res. rpc_result_of H 1 ''eth_chainId'' [] res)"
proof -
  let ?E = "demo_ws_env demo_reply" and ?r' = "(demo_call_of ''eth_chainId'')\<lparr>rq_id := Some (AStr ''2'')\<rparr>"
  let ?H = "[RpcAnswer 1 (demo_call_of ''eth_chainId'') demo_reply]"
  obtain w where run: "cache_run ?E (\<lambda>w. kv_txt (store w)) w ?H"
    and held: "kv_txt (store w) (rpc_cache_key 1 ''eth_chainId'' []) = Some (enc_string ''0x1'')"
    by (rule chain_id_run)
  have "marshal_response \<lparr>rs_id = rq_id ?r', rs_version = rq_version ?r', rs_error = [], rs_result = enc_string ''0x1''\<rparr> \<noteq> None"
    by code_simp
  then obtain d where d: "marshal_response
      \<lparr>rs_id = rq_id ?r', rs_version = rq_version ?r', rs_error = [], rs_result = enc_string ''0x1''\<rparr> = Some d" by blast
  have f: "find_rpc ?E demo_cfg ?r' w = (Inr (Some d), w)"
    using held d
    by (simp add: find_rpc_def demo_ws_fields demo_env_def on_store_def mem_redis_def demo_cfg_def demo_call_of_def In_iff enc_string_def)
  have s: "batch_call second_call = None" "single_call second_call = Some ?r'"
    by (simp_all add: second_call_def zero_rpc_request_def)
  have two: "rpc_answers ?E demo_cfg second_call w = []"
    "http_proxy ?E demo_cfg second_call (1, w) = (Ret (Inr d), (2, w))"
    using http_proxy_single [OF s, of ?E demo_cfg 1 w] by (simp_all add: s rpc_answers_def single_proxy_def f i64_def)
  have r: "chain_id demo_cfg = 1" "rq_method ?r' = ''eth_chainId''" "rq_params ?r' = []"
    by (simp_all add: demo_cfg_def demo_call_of_def)
  have "\<exists>res. rpc_result_of ?H (chain_id demo_cfg) (rq_method ?r') (rq_params ?r') res"
    using replies_come_from_nodes [OF demo_cached.cache_world_axioms run s two(2)] two(1) by auto
  then show ?thesis using run two(2) unfolding r by blast
qed

text \<open>The same for a Tendermint path, whose whole reply is cached, written anew.\<close>

theorem path_replies_come_from_nodes:
  assumes "cache_world E cval ctext cttl" "cache_run E ctext w H"
    and "tendermint_proxy E cfg tm (rid, w) = (Inr d, s')"
  shows "path_answers E cfg tm (rid, w) = [PathAnswer (chain_id cfg) tm d] \<or>
    path_result_of H (chain_id cfg) (tm_path tm) (tm_query tm) d"
  using assms(3)
proof (cases rule: tendermint.reply_cases)
  case found
  have "sourced ctext H w" by (rule cache_world.cache_run_sound [OF assms(1,2)])
  then show ?thesis
    using cache_world.found_path_sourced [OF assms(1) _ found] by simp
next
  case (fetched s1)
  then show ?thesis
    by (auto simp: path_answers_def fetch_tendermint_def tendermint_upstream_def Let_def
        split: prod.splits sum.splits option.splits)
qed

end
