(* ===== verification/JsonText.thy ===== *)
theory JsonText
  imports PlainJson
begin

text \<open>
  What the JSON library writes is read back as it was: decimal numbers, integers held as floats, and
  texts of any valid UTF-8 with their escapes.
\<close>

section \<open>Decimal texts\<close>

lemma show_nat_head: "show_nat n = d # ds \<Longrightarrow> is_digit d \<and> (d = CHR ''0'' \<longrightarrow> n = 0 \<and> ds = [])"
proof (induction n arbitrary: d ds rule: show_nat.induct)
  case (1 n)
  show ?case
  proof (cases "n < 10")
    case True
    then have "[digit_char n] = d # ds" using "1.prems" by (simp add: show_nat.simps [of n])
    moreover have "of_char (digit_char n) = 48 + n" using True by (rule of_char_digit_char)
    ultimately show ?thesis using True by (auto simp: is_digit_def byte_def)
  next
    case False
    obtain e es where es: "show_nat (n div 10) = e # es" by (cases "show_nat (n div 10)") auto
    have "n div 10 \<noteq> 0" using False by (simp add: div_eq_0_iff)
    then show ?thesis
      using "1.IH" [OF False es] "1.prems" False es by (simp add: show_nat.simps [of n])
  qed
qed

lemma show_nat_is_digits: "\<forall>c \<in> set (show_nat n). is_digit c"
  using show_nat_chars by (auto simp: is_digit_def byte_def)

lemma show_int_cases:
  obtains (pos) d ds where "0 \<le> n" "show_int n = d # ds" "show_nat (nat n) = d # ds"
  | (neg) d ds where "n < 0" "show_int n = CHR ''-'' # d # ds" "show_nat (nat (- n)) = d # ds"
  by (cases "n < 0"; cases "show_nat (nat n)"; cases "show_nat (nat (- n))") (auto simp: show_int_def)

lemma scan_show_nat:
  assumes "show_nat n = d # ds"
  shows "is_digit d" "d = CHR ''0'' \<and> ds = [] \<or> d \<noteq> CHR ''0'' \<and> span_digits (d # ds) = (d # ds, [])"
proof -
  have "\<forall>c \<in> set (d # ds). is_digit c" using show_nat_is_digits [of n] assms by simp
  then have "span_digits (d # ds) = (d # ds, [])"
    unfolding span_digits_def by (metis takeWhile_eq_all_conv dropWhile_eq_Nil_conv)
  then show "is_digit d" "d = CHR ''0'' \<and> ds = [] \<or> d \<noteq> CHR ''0'' \<and> span_digits (d # ds) = (d # ds, [])"
    using show_nat_head [OF assms] by auto
qed

lemma scan_number_show_int: "scan_number (show_int n) = Some (show_int n, [])"
proof (cases n rule: show_int_cases)
  case (pos d ds)
  have "d \<noteq> CHR ''-''" using scan_show_nat(1) [OF pos(3)] by (auto simp: is_digit_def byte_def)
  then show ?thesis
    using scan_show_nat [OF pos(3)] by (auto simp: scan_number_def pos(2) scan_fraction_def scan_exp_def)
next
  case (neg d ds)
  then show ?thesis
    using scan_show_nat [OF neg(3)] by (auto simp: scan_number_def scan_fraction_def scan_exp_def)
qed

lemma strip_sign_show_int: "strip_sign (show_int n) = (n < 0, show_nat (nat \<bar>n\<bar>))"
proof (cases n rule: show_int_cases)
  case (pos d ds)
  then have "d \<noteq> CHR ''-''" "d \<noteq> CHR ''+''" using show_nat_head [OF pos(3)] by (auto simp: is_digit_def byte_def)
  then show ?thesis using pos by (simp add: strip_sign_def)
qed (simp add: strip_sign_def)

lemma json_parse_show_int: "json_parse (show_int n) = Some (JNum (show_int n))"
proof -
  obtain c cs where c: "show_int n = c # cs" and d: "c = CHR ''-'' \<or> is_digit c"
    using show_nat_head by (cases n rule: show_int_cases) auto
  have w: "\<not> is_ws c" "c \<notin> {CHR ''{'', CHR ''['', CHR 0x22}" "c \<notin> {CHR ''n'', CHR ''t'', CHR ''f''}"
    using d by (auto simp: is_ws_def is_digit_def byte_def)
  then have "scan_literal (show_int n) = Some (JNum (show_int n), [])"
    using scan_number_show_int [of n] c by (auto simp: scan_literal_def has_prefix_iff)
  then have "scan_value (Suc f) d (show_int n) = Some (JNum (show_int n), [])" for f d
    using w unfolding c by (simp add: skip_ws_Cons)
  then show ?thesis by (simp add: json_parse_def skip_ws_def)
qed

lemma plain_show_int: "plain_text (show_int n)"
proof -
  have "\<forall>c \<in> set (show_nat m). 48 \<le> byte c \<and> byte c < 58" for m
    using show_nat_is_digits by (auto simp: is_digit_def)
  then show ?thesis
    by (fastforce simp: show_int_def plain_text_def list_all_iff byte_def)
qed

text \<open>A decimal text within 64 bits is within the range of a float.\<close>

lemma scan_mantissa_digits:
  "\<forall>c \<in> set s. is_digit_of 10 c \<and> c \<noteq> CHR ''_'' \<and> c \<noteq> CHR ''.'' \<Longrightarrow> s \<noteq> [] \<or> dig \<Longrightarrow>
   scan_mantissa 10 s m 0 False dig = (positional 10 m s, 0, True, [])"
  by (induction s arbitrary: m dig) (auto simp: is_digit_of_def split: option.splits)

lemma nbits_bound: "n < 2 ^ k \<Longrightarrow> nbits n \<le> k"
proof (induction n arbitrary: k rule: nbits.induct)
  case (1 n)
  show ?case
  proof (cases "n = 0")
    case False
    then obtain k' where k: "k = Suc k'" using "1.prems" by (cases k) auto
    then have "n div 2 < 2 ^ k'" using "1.prems" by auto
    then show ?thesis using "1.IH" [OF False] False k by (subst nbits.simps) auto
  qed (simp add: nbits.simps)
qed

lemma nearest_f64_None:
  assumes "nearest_f64 neg n d = None"
  obtains e where "0 \<le> e" "e \<le> max (- 1074) (int (nbits n) - int (nbits d) - 52)"
    "2 ^ 1024 \<le> round_div n (d * 2 ^ nat e) * 2 ^ nat e"
proof -
  define e where "e = max (- 1074) (if (if int (nbits n) - int (nbits d) - 53 \<ge> 0
      then d * 2 ^ nat (int (nbits n) - int (nbits d) - 53) * 2 ^ 53 \<le> n
      else d * 2 ^ 53 \<le> n * 2 ^ nat (- (int (nbits n) - int (nbits d) - 53)))
    then int (nbits n) - int (nbits d) - 53 + 1 else int (nbits n) - int (nbits d) - 53)"
  have "e \<le> max (- 1074) (int (nbits n) - int (nbits d) - 52)" unfolding e_def by (intro max.mono) auto
  moreover have "0 \<le> e \<and> 2 ^ 1024 \<le> round_div n (d * 2 ^ nat e) * 2 ^ nat e"
    using assms unfolding nearest_f64_def Let_def e_def [symmetric] by (auto simp del: power_numeral split: if_splits)
  ultimately show thesis using that by blast
qed

lemma nearest_f64_small:
  assumes "n < 2 ^ 64"
  shows "nearest_f64 neg n 1 \<noteq> None"
proof
  assume "nearest_f64 neg n 1 = None"
  then obtain e where e: "0 \<le> e" "e \<le> max (- 1074) (int (nbits n) - int (nbits 1) - 52)"
    "2 ^ 1024 \<le> round_div n (1 * 2 ^ nat e) * 2 ^ nat e" by (rule nearest_f64_None)
  have e11: "nat e \<le> 12" using e(1,2) nbits_bound [OF assms] by auto
  have "round_div n (2 ^ nat e) \<le> n div 2 ^ nat e + 1" by (simp add: round_div_def Let_def)
  then have "round_div n (2 ^ nat e) * 2 ^ nat e \<le> (n div 2 ^ nat e + 1) * 2 ^ nat e" by (rule mult_right_mono) simp
  also have "\<dots> \<le> n + 2 ^ nat e" by simp
  also have "\<dots> \<le> n + 2 ^ 12" using e11 by (intro add_left_mono power_increasing) auto
  also have "\<dots> < 2 ^ 65" using assms by simp
  also have "\<dots> \<le> 2 ^ 1024" by (rule power_increasing) auto
  finally show False using e(3) by simp
qed

lemma parse_float_show_int: "parse_float (show_int n) = nearest_f64 (n < 0) (nat \<bar>n\<bar>) 1"
proof -
  let ?s = "show_nat (nat \<bar>n\<bar>)"
  have digits: "\<forall>c \<in> set ?s. is_digit_of 10 c \<and> c \<noteq> CHR ''_'' \<and> c \<noteq> CHR ''.''"
    using show_nat_digits [of "nat \<bar>n\<bar>"] show_nat_is_digits [of "nat \<bar>n\<bar>"]
    by (auto simp: list_all_iff is_digit_def byte_def)
  have "\<not> base_prefix {120} ?s"
    using show_nat_is_digits [of "nat \<bar>n\<bar>"] by (auto simp: base_prefix_def is_digit_def byte_def ascii_lower_def split: list.splits)
  moreover have "scan_mantissa 10 ?s 0 0 False False = (nat \<bar>n\<bar>, 0, True, [])"
    using scan_mantissa_digits [OF digits] by (simp add: positional_show_nat)
  moreover have "CHR ''_'' \<notin> set (show_int n)" using digits by (cases n rule: show_int_cases) auto
  ultimately show ?thesis by (simp add: parse_float_def strip_sign_show_int read_exponent_def)
qed

lemma any_of_show_int: "- (2 ^ 63) \<le> n \<Longrightarrow> n < 2 ^ 63 \<Longrightarrow> any_of (JNum (show_int n)) \<noteq> None"
  using nearest_f64_small [of "nat \<bar>n\<bar>" "n < 0"] by (simp add: parse_float_show_int)

section \<open>Escaped texts\<close>

lemma hex_char_digit: "d < 16 \<Longrightarrow> digit_val (hex_char d) = Some d"
  by (cases "d < 10") (auto simp: hex_char_def digit_val_def ascii_lower_def Let_def)

lemma four_digits:
  "n < 65536 \<Longrightarrow> ((n div 4096 mod 16 * 16 + n div 256 mod 16) * 16 + n div 16 mod 16) * 16 + n mod 16 = (n :: nat)"
proof -
  assume n: "n < 65536"
  define a b c where d: "a = n div 16" "b = a div 16" "c = b div 16"
  have "n div 256 = b" "n div 4096 = c" by (simp_all add: d div_mult2_eq [symmetric])
  moreover have "c mod 16 = c" using n by (simp add: \<open>n div 4096 = c\<close> [symmetric] less_mult_imp_div_less)
  ultimately show ?thesis
    using div_mult_mod_eq [of n 16] div_mult_mod_eq [of a 16] div_mult_mod_eq [of b 16] by (simp add: d)
qed

lemma esc_u_parts:
  assumes "n < 65536"
  obtains a b c d where "esc_u n = [CHR 0x5C, CHR ''u'', a, b, c, d]" "list_all is_hex [a, b, c, d]"
    "\<And>s. hex4 (a # b # c # d # s) = n"
proof -
  define h where "h k = hex_char (n div k mod 16)" for k
  have d: "digit_val (h k) = Some (n div k mod 16)" for k by (simp add: h_def hex_char_digit)
  have "hex4 (h 4096 # h 256 # h 16 # h 1 # s) = n" for s
    using four_digits [OF assms] assms by (simp add: hex4_def d)
  moreover have "esc_u n = [CHR 0x5C, CHR ''u'', h 4096, h 256, h 16, h 1]" by (simp add: esc_u_def h_def)
  moreover have "is_hex (h k)" for k by (simp add: is_hex_def is_digit_of_def d)
  ultimately show thesis using that by simp
qed

lemma scan_esc_u:
  assumes "n < 65536"
  shows "scan_string (esc_u n @ s) = map_option (\<lambda>(b, q). (esc_u n @ b, q)) (scan_string s)"
proof -
  obtain a b c d where e: "esc_u n = [CHR 0x5C, CHR ''u'', a, b, c, d]" and h: "list_all is_hex [a, b, c, d]"
    using assms by (rule esc_u_parts)
  have "scan_string (x # s) = map_option (\<lambda>(b, q). (x # b, q)) (scan_string s)" if "is_hex x" for x s
  proof -
    have "x \<noteq> CHR 0x22" "x \<noteq> CHR 0x5C" "\<not> byte x < 32"
      using that by (auto simp: is_hex_def is_digit_of_def digit_val_def ascii_lower_def byte_def Let_def split: if_splits)
    then show ?thesis by simp
  qed
  then show ?thesis
    using h unfolding e by (simp add: option.map_comp o_def case_prod_unfold byte_def)
qed

lemma unquote_esc_u:
  assumes "n < 55296 \<or> 57344 \<le> n \<and> n < 65536"
  shows "unquote (esc_u n @ s) = utf8_enc n @ unquote s"
proof -
  have "n < 65536" using assms by auto
  then obtain a b c d where e: "esc_u n = [CHR 0x5C, CHR ''u'', a, b, c, d]" and h: "\<And>s. hex4 (a # b # c # d # s) = n"
    by (rule esc_u_parts) blast
  show ?thesis using assms by (auto simp: e h Let_def)
qed

lemma byte_char: "byte c = k \<Longrightarrow> c = char_of k"
  by (auto simp: byte_def)

lemma enc_ascii_cases:
  assumes "byte c < 128"
  obtains (escape) e where "enc_ascii c = [CHR 0x5C, e]" "byte e \<in> {98, 102, 110, 114, 116, 92, 34}" "simple_escape e = c" "e \<noteq> CHR ''u''"
  | (code) "enc_ascii c = esc_u (byte c)"
  | (plain) "enc_ascii c = [c]" "32 \<le> byte c" "c \<noteq> CHR 0x22" "c \<noteq> CHR 0x5C"
proof -
  note c = byte_char [of c]
  consider "byte c = 34 \<or> byte c = 92" | "byte c = 8" | "byte c = 12" | "byte c = 10" | "byte c = 13" | "byte c = 9"
    | (code) "byte c \<notin> {34, 92, 8, 12, 10, 13, 9}" "byte c < 32 \<or> byte c = 60 \<or> byte c = 62 \<or> byte c = 38"
    | (plain) "byte c \<notin> {34, 92, 8, 12, 10, 13, 9}" "\<not> (byte c < 32 \<or> byte c = 60 \<or> byte c = 62 \<or> byte c = 38)" by auto
  then show thesis
  proof cases
    case 1
    moreover have "CHR 0x22 = char_of (34 :: nat)" "CHR 0x5C = char_of (92 :: nat)" by code_simp+
    ultimately have "c = CHR 0x22 \<or> c = CHR 0x5C" using c [of 34] c [of 92] by metis
    then show ?thesis using escape [of c] by (elim disjE) (simp_all add: enc_ascii_def simple_escape_def byte_def)
  next
    case 2
    then show ?thesis using c escape [of "CHR ''b''"] by (simp add: enc_ascii_def simple_escape_def byte_def)
  next
    case 3
    then show ?thesis using c escape [of "CHR ''f''"] by (simp add: enc_ascii_def simple_escape_def byte_def)
  next
    case 4
    then show ?thesis using c escape [of "CHR ''n''"] by (simp add: enc_ascii_def simple_escape_def byte_def)
  next
    case 5
    then show ?thesis using c escape [of "CHR ''r''"] by (simp add: enc_ascii_def simple_escape_def byte_def)
  next
    case 6
    then show ?thesis using c escape [of "CHR ''t''"] by (simp add: enc_ascii_def simple_escape_def byte_def)
  next
    case code
    then show ?thesis using that(2) by (simp add: enc_ascii_def Let_def)
  next
    case plain
    then have "c \<noteq> CHR 0x22" "c \<noteq> CHR 0x5C" by (auto simp: byte_def)
    then show ?thesis using plain that(3) by (simp add: enc_ascii_def Let_def)
  qed
qed

lemma scan_high:
  "\<forall>x \<in> set s. 128 \<le> byte x \<Longrightarrow> scan_string (s @ t) = map_option (\<lambda>(b, q). (s @ b, q)) (scan_string t)"
proof (induction s)
  case Nil
  then show ?case by (cases "scan_string t") auto
next
  case (Cons c s)
  then have "c \<noteq> CHR 0x22" "c \<noteq> CHR 0x5C" "\<not> byte c < 32" by (auto simp: byte_def)
  then show ?case using Cons by (simp add: option.map_comp o_def case_prod_unfold)
qed

lemma utf8_size_take:
  "utf8_size s = Suc n \<Longrightarrow> utf8_size (take (Suc n) s @ t) = Suc n \<and> Suc n \<le> length s"
  by (cases s; cases "tl s"; cases "tl (tl s)"; cases "tl (tl (tl s))")
     (auto simp: utf8_size_def Let_def split: if_splits list.splits)

lemma utf8_size_high:
  "utf8_size (c # cs) = Suc n \<Longrightarrow> 128 \<le> byte c \<Longrightarrow> \<forall>x \<in> set (take (Suc n) (c # cs)). 128 \<le> byte x"
  by (cases cs; cases "tl cs"; cases "tl (tl cs)")
     (auto simp: utf8_size_def cont_def Let_def split: if_splits list.splits)

lemma line_sep_cases:
  assumes "line_sep s = Some u"
  shows "u \<in> {8232, 8233}" "utf8_size s = 3" "take 3 s = utf8_enc u"
proof -
  obtain c r where s: "s = [CHR 0xE2, CHR 0x80, c] @ r" and c: "byte c = 168 \<and> u = 8232 \<or> byte c = 169 \<and> u = 8233"
    using assms
    by (cases s; cases "tl s"; cases "tl (tl s)") (auto simp: line_sep_def split: if_splits)
  then have "c = char_of (168 :: nat) \<and> u = 8232 \<or> c = char_of (169 :: nat) \<and> u = 8233" using byte_char by blast
  moreover have "char_of (226 :: nat) = CHR 0xE2" "char_of (128 :: nat) = CHR 0x80" by code_simp+
  then have "utf8_enc 8232 = [CHR 0xE2, CHR 0x80, char_of (168 :: nat)]" "utf8_enc 8233 = [CHR 0xE2, CHR 0x80, char_of (169 :: nat)]"
    by (simp_all add: utf8_enc_def)
  ultimately have "take 3 s = utf8_enc u \<and> u \<in> {8232, 8233} \<and> utf8_enc u = [CHR 0xE2, CHR 0x80, c]"
    unfolding s by (elim disjE) simp_all
  moreover have "utf8_size (utf8_enc 8232) = Suc 2" "utf8_size (utf8_enc 8233) = Suc 2"
    by (simp_all add: utf8_enc_def utf8_size_def cont_def byte_def)
  ultimately have u: "take 3 s = utf8_enc u" "u \<in> {8232, 8233}" and size: "utf8_size [CHR 0xE2, CHR 0x80, c] = Suc 2" by auto
  show "u \<in> {8232, 8233}" "take 3 s = utf8_enc u" by (rule u)+
  show "utf8_size s = 3" using utf8_size_take [OF size, of r] by (simp add: s)
qed

text \<open>The body of a written text is scanned back.\<close>

lemma scan_enc_body: "scan_string (enc_body s @ CHR 0x22 # r) = Some (enc_body s, r)"
proof (induction s rule: enc_body.induct)
  case 1
  then show ?case by simp
next
  case (2 c cs)
  let ?q = "CHR 0x22 # r"
  show ?case
  proof (cases "byte c < 128")
    case True
    then have IH: "scan_string (enc_body cs @ ?q) = Some (enc_body cs, r)" by (rule "2.IH"(1))
    from True show ?thesis
    proof (cases rule: enc_ascii_cases)
      case (escape e)
      moreover have "\<not> byte (CHR 0x5C) < 32" by (simp add: byte_def)
      ultimately show ?thesis using True IH by auto
    next
      case code
      then show ?thesis using True IH by (simp add: scan_esc_u byte_def)
    next
      case plain
      then show ?thesis using True IH by (simp add: byte_def)
    qed
  next
    case False
    show ?thesis
    proof (cases "utf8_size (c # cs)")
      case 0
      then show ?thesis using False "2.IH"(2) by (simp add: scan_esc_u)
    next
      case (Suc n)
      then have IH: "scan_string (enc_body (drop n cs) @ ?q) = Some (enc_body (drop n cs), r)"
        using "2.IH"(3) [OF False refl] by simp
      have high: "\<forall>x \<in> set (take (Suc n) (c # cs)). 128 \<le> byte x"
        using utf8_size_high [OF Suc] False by simp
      show ?thesis
        using False Suc IH scan_high [OF high, of "enc_body (drop n cs) @ ?q"] line_sep_cases [of "c # cs"]
        by (auto simp: scan_esc_u split: option.split)
    qed
  qed
qed

function valid_utf8 :: "string \<Rightarrow> bool" where
  "valid_utf8 [] = True"
| "valid_utf8 (c # cs) =
     (let n = utf8_size (c # cs) in n \<noteq> 0 \<and> valid_utf8 (drop (n - 1) cs))"
  by pat_completeness auto
termination by (relation "measure length") auto

lemma unquote_utf8:
  assumes "utf8_size s = Suc n" "hd s \<noteq> CHR 0x5C"
  shows "unquote (take (Suc n) s @ t) = take (Suc n) s @ unquote t"
proof -
  obtain c cs where s: "s = c # cs" using assms(1) by (cases s) (auto simp: utf8_size_def)
  have "utf8_size (c # take n cs @ t) = Suc n" "n \<le> length cs"
    using utf8_size_take [OF assms(1), of t] by (simp_all add: s)
  then show ?thesis using assms(2) by (simp add: s)
qed

lemma utf8_enc_byte: "utf8_enc (byte c) = [c]" if "byte c < 128"
  using that by (simp add: utf8_enc_def byte_def)

lemma unquote_enc_body: "valid_utf8 s \<Longrightarrow> unquote (enc_body s) = s"
proof (induction s rule: enc_body.induct)
  case 1
  then show ?case by simp
next
  case (2 c cs)
  show ?case
  proof (cases "byte c < 128")
    case True
    have one: "utf8_size (c # t) = 1" for t using True by (simp add: utf8_size_def)
    then have IH: "unquote (enc_body cs) = cs" using "2.IH"(1) [OF True] "2.prems" by simp
    from True show ?thesis
    proof (cases rule: enc_ascii_cases)
      case (escape e)
      then show ?thesis using True IH by simp
    next
      case code
      then show ?thesis using True IH by (simp add: unquote_esc_u utf8_enc_byte)
    next
      case plain
      then show ?thesis using True IH one by simp
    qed
  next
    case False
    then have c: "c \<noteq> CHR 0x5C" by (auto simp: byte_def)
    obtain n where n: "utf8_size (c # cs) = Suc n" using "2.prems" by (cases "utf8_size (c # cs)") auto
    then have IH: "unquote (enc_body (drop n cs)) = drop n cs"
      using "2.IH"(3) [OF False refl] "2.prems" by simp
    show ?thesis
    proof (cases "line_sep (c # cs)")
      case None
      then show ?thesis using False n IH unquote_utf8 [OF n, of "enc_body (drop n cs)"] c by simp
    next
      case (Some u)
      from line_sep_cases [OF this] have "unquote (esc_u u @ t) = take 3 (c # cs) @ unquote t" "n = 2" for t
        using n by (auto simp: unquote_esc_u)
      then show ?thesis using False n IH Some by simp
    qed
  qed
qed

section \<open>Integers held as floats\<close>

lemma nbits_range: "0 < n \<Longrightarrow> 2 ^ (nbits n - 1) \<le> n \<and> n < 2 ^ nbits n \<and> 0 < nbits n"
proof (induction n rule: nbits.induct)
  case (1 n)
  show ?case
  proof (cases "n = 1")
    case True
    then show ?thesis by (simp add: nbits.simps)
  next
    case False
    then have h: "0 < n div 2" "n \<noteq> 0" using "1.prems" by auto
    then have IH: "2 ^ (nbits (n div 2) - 1) \<le> n div 2" "n div 2 < 2 ^ nbits (n div 2)" "0 < nbits (n div 2)"
      using "1.IH" by auto
    obtain k where k: "nbits (n div 2) = Suc k" using IH(3) by (cases "nbits (n div 2)") auto
    have "nbits n = Suc (Suc k)" using h(2) k by (subst nbits.simps) simp
    moreover have "2 * 2 ^ k \<le> n" "n < 2 * 2 ^ Suc k" using IH k by (auto simp: less_mult_imp_div_less)
    ultimately show ?thesis by simp
  qed
qed

lemma round_div_1: "round_div n 1 = n"
  by (simp add: round_div_def)

lemma round_div_ge: "n div d \<le> round_div n d"
  by (simp add: round_div_def Let_def)

lemma round_div_mult: "0 < d \<Longrightarrow> round_div (n * d) d = n"
  by (simp add: round_div_def Let_def)

text \<open>The exponent of the nearest float, which for an integer is given by its length in bits.\<close>

definition f64_exp :: "nat \<Rightarrow> nat \<Rightarrow> int" where
  "f64_exp n d =
     (let e0 = int (nbits n) - int (nbits d) - 53
      in max (- 1074) (if (if e0 \<ge> 0 then d * 2 ^ nat e0 * 2 ^ 53 \<le> n else d * 2 ^ 53 \<le> n * 2 ^ nat (- e0))
                       then e0 + 1 else e0))"

lemma nearest_f64_at:
  "0 < n \<Longrightarrow> f64_exp n d = e \<Longrightarrow> nearest_f64 neg n d =
     (let m = (if e \<ge> 0 then round_div n (d * 2 ^ nat e) else round_div (n * 2 ^ nat (- e)) d)
      in if e \<ge> 0 \<and> 2 ^ 1024 \<le> m * 2 ^ nat e then None else Some (F64 neg m e))"
  unfolding nearest_f64_def f64_exp_def Let_def by (drule gr_implies_not0) (simp only: if_False)

lemma f64_exp_nat:
  assumes "0 < n"
  shows "f64_exp n 1 = int (nbits n) - 53"
proof -
  have one: "nbits 1 = 1" by (simp add: nbits.simps)
  note r = nbits_range [OF assms]
  define e0 where "e0 = int (nbits n) - 54"
  have "1 * 2 ^ nat e0 * 2 ^ 53 \<le> n" if "0 \<le> e0"
  proof -
    have "nat e0 + 53 = nbits n - 1" using that by (simp add: e0_def)
    then show ?thesis using r by (metis power_add mult_1)
  qed
  moreover have "1 * 2 ^ 53 \<le> n * 2 ^ nat (- e0)" if "\<not> 0 \<le> e0"
  proof -
    have "nbits n - 1 + nat (- e0) = 53" using that r by (simp add: e0_def)
    then have "(2::nat) ^ 53 = 2 ^ (nbits n - 1) * 2 ^ nat (- e0)" by (metis power_add)
    then show ?thesis using r by (metis mult_1 mult_le_mono1)
  qed
  ultimately have "f64_exp n 1 = max (- 1074) (e0 + 1)"
    by (auto simp: f64_exp_def Let_def e0_def one [simplified] simp del: power_numeral)
  then show ?thesis using r by (simp add: e0_def)
qed

text \<open>An integer below \<open>2 ^ 53\<close> is a float, and one beyond is rounded to a float that is not below.\<close>

lemma nearest_f64_exact:
  assumes "0 < n" "n < 2 ^ 53"
  obtains m e b where "nearest_f64 neg n 1 = Some (F64 neg m e)" "m \<noteq> 0" "0 < b" "f_ratio (F64 neg m e) = (n * b, b)"
proof -
  have "nbits n \<le> 53" by (rule nbits_bound [OF assms(2)])
  then obtain k where k: "nbits n + k = 53" using le_iff_add by metis
  then have "f64_exp n 1 = - int k" using f64_exp_nat [OF assms(1)] by simp
  note at = nearest_f64_at [OF assms(1) this, of neg]
  have "nearest_f64 neg n 1 = Some (F64 neg (n * 2 ^ k) (- int k))"
  proof (cases k)
    case 0
    have "n < 2 ^ 1024" using assms(2) by (rule order_less_le_trans) (intro power_increasing; simp)
    then show ?thesis using at 0 by (simp add: round_div_1 [simplified])
  next
    case (Suc j)
    then have "\<not> 0 \<le> - int k" by simp
    then show ?thesis using at by (simp only: if_False simp_thms minus_minus nat_int round_div_1 Let_def)
  qed
  moreover have "f_ratio (F64 neg (n * 2 ^ k) (- int k)) = (n * 2 ^ k, 2 ^ k)"
  proof (cases "0 \<le> - int k")
    case False
    then show ?thesis by (simp only: f_ratio_def f64.sel if_False minus_minus nat_int)
  qed (simp add: f_ratio_def)
  moreover have "n * 2 ^ k \<noteq> 0" "(0::nat) < 2 ^ k" using assms(1) by simp_all
  ultimately show thesis using that by blast
qed

lemma nearest_f64_large:
  assumes "2 ^ 53 \<le> v" "nearest_f64 neg v 1 = Some f" "n < 2 ^ 53" "0 < b"
  shows "\<not> same_ratio (f_ratio f) (n * b, b)"
proof -
  have v: "0 < v" using assms(1) by (simp add: order_less_le_trans [OF _ assms(1)])
  note r = nbits_range [OF v]
  have "\<not> nbits v \<le> 53"
  proof
    assume "nbits v \<le> 53"
    then have "(2::nat) ^ nbits v \<le> 2 ^ 53" by (intro power_increasing) auto
    then show False using r assms(1) by linarith
  qed
  then obtain k where k: "nbits v = 53 + Suc k" using less_imp_Suc_add [of 53 "nbits v"] by auto
  then have "f64_exp v 1 = int (Suc k)" using f64_exp_nat [OF v] by simp
  from nearest_f64_at [OF v this, of neg] have f: "f = F64 neg (round_div v (2 ^ Suc k)) (int (Suc k))"
    using assms(2) by (simp only: Let_def of_nat_0_le_iff if_True nat_int mult_1 option.inject split: if_splits) simp_all
  have "nbits v - 1 = 52 + Suc k" using k by simp
  then have "2 ^ 52 * 2 ^ Suc k \<le> v" using r by (metis power_add)
  then have "2 ^ 52 \<le> v div 2 ^ Suc k" by (simp only: less_eq_div_iff_mult_less_eq zero_less_power zero_less_numeral)
  also have "\<dots> \<le> round_div v (2 ^ Suc k)" by (rule round_div_ge)
  finally have "2 ^ 52 * 2 ^ 1 \<le> round_div v (2 ^ Suc k) * 2 ^ Suc k"
    by (intro mult_mono power_increasing) simp_all
  moreover have "(2::nat) ^ 53 = 2 ^ 52 * 2 ^ 1" by simp
  ultimately have "n < round_div v (2 ^ Suc k) * 2 ^ Suc k" using assms(3) by (simp only: order_less_le_trans)
  moreover have "f_ratio f = (round_div v (2 ^ Suc k) * 2 ^ Suc k, 1)" unfolding f
    by (simp only: f_ratio_def f64.sel of_nat_0_le_iff if_True nat_int)
  ultimately show ?thesis using assms(4) by (simp add: same_ratio_def del: power_Suc)
qed

text \<open>The number of decimal digits.\<close>

lemma show_nat_length:
  "0 < n \<Longrightarrow> 10 ^ (length (show_nat n) - 1) \<le> n \<and> n < 10 ^ length (show_nat n)"
proof (induction n rule: show_nat.induct)
  case (1 n)
  show ?case
  proof (cases "n < 10")
    case True
    then show ?thesis using "1.prems" by (simp add: show_nat.simps [of n])
  next
    case False
    then have IH: "10 ^ (length (show_nat (n div 10)) - 1) \<le> n div 10" "n div 10 < 10 ^ length (show_nat (n div 10))"
      using 1 by simp_all
    obtain k where k: "length (show_nat (n div 10)) = Suc k" by (cases "show_nat (n div 10)") auto
    have "10 * 10 ^ k \<le> n" "n < 10 * 10 ^ Suc k" using IH k by (auto simp: less_mult_imp_div_less)
    then show ?thesis using False k by (simp add: show_nat.simps [of n])
  qed
qed

lemma dec_exponent_nat:
  assumes "0 < n" "0 < b"
  shows "dec_exponent (n * b) b = int (length (show_nat n))"
proof -
  define L B C where "L = length (show_nat n)" "B = length (show_nat b)" "C = length (show_nat (n * b))"
  have pos: "0 < L" "0 < B" "0 < C" by (simp_all add: L_B_C_def)
  note r = show_nat_length [OF assms(1), folded L_B_C_def] show_nat_length [OF assms(2), folded L_B_C_def]
  have nb: "0 < n * b" using assms by simp
  note rn = show_nat_length [OF nb, folded L_B_C_def]
  have "10 ^ (L - 1) * 10 ^ (B - 1) \<le> n * b" using r by (intro mult_mono) auto
  then have "(10::nat) ^ (L - 1 + (B - 1)) < 10 ^ C" using rn by (simp add: power_add)
  then have "L - 1 + (B - 1) < C" by (rule power_less_imp_less_exp [rotated]) simp
  moreover have "n * b < 10 ^ L * 10 ^ B" using r by (intro mult_strict_mono) auto
  then have "(10::nat) ^ (C - 1) < 10 ^ (L + B)" using rn by (simp add: power_add)
  then have "C - 1 < L + B" by (rule power_less_imp_less_exp [rotated]) simp
  ultimately have C: "C = L + B - 1 \<or> C = L + B" using pos by auto
  have below: "(if 0 \<le> int j then n * b < b * 10 ^ nat (int j) else n * b * 10 ^ nat (- int j) < b) \<longleftrightarrow> n < 10 ^ j" for j
    using assms(2) by (simp add: mult.commute [of n b])
  define j where "j = C - B"
  have CB: "int C - int B = int j" using C pos by (auto simp: j_def)
  have "dec_exponent (n * b) b = (if n < 10 ^ j then int j else int j + 1)"
    unfolding dec_exponent_def Let_def L_B_C_def(2,3) [symmetric] CB below ..
  moreover have "\<not> n < 10 ^ (L - 1)" "n < 10 ^ L" using r by auto
  moreover have "j = L - 1 \<or> j = L" using C pos by (auto simp: j_def)
  ultimately show ?thesis using pos by (auto simp: L_B_C_def(1) [symmetric])
qed

lemma shortest_nat:
  assumes "f_ratio f = (n * b, b)" "0 < b" "0 < n" "n < 2 ^ 53"
  shows "nd \<le> L \<Longrightarrow> L \<le> nd + fuel \<Longrightarrow> \<exists>m k. shortest fuel f nd (int L) = (m, int k) \<and> m * 10 ^ k = n"
proof (induction fuel arbitrary: nd)
  case 0
  then have "int L - int nd = int 0" by simp
  then show ?case using assms(1,2) by (simp add: dec_round_def round_div_mult)
next
  case (Suc fuel)
  obtain k where k: "L = nd + k" using Suc.prems(1) le_iff_add by metis
  define m where "m = round_div (n * b) (b * 10 ^ k)"
  have K: "int L - int nd = int k" using k by simp
  have m: "dec_round (n * b) b (int k) = m" "dec_ratio m (int k) = (m * 10 ^ k, 1)"
    by (simp_all add: dec_round_def dec_ratio_def m_def)
  show ?case
  proof (cases "m * 10 ^ k = n")
    case True
    obtain c e b' where "nearest_f64 False n 1 = Some (F64 False c e)" "f_ratio (F64 False c e) = (n * b', b')"
      using nearest_f64_exact [OF assms(3,4), of False] by blast
    moreover have "same_ratio (n * b', b') (n * b, b)" by (simp add: same_ratio_def)
    ultimately have "shortest (Suc fuel) f nd (int L) = (m, int k)"
      using True assms(1) by (simp add: K m Let_def)
    then show ?thesis using True by blast
  next
    case False
    have "\<not> same_ratio (f_ratio g) (n * b, b)" if g: "nearest_f64 False (m * 10 ^ k) 1 = Some g" for g
    proof -
      consider "m * 10 ^ k = 0" | "0 < m * 10 ^ k" "m * 10 ^ k < 2 ^ 53" | "2 ^ 53 \<le> m * 10 ^ k" by linarith
      then show ?thesis
      proof cases
        case 1
        then show ?thesis using g assms(2,3) by (auto simp: nearest_f64_def f_ratio_def same_ratio_def)
      next
        case 2
        obtain c e b' where "nearest_f64 False (m * 10 ^ k) 1 = Some (F64 False c e)" "0 < b'"
          "f_ratio (F64 False c e) = (m * 10 ^ k * b', b')"
          using nearest_f64_exact [OF 2, of False] by blast
        then show ?thesis using g False assms(2) by (auto simp: same_ratio_def)
      next
        case 3
        show ?thesis by (rule nearest_f64_large [OF 3 g assms(4,2)])
      qed
    qed
    then have "shortest (Suc fuel) f nd (int L) = shortest fuel f (Suc nd) (int L)"
      using assms(1) by (simp add: K m Let_def split: option.split)
    moreover have "k \<noteq> 0" using False assms(2) round_div_mult [of b n] by (cases k) (auto simp: m_def)
    ultimately show ?thesis using Suc.IH [of "Suc nd"] Suc.prems k by simp
  qed
qed

lemma show_nat_times_10: "0 < m \<Longrightarrow> show_nat (m * 10 ^ k) = show_nat m @ replicate k (CHR ''0'')"
proof (induction k)
  case (Suc k)
  have "digit_char 0 = CHR ''0''" by code_simp
  moreover have "\<not> m * 10 ^ Suc k < 10" "m * 10 ^ Suc k div 10 = m * 10 ^ k" "m * 10 ^ Suc k mod 10 = 0"
    using Suc.prems by simp_all
  ultimately have "show_nat (m * 10 ^ Suc k) = show_nat (m * 10 ^ k) @ [CHR ''0'']"
    by (subst show_nat.simps) simp
  then show ?case using Suc by (simp add: replicate_append_same)
qed simp

lemma strip_zeros_append: "s = strip_zeros s @ replicate (length s - length (strip_zeros s)) (CHR ''0'')"
proof -
  have "rev s = takeWhile (\<lambda>x. x = CHR ''0'') (rev s) @ rev (strip_zeros s)"
    by (simp add: strip_zeros_def trim_right_def)
  moreover have "takeWhile (\<lambda>x. x = c) t = replicate (length (takeWhile (\<lambda>x. x = c) t)) c" for c :: char and t
    by (induction t) auto
  ultimately have "rev s = replicate (length (takeWhile (\<lambda>x. x = CHR ''0'') (rev s))) (CHR ''0'') @ rev (strip_zeros s)" (is "_ = replicate ?k _ @ _")
    by metis
  then have s: "s = strip_zeros s @ replicate ?k (CHR ''0'')" by (metis rev_append rev_replicate rev_rev_ident)
  then have "length s = length (strip_zeros s) + ?k" by (metis length_append length_replicate)
  then show ?thesis using s by simp
qed

lemma enc_f64_nat:
  assumes "nearest_f64 neg n 1 = Some f" "0 < n" "n < 2 ^ 53"
  shows "enc_f64 f = (if neg then ''-'' else []) @ show_nat n"
proof -
  obtain m e b where f: "f = F64 neg m e" "m \<noteq> 0" and b: "0 < b" "f_ratio f = (n * b, b)"
    using nearest_f64_exact [OF assms(2,3), of neg] assms(1) by (metis option.inject)
  define L where "L = length (show_nat n)"
  have L: "1 \<le> L" by (cases "show_nat n") (auto simp: L_def)
  have "10 ^ (L - 1) < (10::nat) ^ 16"
    using show_nat_length [OF assms(2)] assms(3) by (auto simp: L_def intro: order_le_less_trans order_less_trans)
  then have "L - 1 < 16" by (rule power_less_imp_less_exp [rotated]) simp
  then have L16: "L \<le> 16" by simp
  obtain d k where d: "shortest 16 f 1 (int L) = (d, int k)" "d * 10 ^ k = n"
    using shortest_nat [OF b(2,1) assms(2,3), of 1 L 16] L L16 by auto
  have "0 < d" using d(2) assms(2) by (cases d) auto
  then have n: "show_nat n = show_nat d @ replicate k (CHR ''0'')" using show_nat_times_10 [of d k] d(2) by simp
  then have Lk: "L = length (show_nat d) + k" by (simp add: L_def)
  let ?ds = "strip_zeros (show_nat d)"
  have digits: "f_digits f = (?ds, int L)"
    using d(1) b dec_exponent_nat [OF assms(2) b(1)] by (simp add: f_digits_def L_def [symmetric] Lk Let_def)
  have len: "length ?ds \<le> length (show_nat d)" using arg_cong [OF strip_zeros_append [of "show_nat d"], of length] by simp
  then have "L - length ?ds = (length (show_nat d) - length ?ds) + k" using Lk by simp
  then have "?ds @ replicate (L - length ?ds) (CHR ''0'') = show_nat n"
    using strip_zeros_append [of "show_nat d"] by (simp add: n replicate_add)
  moreover have "length ?ds \<le> L" using len Lk by simp
  moreover have nat_diff: "nat (int L - int x) = L - x" for x by simp
  ultimately have "point_text ?ds (int L) = show_nat n"
    using L \<open>length ?ds \<le> L\<close> by (simp add: point_text_def nat_diff)
  then show ?thesis using f digits L16 by (simp add: enc_f64_def)
qed

section \<open>Values in front of other text\<close>

text \<open>What may follow a value: nothing, or the next token of the object or array it is in.\<close>

definition stops :: "string \<Rightarrow> bool" where
  "stops t \<longleftrightarrow> t = [] \<or> hd t \<in> {CHR '','', CHR ''}'', CHR '']''}"

lemma skip_ws_append: "skip_ws s \<noteq> [] \<Longrightarrow> skip_ws (s @ t) = skip_ws s @ t"
  by (auto simp: skip_ws_def dropWhile_append)

lemma scan_string_append: "scan_string s = Some (b, r) \<Longrightarrow> scan_string (s @ t) = Some (b, r @ t)"
proof (induction s arbitrary: b r rule: scan_string.induct)
  case (2 c cs)
  show ?case
  proof (cases "c = CHR 0x5C")
    case True
    then obtain e q where cs: "cs = e # q" using "2.prems" by (cases cs) (auto split: if_splits)
    show ?thesis
      using True "2.prems" "2.IH"(1,2) [of e q] unfolding cs by (auto split: if_splits)
  next
    case False
    then show ?thesis using "2.prems" "2.IH"(3) by (auto split: if_splits)
  qed
qed simp

lemma span_digits_append:
  "dropWhile is_digit s \<noteq> [] \<or> t = [] \<or> \<not> is_digit (hd t) \<Longrightarrow>
   span_digits (s @ t) = (takeWhile is_digit s, dropWhile is_digit s @ t)"
  by (cases t) (auto simp: span_digits_def takeWhile_append dropWhile_append takeWhile_eq_all_conv [THEN iffD2])

lemma stops_not: "stops t \<Longrightarrow> t \<noteq> [] \<Longrightarrow> \<not> is_digit (hd t) \<and> hd t \<noteq> CHR ''.'' \<and> ascii_lower (hd t) \<noteq> 101"
  by (auto simp: stops_def is_digit_def byte_def ascii_lower_def)

lemma scan_fraction_append:
  "scan_fraction s = Some (f, r) \<Longrightarrow> stops t \<Longrightarrow> scan_fraction (s @ t) = Some (f, r @ t)"
  using stops_not [of t] span_digits_append [of "tl s" t]
  by (cases s; cases t) (auto simp: scan_fraction_def span_digits_def split: if_splits list.splits)

lemma scan_exp_append:
  assumes "scan_exp s = Some (x, r)" "stops t"
  shows "scan_exp (s @ t) = Some (x, r @ t)"
proof (cases s)
  case Nil
  then show ?thesis using assms stops_not [of t] by (cases t) (auto simp: scan_exp_def)
next
  case (Cons c cs)
  define sg where "sg = (case cs of x # _ \<Rightarrow> if x = CHR ''+'' \<or> x = CHR ''-'' then [x] else [] | [] \<Rightarrow> [])"
  have sg: "length sg \<le> length cs" by (simp add: sg_def split: list.split)
  show ?thesis
  proof (cases "ascii_lower c = 101")
    case True
    have cs: "cs \<noteq> []" using assms(1) True Cons by (auto simp: scan_exp_def span_digits_def)
    then have "(case cs @ t of x # _ \<Rightarrow> if x = CHR ''+'' \<or> x = CHR ''-'' then [x] else [] | [] \<Rightarrow> []) = sg"
      by (cases cs) (simp_all add: sg_def)
    moreover have "span_digits (drop (length sg) cs @ t) = (takeWhile is_digit (drop (length sg) cs), dropWhile is_digit (drop (length sg) cs) @ t)"
      using stops_not [OF assms(2)] by (intro span_digits_append) auto
    ultimately show ?thesis
      using assms(1) True Cons sg by (auto simp: scan_exp_def Let_def sg_def [symmetric] span_digits_def split: list.splits)
  next
    case False
    then have "x = []" "r = c # cs" using assms(1) Cons by (simp_all add: scan_exp_def)
    then show ?thesis using False Cons by (simp add: scan_exp_def)
  qed
qed

lemma scan_number_append:
  assumes "scan_number s = Some (x, r)" "stops t"
  shows "scan_number (s @ t) = Some (x, r @ t)"
proof -
  define sg where "sg = (case s of x # _ \<Rightarrow> if x = CHR ''-'' then [x] else [] | [] \<Rightarrow> [])"
  obtain d q where q: "drop (length sg) s = d # q" "is_digit d"
    using assms(1) by (auto simp: scan_number_def sg_def [symmetric] Let_def split: list.splits if_splits)
  then have s: "s \<noteq> []" by auto
  then have sg: "(case s @ t of x # _ \<Rightarrow> if x = CHR ''-'' then [x] else [] | [] \<Rightarrow> []) = sg"
    by (cases s) (simp_all add: sg_def)
  have drop: "drop (length sg) (s @ t) = d # q @ t"
    using q(1) s by (cases s) (auto simp: sg_def split: if_splits)
  obtain ds r1 where ds: "(if d = CHR ''0'' then ([d], q) else span_digits (d # q)) = (ds, r1)" by (cases "(if d = CHR ''0'' then ([d], q) else span_digits (d # q))")
  then have "(if d = CHR ''0'' then ([d], q @ t) else span_digits (d # q @ t)) = (ds, r1 @ t)"
    using span_digits_append [of "d # q" t] stops_not [OF assms(2)] by (auto simp: span_digits_def split: if_splits)
  then show ?thesis
    using assms(1) q ds scan_fraction_append [OF _ assms(2)] scan_exp_append [OF _ assms(2)]
    by (auto simp: scan_number_def sg sg_def [symmetric] drop Let_def simp del: drop_append split: option.splits prod.splits if_splits)
qed

lemma scan_literal_append:
  assumes "scan_literal s = Some (x, r)" "stops t"
  shows "scan_literal (s @ t) = Some (x, r @ t)"
proof -
  consider (null) "has_prefix ''null'' s" | (true) "has_prefix ''true'' s" | (false) "has_prefix ''false'' s"
    | (number) "\<not> has_prefix ''null'' s" "\<not> has_prefix ''true'' s" "\<not> has_prefix ''false'' s" by blast
  then show ?thesis
  proof cases
    case number
    then obtain y where y: "scan_number s = Some (y, r)" "x = JNum y" using assms(1) by (auto simp: scan_literal_def)
    have "hd s = CHR ''-'' \<or> is_digit (hd s)" "s \<noteq> []"
      using y(1) by (auto simp: scan_number_def Let_def split: list.splits if_splits)
    then have "hd (s @ t) = CHR ''-'' \<or> is_digit (hd (s @ t))" by simp
    then have "\<not> has_prefix ''null'' (s @ t)" "\<not> has_prefix ''true'' (s @ t)" "\<not> has_prefix ''false'' (s @ t)"
      by (auto simp: has_prefix_iff is_digit_def byte_def)
    then show ?thesis using scan_number_append [OF y(1) assms(2)] y(2) by (simp add: scan_literal_def)
  qed (use assms in \<open>auto simp: scan_literal_def has_prefix_iff\<close>)
qed

lemma scanned_not_blank:
  "scan_elems f depth s = Some x \<Longrightarrow> skip_ws s \<noteq> []"
  "scan_members f depth s = Some y \<Longrightarrow> skip_ws s \<noteq> []"
proof -
  have "scan_value f depth s = None" if "skip_ws s = []" for f using that by (cases f) simp_all
  then show "scan_elems f depth s = Some x \<Longrightarrow> skip_ws s \<noteq> []" by (cases f) auto
qed (cases f; simp split: list.splits)

text \<open>A value that was scanned is scanned in the same way when more text follows.\<close>

lemma scan_append:
  "scan_value f depth s = Some (v, r) \<Longrightarrow> stops t \<Longrightarrow> scan_value f depth (s @ t) = Some (v, r @ t)"
  "scan_elems f depth s = Some (vs, r) \<Longrightarrow> stops t \<Longrightarrow> scan_elems f depth (s @ t) = Some (vs, r @ t)"
  "scan_members f depth s = Some (ms, r) \<Longrightarrow> stops t \<Longrightarrow> scan_members f depth (s @ t) = Some (ms, r @ t)"
proof (induction f depth s and f depth s and f depth s arbitrary: v r and vs r and ms r
    rule: scan_value_scan_elems_scan_members.induct)
  case (2 f depth s)
  then obtain c cs where s: "skip_ws s = c # cs" by (auto split: list.splits)
  then have st: "skip_ws (s @ t) = c # cs @ t" using skip_ws_append [of s t] by simp
  have skip: "take 1 (skip_ws (cs @ t)) = take 1 (skip_ws cs)" "drop 1 (skip_ws (cs @ t)) = drop 1 (skip_ws cs) @ t"
    if "skip_ws cs \<noteq> []"
    using that skip_ws_append [of cs t] by (cases "skip_ws cs"; simp)+
  consider (object) "c = CHR ''{''" | (array) "c = CHR ''[''" | (string) "c = CHR 0x22"
    | (literal) "c \<noteq> CHR ''{''" "c \<noteq> CHR ''[''" "c \<noteq> CHR 0x22" by blast
  then show ?case
  proof cases
    case object
    have "skip_ws cs \<noteq> []" using "2.prems"(1) object s scanned_not_blank(2) [of f "depth - 1" cs] by (auto split: if_splits)
    then show ?thesis using 2 object s st skip by (auto split: if_splits)
  next
    case array
    have "skip_ws cs \<noteq> []" using "2.prems"(1) array s scanned_not_blank(1) [of f "depth - 1" cs] by (auto split: if_splits)
    then show ?thesis using 2 array s st skip by (auto split: if_splits)
  next
    case string
    then show ?thesis using "2.prems"(1) s st scan_string_append [of cs _ _ t] by auto
  next
    case literal
    then have "scan_literal (c # cs) = Some (v, r)" using "2.prems"(1) s by simp
    then show ?thesis using scan_literal_append [OF _ "2.prems"(2)] literal st by fastforce
  qed
next
  case (4 f depth s)
  then obtain v' r' c q where v: "scan_value f depth s = Some (v', r')" "skip_ws r' = c # q"
    by (auto split: option.splits list.splits)
  then have "skip_ws (r' @ t) = c # q @ t" using skip_ws_append [of r' t] by simp
  then show ?case
    using 4 v by (auto split: if_splits)
next
  case (6 f depth s)
  obtain q s1 k s2 col s3 v' r' c r'' where p:
    "skip_ws s = q # s1" "q = CHR 0x22" "scan_string s1 = Some (k, s2)" "skip_ws s2 = col # s3" "col = CHR '':''"
    "scan_value f depth s3 = Some (v', r')" "skip_ws r' = c # r''"
    using "6.prems"(1) by (auto simp: Let_def split: list.splits option.splits if_splits)
  have "length r' < length (skip_ws s3)"
    using scan_lengths(1) [of f depth "skip_ws s3"] p(6) by (simp add: scan_value_skip_ws)
  then have "skip_ws (s3 @ t) = skip_ws s3 @ t" by (intro skip_ws_append) auto
  moreover have "skip_ws (s @ t) = q # s1 @ t" "skip_ws (s2 @ t) = col # s3 @ t" "skip_ws (r' @ t) = c # r'' @ t"
    using p(1,4,7) skip_ws_append [of s t] skip_ws_append [of s2 t] skip_ws_append [of r' t] by simp_all
  ultimately show ?case
    using 6 p scan_string_append [OF p(3), of t] by (auto simp: Let_def split: if_splits)
qed simp_all

end
