(* ===== verification/Literals.thy ===== *)
theory Literals
  imports JsonText
begin

text \<open>
  The bodies of string literals: what the scanner accepts between the quotes, what compacting makes of it,
  and the text it denotes.  Compacting a body keeps its text, and the text of a body is valid UTF-8 whatever
  bytes and surrogates the body has.
\<close>

section \<open>Bodies of strings\<close>

text \<open>The body of a string literal, between its quotes.\<close>

definition body_ok :: "string \<Rightarrow> bool" where
  "body_ok b \<longleftrightarrow> scan_string (b @ [CHR 0x22]) = Some (b, [])"

lemma body_ok_Nil [simp]: "body_ok []"
  by (simp add: body_ok_def)

lemma body_ok_scan: "body_ok b \<Longrightarrow> scan_string (b @ CHR 0x22 # r) = Some (b, r)"
  using scan_string_append [of "b @ [CHR 0x22]" b "[]" r] by (simp add: body_ok_def)

lemma quote_not_hex: "\<not> is_hex (CHR 0x22)"
  by code_simp

lemma hex_before_quote:
  assumes "list_all is_hex (take 4 (b @ CHR 0x22 # r))"
  shows "4 \<le> length b \<and> list_all is_hex (take 4 b)"
proof -
  have "4 \<le> length b"
  proof (rule ccontr)
    assume "\<not> 4 \<le> length b"
    then obtain k where "4 - length b = Suc k" by (cases "4 - length b") auto
    then have "CHR 0x22 \<in> set (take 4 (b @ CHR 0x22 # r))" by simp
    then show False using assms quote_not_hex by (auto simp: list_all_iff)
  qed
  then show ?thesis using assms by simp
qed

definition escape_ok :: "char \<Rightarrow> string \<Rightarrow> bool" where
  "escape_ok e r \<longleftrightarrow>
     byte e \<in> {98, 102, 110, 114, 116, 92, 47, 34} \<or> e = CHR ''u'' \<and> 4 \<le> length r \<and> list_all is_hex (take 4 r)"

lemma escape_ok_quote: "escape_ok e (b @ CHR 0x22 # r) \<longleftrightarrow> escape_ok e b"
proof -
  have "4 \<le> length (b @ CHR 0x22 # r) \<and> list_all is_hex (take 4 (b @ CHR 0x22 # r)) \<longleftrightarrow>
      4 \<le> length b \<and> list_all is_hex (take 4 b)" (is "?l \<longleftrightarrow> ?r")
  proof
    assume ?l
    then show ?r using hex_before_quote by blast
  next
    assume ?r
    then show ?l by simp
  qed
  then show ?thesis unfolding escape_ok_def by blast
qed

lemma scan_escape:
  "scan_string (CHR 0x5C # e # r) =
     (if escape_ok e r then map_option (\<lambda>(b, q). (CHR 0x5C # e # b, q)) (scan_string r) else None)"
  by (simp add: escape_ok_def byte_def)

lemma scan_unescaped:
  "c \<noteq> CHR 0x5C \<Longrightarrow> scan_string (c # cs) =
     (if c = CHR 0x22 then Some ([], cs) else if byte c < 32 then None else map_option (\<lambda>(b, q). (c # b, q)) (scan_string cs))"
  by simp

lemma body_ok_plain:
  "c \<noteq> CHR 0x5C \<Longrightarrow> body_ok (c # cs) \<longleftrightarrow> c \<noteq> CHR 0x22 \<and> 32 \<le> byte c \<and> body_ok cs"
  by (auto simp: body_ok_def scan_unescaped simp del: scan_string.simps)

lemma body_ok_escape: "body_ok (CHR 0x5C # e # r) \<longleftrightarrow> escape_ok e r \<and> body_ok r"
  using escape_ok_quote [of e r "[]"]
  by (auto simp: body_ok_def scan_escape simp del: scan_string.simps split: if_splits)

lemma body_ok_not_escape: "\<not> body_ok [CHR 0x5C]"
proof -
  have "escape_ok (CHR 0x22) [] \<longrightarrow> scan_string [] = None" by simp
  then show ?thesis by (simp add: body_ok_def scan_escape del: scan_string.simps)
qed

lemma scan_string_body: "scan_string s = Some (b, r) \<Longrightarrow> s = b @ CHR 0x22 # r \<and> body_ok b"
proof (induction s arbitrary: b rule: length_induct)
  case (1 s)
  then obtain c cs where s: "s = c # cs" by (cases s) auto
  show ?case
  proof (cases "c = CHR 0x5C")
    case True
    then obtain e q where cs: "cs = e # q" using "1.prems" s by (cases cs) (auto split: if_splits)
    obtain b' where b: "scan_string q = Some (b', r)" "b = CHR 0x5C # e # b'" "escape_ok e q"
      using "1.prems" unfolding s cs True by (auto simp: scan_escape simp del: scan_string.simps split: if_splits)
    have "q = b' @ CHR 0x22 # r \<and> body_ok b'" using "1.IH" [rule_format, of q b'] b(1) by (simp add: s cs)
    then show ?thesis using b escape_ok_quote by (simp add: s cs True body_ok_escape)
  next
    case False
    show ?thesis
    proof (cases "c = CHR 0x22")
      case True
      then show ?thesis using "1.prems" by (simp add: s)
    next
      case q: False
      obtain b' where b: "scan_string cs = Some (b', r)" "b = c # b'" "\<not> byte c < 32"
        using "1.prems" False q unfolding s by (auto simp: scan_unescaped simp del: scan_string.simps split: if_splits)
      have "cs = b' @ CHR 0x22 # r \<and> body_ok b'" using "1.IH" [rule_format, of cs b'] b(1) by (simp add: s)
      then show ?thesis using b False q by (simp add: s body_ok_plain)
    qed
  qed
qed

text \<open>What compacting makes of a body.\<close>

function comp_body :: "string \<Rightarrow> string" where
  "comp_body [] = []"
| "comp_body (c # cs) =
     (if c = CHR 0x5C then (case cs of [] \<Rightarrow> [c] | e # r \<Rightarrow> c # e # comp_body r)
      else if byte c \<in> {60, 62, 38} then esc_u (byte c) @ comp_body cs
      else (case line_sep (c # cs) of
              Some u \<Rightarrow> esc_u u @ comp_body (drop 2 cs)
            | None \<Rightarrow> c # comp_body cs))"
  by pat_completeness auto
termination by (relation "measure length") auto

lemma line_sep_first: "line_sep (c # cs) \<noteq> None \<Longrightarrow> byte c = 226"
  by (auto simp: line_sep_def byte_def split: if_splits)

lemma line_sep_before_quote: "line_sep (b @ CHR 0x22 # r) = line_sep b"
  by (cases b; cases "tl b"; cases "tl (tl b)") (simp_all add: line_sep_def byte_def)

lemma compact_comp_body:
  "body_ok b \<Longrightarrow> compact_body True False (b @ CHR 0x22 # r) = comp_body b @ CHR 0x22 # compact_body False False r"
proof (induction b rule: length_induct)
  case (1 b)
  have q: "byte (CHR 0x22) = 34" "byte (CHR 0x5C) = 92" by code_simp+
  have low: "line_sep (x # xs) = None" if "byte x < 128" for x xs
    using line_sep_first [of x xs] that by (cases "line_sep (x # xs)") auto
  show ?case
  proof (cases b)
    case Nil
    then show ?thesis by (simp add: q low)
  next
    case (Cons c cs)
    show ?thesis
    proof (cases "c = CHR 0x5C")
      case True
      then obtain e x where cs: "cs = e # x" using "1.prems" Cons body_ok_not_escape by (cases cs) auto
      have ok: "escape_ok e x" "body_ok x" using "1.prems" Cons cs True by (auto simp: body_ok_escape)
      then have "byte e \<in> {98, 102, 110, 114, 116, 92, 47, 34, 117}" by (auto simp: escape_ok_def byte_def)
      then have e: "byte e \<notin> {60, 62, 38}" "byte e < 128" by auto
      have "compact_body True False (x @ CHR 0x22 # r) = comp_body x @ CHR 0x22 # compact_body False False r"
        using "1.IH" [rule_format, of x] ok(2) by (simp add: Cons cs)
      then show ?thesis using e by (simp add: Cons cs True q low)
    next
      case False
      have ok: "body_ok cs" "c \<noteq> CHR 0x22" using "1.prems" Cons False by (simp_all add: body_ok_plain)
      have IH: "compact_body True False (x @ CHR 0x22 # r) = comp_body x @ CHR 0x22 # compact_body False False r"
        if "body_ok x" "length x \<le> length cs" for x
        using "1.IH" [rule_format, of x] that by (simp add: Cons)
      have sep: "line_sep (c # cs @ CHR 0x22 # r) = line_sep (c # cs)" using line_sep_before_quote [of "c # cs"] by simp
      show ?thesis
      proof (cases "line_sep (c # cs)")
        case None
        then show ?thesis using IH ok False sep by (simp add: Cons)
      next
        case (Some u)
        then obtain d e x where cs: "cs = d # e # x" and de: "128 \<le> byte d" "128 \<le> byte e"
          by (cases cs; cases "tl cs") (auto simp: line_sep_def byte_def split: if_splits)
        have "byte c = 226" using line_sep_first [of c cs] Some by simp
        moreover have "d \<noteq> CHR 0x5C" "e \<noteq> CHR 0x5C" using de by (auto simp: byte_def)
        then have "body_ok x" using ok(1) by (simp add: cs body_ok_plain)
        then have "compact_body True False (x @ CHR 0x22 # r) = comp_body x @ CHR 0x22 # compact_body False False r"
          using IH by (simp add: cs)
        ultimately show ?thesis using Some sep False by (simp add: Cons cs)
      qed
    qed
  qed
qed

text \<open>A compacted body is a body.\<close>

lemma hex_plain: "is_hex x \<Longrightarrow> x \<noteq> CHR 0x22 \<and> x \<noteq> CHR 0x5C \<and> 32 \<le> byte x \<and> byte x < 128 \<and> byte x \<notin> {60, 62, 38}"
  by (auto simp: is_hex_def is_digit_of_def digit_val_def ascii_lower_def byte_def Let_def split: if_splits)

lemma line_sep_low: "byte x < 128 \<Longrightarrow> line_sep (x # xs) = None"
  using line_sep_first [of x xs] by (cases "line_sep (x # xs)") auto

lemma comp_hex: "list_all is_hex h \<Longrightarrow> comp_body (h @ r) = h @ comp_body r"
  by (induction h) (auto simp: line_sep_low dest!: hex_plain)

lemma body_ok_hex: "list_all is_hex h \<Longrightarrow> body_ok (h @ r) = body_ok r"
  by (induction h) (auto simp: body_ok_plain dest!: hex_plain)

lemma escape_ok_comp: "escape_ok e x \<Longrightarrow> escape_ok e (comp_body x)"
proof -
  assume ok: "escape_ok e x"
  have "4 \<le> length (comp_body x) \<and> list_all is_hex (take 4 (comp_body x))" if "4 \<le> length x" "list_all is_hex (take 4 x)"
    using comp_hex [OF that(2), of "drop 4 x"] that by simp
  then show ?thesis using ok unfolding escape_ok_def by blast
qed

lemma body_ok_esc_u: "n < 65536 \<Longrightarrow> body_ok (esc_u n @ t) = body_ok t"
proof -
  assume "n < 65536"
  then obtain a b c d where e: "esc_u n = [CHR 0x5C, CHR ''u'', a, b, c, d]" and h: "list_all is_hex [a, b, c, d]"
    by (rule esc_u_parts) blast
  have "escape_ok (CHR ''u'') ([a, b, c, d] @ t)" using h by (simp add: escape_ok_def)
  then show ?thesis using body_ok_hex [OF h, of t] by (simp add: e body_ok_escape)
qed

lemma special_code: "byte c \<in> {60, 62, 38} \<Longrightarrow> byte c < 128" "line_sep s = Some u \<Longrightarrow> u < 55296"
  by (auto dest: line_sep_cases(1))

lemma body_ok_drop2: "line_sep (c # cs) = Some u \<Longrightarrow> body_ok cs \<Longrightarrow> body_ok (drop 2 cs)"
proof -
  assume l: "line_sep (c # cs) = Some u" "body_ok cs"
  then obtain d e x where cs: "cs = d # e # x" and de: "128 \<le> byte d" "128 \<le> byte e"
    by (cases cs; cases "tl cs") (auto simp: line_sep_def byte_def split: if_splits)
  have "d \<noteq> CHR 0x5C" "e \<noteq> CHR 0x5C" using de by (auto simp: byte_def)
  then show ?thesis using l(2) by (simp add: cs body_ok_plain)
qed

lemma body_ok_comp: "body_ok b \<Longrightarrow> body_ok (comp_body b)"
proof (induction b rule: comp_body.induct)
  case (2 c cs)
  show ?case
  proof (cases "c = CHR 0x5C")
    case True
    then obtain e x where cs: "cs = e # x" using "2.prems" body_ok_not_escape by (cases cs) auto
    then show ?thesis
      using "2.prems" "2.IH"(1) [OF True cs] True escape_ok_comp by (simp add: body_ok_escape)
  next
    case False
    then have ok: "body_ok cs" "c \<noteq> CHR 0x22" "32 \<le> byte c" using "2.prems" by (simp_all add: body_ok_plain)
    show ?thesis
    proof (cases "byte c \<in> {60, 62, 38}")
      case True
      then have "comp_body (c # cs) = esc_u (byte c) @ comp_body cs" using False by simp
      moreover have "byte c < 65536" using special_code(1) [OF True] by simp
      ultimately show ?thesis using "2.IH"(2) [OF False True ok(1)] body_ok_esc_u by simp
    next
      case special: False
      show ?thesis
      proof (cases "line_sep (c # cs)")
        case None
        then show ?thesis using "2.IH"(3) [OF False special None ok(1)] False special ok by (simp add: body_ok_plain)
      next
        case (Some u)
        then have "comp_body (c # cs) = esc_u u @ comp_body (drop 2 cs)" using False special by simp
        then show ?thesis
          using "2.IH"(4) [OF False special Some] body_ok_drop2 [OF Some ok(1)] special_code(2) [OF Some] body_ok_esc_u
          by simp
      qed
    qed
  qed
qed simp

section \<open>The text of a body\<close>

definition low_escape :: "string \<Rightarrow> bool" where
  "low_escape y \<longleftrightarrow> take 2 y = [CHR 0x5C, CHR ''u''] \<and> 56320 \<le> hex4 (drop 2 y) \<and> hex4 (drop 2 y) < 57344"

lemma unquote_simple: "e \<noteq> CHR ''u'' \<Longrightarrow> unquote (CHR 0x5C # e # r) = simple_escape e # unquote r"
  by simp

lemma unquote_u:
  "unquote (CHR 0x5C # CHR ''u'' # r) =
     (let n = hex4 r; y = drop 4 r in
      if n < 55296 \<or> 57344 \<le> n then utf8_enc n @ unquote y
      else if n < 56320 \<and> low_escape y
           then utf8_enc (65536 + (n - 55296) * 1024 + (hex4 (drop 2 y) - 56320)) @ unquote (drop 6 y)
      else replacement @ unquote y)"
  by (simp add: low_escape_def Let_def)

lemma unquote_unescaped:
  "c \<noteq> CHR 0x5C \<Longrightarrow> unquote (c # cs) =
     (case utf8_size (c # cs) of 0 \<Rightarrow> replacement @ unquote cs | Suc m \<Rightarrow> c # take m cs @ unquote (drop m cs))"
  by (simp add: Let_def split: nat.split)

text \<open>The size of a character depends on the continuation bytes after it.\<close>

lemma utf8_size_conts: "utf8_size (c # cs) = utf8_size (c # takeWhile cont cs)"
  by (cases cs; cases "tl cs"; cases "tl (tl cs)") (auto simp: utf8_size_def Let_def split: list.split)

lemma utf8_size_rest: "utf8_size (c # cs) = Suc m \<Longrightarrow> m \<le> length cs \<and> (\<forall>x \<in> set (take m cs). cont x)"
  by (cases cs; cases "tl cs"; cases "tl (tl cs)") (auto simp: utf8_size_def Let_def split: if_splits list.splits)

lemma cont_plain: "cont x \<Longrightarrow> x \<noteq> CHR 0x5C \<and> x \<noteq> CHR 0x22 \<and> byte x \<notin> {60, 62, 38} \<and> 32 \<le> byte x"
  by (auto simp: cont_def byte_def)

lemma cont_no_sep: "cont x \<Longrightarrow> line_sep (x # xs) = None"
  using line_sep_first [of x xs] by (cases "line_sep (x # xs)") (auto simp: cont_def)

lemma comp_conts: "\<forall>x \<in> set p. cont x \<Longrightarrow> comp_body (p @ r) = p @ comp_body r"
  by (induction p) (use cont_plain cont_no_sep in simp_all)

lemma body_ok_conts: "\<forall>x \<in> set p. cont x \<Longrightarrow> body_ok (p @ r) = body_ok r"
  by (induction p) (use cont_plain in \<open>simp_all add: body_ok_plain\<close>)

lemma comp_takeWhile_cont: "body_ok cs \<Longrightarrow> takeWhile cont (comp_body cs) = takeWhile cont cs"
proof -
  assume "body_ok cs"
  define p where "p = takeWhile cont cs"
  have cs: "cs = p @ dropWhile cont cs" by (simp add: p_def)
  have p: "\<forall>x \<in> set p. cont x" unfolding p_def by (blast dest: set_takeWhileD)
  have "takeWhile cont (comp_body (dropWhile cont cs)) = []"
  proof (cases "dropWhile cont cs")
    case Nil
    show ?thesis unfolding Nil by simp
  next
    case (Cons c r)
    have "\<not> cont c" using hd_dropWhile [of cont cs] Cons by simp
    moreover have "\<not> cont (CHR 0x5C)" by (simp add: cont_def byte_def)
    ultimately show ?thesis
      unfolding Cons by (simp add: esc_u_def split: list.split option.split)
  qed
  then have "takeWhile cont (comp_body cs) = p"
    using comp_conts [OF p, of "dropWhile cont cs"] p cs by (simp add: takeWhile_append2)
  then show ?thesis by (simp add: p_def)
qed

lemma utf8_size_comp: "body_ok cs \<Longrightarrow> utf8_size (c # comp_body cs) = utf8_size (c # cs)"
  using utf8_size_conts [of c cs] utf8_size_conts [of c "comp_body cs"] comp_takeWhile_cont [of cs] by simp

text \<open>Compacting does not make or break the second half of a pair of surrogates.\<close>

lemma hex4_append: "4 \<le> length x \<Longrightarrow> hex4 (x @ y) = hex4 x"
  by (simp add: hex4_def)

lemma comp_u:
  assumes "escape_ok (CHR ''u'') x"
  shows "comp_body x = take 4 x @ comp_body (drop 4 x)" "hex4 (comp_body x) = hex4 x" "4 \<le> length x"
proof -
  have x: "4 \<le> length x" "list_all is_hex (take 4 x)" using assms by (auto simp: escape_ok_def byte_def)
  show "comp_body x = take 4 x @ comp_body (drop 4 x)" using comp_hex [OF x(2), of "drop 4 x"] by simp
  then show "hex4 (comp_body x) = hex4 x" using x(1) by (simp add: hex4_def)
  show "4 \<le> length x" by (rule x(1))
qed

lemma hex4_esc_u: "n < 65536 \<Longrightarrow> take 2 (esc_u n @ t) = [CHR 0x5C, CHR ''u''] \<and> hex4 (drop 2 (esc_u n @ t)) = n"
proof -
  assume "n < 65536"
  then obtain a b c d where "esc_u n = [CHR 0x5C, CHR ''u'', a, b, c, d]" "\<And>s. hex4 (a # b # c # d # s) = n"
    by (rule esc_u_parts) blast
  then show ?thesis by simp
qed

lemma low_escape_comp:
  assumes "body_ok y"
  shows "low_escape (comp_body y) = low_escape y"
    "low_escape y \<Longrightarrow> hex4 (drop 2 (comp_body y)) = hex4 (drop 2 y) \<and> drop 6 (comp_body y) = comp_body (drop 6 y) \<and> body_ok (drop 6 y)"
proof -
  have "low_escape (comp_body y) = low_escape y \<and> (low_escape y \<longrightarrow>
      hex4 (drop 2 (comp_body y)) = hex4 (drop 2 y) \<and> drop 6 (comp_body y) = comp_body (drop 6 y) \<and> body_ok (drop 6 y))"
  proof (cases y)
    case Nil
    then show ?thesis by (simp add: low_escape_def)
  next
    case (Cons c cs)
    show ?thesis
    proof (cases "c = CHR 0x5C")
      case True
      then obtain e x where cs: "cs = e # x" using assms Cons body_ok_not_escape by (cases cs) auto
      have ok: "escape_ok e x" "body_ok x" using assms Cons cs True by (simp_all add: body_ok_escape)
      show ?thesis
      proof (cases "e = CHR ''u''")
        case u: True
        note x = comp_u [OF ok(1) [unfolded u]]
        have "body_ok (drop 4 x)" using body_ok_conts ok body_ok_hex [of "take 4 x" "drop 4 x"] u
          by (auto simp: escape_ok_def byte_def)
        then show ?thesis using x by (simp add: low_escape_def Cons cs True u)
      next
        case False
        then show ?thesis by (simp add: low_escape_def Cons cs True)
      qed
    next
      case False
      then have no: "\<not> low_escape y" by (simp add: low_escape_def Cons)
      have "\<not> low_escape (esc_u n @ t)" if "n < 55296" for n t
        using hex4_esc_u [of n t] that by (simp add: low_escape_def)
      then have "\<not> low_escape (comp_body y)"
        using False special_code by (auto simp: Cons low_escape_def split: option.split)
      then show ?thesis using no by simp
    qed
  qed
  then show "low_escape (comp_body y) = low_escape y"
    "low_escape y \<Longrightarrow> hex4 (drop 2 (comp_body y)) = hex4 (drop 2 y) \<and> drop 6 (comp_body y) = comp_body (drop 6 y) \<and> body_ok (drop 6 y)"
    by blast+
qed

lemma simple_escape_ok: "escape_ok e x \<Longrightarrow> e \<noteq> CHR ''u'' \<Longrightarrow> byte e \<in> {98, 102, 110, 114, 116, 92, 47, 34}"
  by (simp add: escape_ok_def)

text \<open>The three kinds of bodies that are not empty.\<close>

lemma body_cases:
  assumes "body_ok b" "b \<noteq> []"
  obtains (simple) e x where "b = CHR 0x5C # e # x" "e \<noteq> CHR ''u''" "escape_ok e x" "body_ok x"
  | (code) h y where "b = CHR 0x5C # CHR ''u'' # h @ y" "length h = 4" "list_all is_hex h" "body_ok y" "body_ok (h @ y)"
  | (plain) c cs where "b = c # cs" "c \<noteq> CHR 0x5C" "c \<noteq> CHR 0x22" "32 \<le> byte c" "body_ok cs"
proof (cases b)
  case Nil
  then show thesis using assms(2) by simp
next
  case (Cons c cs)
  show thesis
  proof (cases "c = CHR 0x5C")
    case False
    then show thesis using plain [OF Cons] assms(1) Cons by (simp add: body_ok_plain)
  next
    case True
    then obtain e x where cs: "cs = e # x" using assms(1) Cons body_ok_not_escape by (cases cs) auto
    have ok: "escape_ok e x" "body_ok x" using assms(1) Cons cs True by (simp_all add: body_ok_escape)
    show thesis
    proof (cases "e = CHR ''u''")
      case False
      then show thesis using simple ok Cons cs True by blast
    next
      case u: True
      then have x: "4 \<le> length x" "list_all is_hex (take 4 x)" using ok(1) by (auto simp: escape_ok_def byte_def)
      show thesis
      proof (rule code [of "take 4 x" "drop 4 x"])
        show "body_ok (drop 4 x)" using body_ok_hex [OF x(2), of "drop 4 x"] ok(2) by simp
      qed (use Cons cs True u x ok(2) in simp_all)
    qed
  qed
qed

lemma comp_plain:
  assumes "c \<noteq> CHR 0x5C" "body_ok cs"
  obtains (special) "byte c \<in> {60, 62, 38}" "utf8_size (c # cs) = 1" "comp_body (c # cs) = esc_u (byte c) @ comp_body cs"
  | (separator) u where "utf8_size (c # cs) = Suc 2" "c # take 2 cs = utf8_enc u" "u < 55296"
      "comp_body (c # cs) = esc_u u @ comp_body (drop 2 cs)"
  | (same) "comp_body (c # cs) = c # comp_body cs" "utf8_size (c # comp_body cs) = utf8_size (c # cs)"
proof (cases "byte c \<in> {60, 62, 38}")
  case True
  then have "utf8_size (c # cs) = 1" by (auto simp: utf8_size_def)
  then show thesis using special True assms(1) by simp
next
  case False
  show thesis
  proof (cases "line_sep (c # cs)")
    case None
    then show thesis using same False assms utf8_size_comp by simp
  next
    case (Some u)
    have "take 3 (c # cs) = c # take 2 cs" by (simp add: eval_nat_numeral)
    then show thesis using separator [of u] line_sep_cases [OF Some] special_code(2) [OF Some] Some False assms by simp
  qed
qed

lemma unquote_comp: "body_ok b \<Longrightarrow> unquote (comp_body b) = unquote b"
proof (induction b rule: length_induct)
  case (1 b)
  show ?case
  proof (cases "b = []")
    case False
    from "1.prems" False show ?thesis
    proof (cases rule: body_cases)
      case (simple e x)
      then have "unquote (comp_body x) = unquote x" using "1.IH" by simp
      then show ?thesis using simple by (simp add: unquote_simple del: unquote.simps)
    next
      case (code h y)
      have IH: "unquote (comp_body y) = unquote y" "body_ok (drop 6 y) \<Longrightarrow> unquote (comp_body (drop 6 y)) = unquote (drop 6 y)"
        using "1.IH" code by simp_all
      have c: "comp_body b = CHR 0x5C # CHR ''u'' # h @ comp_body y" using comp_hex [OF code(3), of y] by (simp add: code(1))
      have h: "hex4 (h @ z) = hex4 h" for z using code(2) by (simp add: hex4_append)
      have d: "drop 4 (h @ z) = z" for z using code(2) by simp
      show ?thesis
        unfolding c unfolding code(1) unquote_u Let_def h d
        using IH low_escape_comp [OF code(4)] by auto
    next
      case (plain c cs)
      have IH: "unquote (comp_body z) = unquote z" if "body_ok z" "length z \<le> length cs" for z
        using "1.IH" that plain(1) by simp
      from plain(2,5) show ?thesis
      proof (cases rule: comp_plain)
        case special
        have "unquote (esc_u (byte c) @ comp_body cs) = utf8_enc (byte c) @ unquote (comp_body cs)"
          using special_code(1) [OF special(1)] by (intro unquote_esc_u) simp
        then show ?thesis
          using special plain IH [OF plain(5)] special_code(1) [OF special(1)]
          by (simp add: unquote_unescaped utf8_enc_byte del: unquote.simps comp_body.simps)
      next
        case (separator u)
        have "body_ok (drop 2 cs)"
          using utf8_size_rest [of c cs 2] separator(1) plain(5) body_ok_conts [of "take 2 cs" "drop 2 cs"] by simp
        moreover have "unquote (esc_u u @ comp_body (drop 2 cs)) = utf8_enc u @ unquote (comp_body (drop 2 cs))"
          using separator(3) by (intro unquote_esc_u) simp
        moreover have "unquote (c # cs) = (c # take 2 cs) @ unquote (drop 2 cs)"
          unfolding unquote_unescaped [OF plain(2)] separator(1) by simp
        ultimately show ?thesis
          using IH [of "drop 2 cs"] by (simp only: plain(1) separator(2,4) length_drop diff_le_self)
      next
        case same
        show ?thesis
        proof (cases "utf8_size (c # cs)")
          case 0
          then show ?thesis
            using same plain IH [OF plain(5)] by (simp add: unquote_unescaped del: unquote.simps comp_body.simps)
        next
          case (Suc m)
          note rest = utf8_size_rest [OF Suc]
          have "comp_body cs = take m cs @ comp_body (drop m cs)"
            using comp_conts [of "take m cs" "drop m cs"] rest by simp
          moreover have "body_ok (drop m cs)" using body_ok_conts [of "take m cs" "drop m cs"] rest plain(5) by simp
          ultimately show ?thesis
            using same plain Suc IH [of "drop m cs"] rest
            by (simp add: unquote_unescaped del: unquote.simps comp_body.simps)
        qed
      qed
    qed
  qed simp
qed

section \<open>Texts are valid UTF-8\<close>

lemma valid_utf8_chunk: "utf8_size s = Suc n \<Longrightarrow> valid_utf8 (take (Suc n) s @ t) = valid_utf8 t"
proof -
  assume size: "utf8_size s = Suc n"
  then obtain c cs where s: "s = c # cs" by (cases s) (auto simp: utf8_size_def)
  have "utf8_size (c # take n cs @ t) = Suc n" "n \<le> length cs" using utf8_size_take [OF size, of t] by (simp_all add: s)
  then show ?thesis by (simp add: s)
qed

definition scalar :: "nat \<Rightarrow> bool" where
  "scalar u \<longleftrightarrow> u < 55296 \<or> 57344 \<le> u \<and> u < 1114112"

lemma utf8_enc_size:
  assumes "scalar u"
  shows "utf8_size (utf8_enc u) = length (utf8_enc u)"
proof -
  consider "u < 128" | "128 \<le> u" "u < 2048" | "2048 \<le> u" "u < 65536" | "65536 \<le> u" by linarith
  then show ?thesis
  proof cases
    case 1
    then show ?thesis by (simp add: utf8_enc_def utf8_size_def byte_def)
  next
    case 2
    then have "2 \<le> u div 64" "u div 64 < 32" by auto
    then show ?thesis using 2 by (simp add: utf8_enc_def utf8_size_def byte_def cont_def Let_def)
  next
    case 3
    define a b where d: "a = u div 4096" "b = u div 64 mod 64"
    have "a < 16" "b < 64" using 3 by (simp_all add: d)
    have "32 \<le> b" if "a = 0" using that 3 unfolding d by auto
    moreover have "b < 32" if "a = 13"
    proof -
      define v where "v = u div 64"
      have "v div 64 = 13" using that by (simp add: v_def d div_mult2_eq [symmetric])
      then have "v = 832 + v mod 64" using div_mult_mod_eq [of v 64] by simp
      moreover have "v < 864 \<or> 896 \<le> v" using assms 3 by (auto simp: v_def scalar_def)
      moreover have "b = v mod 64" "v mod 64 < 64" by (simp_all add: d v_def)
      ultimately show ?thesis by linarith
    qed
    ultimately show ?thesis
      using 3 \<open>a < 16\<close> \<open>b < 64\<close> by (simp add: utf8_enc_def utf8_size_def byte_def cont_def Let_def d [symmetric])
  next
    case 4
    define a b where d: "a = u div 262144" "b = u div 4096 mod 64"
    have "a < 5" "b < 64" using assms 4 by (simp_all add: d scalar_def)
    have "16 \<le> b" if "a = 0" using that 4 unfolding d by auto
    moreover have "b < 16" if "a = 4"
    proof -
      define v where "v = u div 4096"
      have "u < 1114112" using assms by (auto simp: scalar_def)
      then have "v < 272" by (simp add: v_def)
      moreover have "v div 64 = 4" using that by (simp add: v_def d div_mult2_eq [symmetric])
      then have "v = 256 + v mod 64" using div_mult_mod_eq [of v 64] by simp
      moreover have "b = v mod 64" by (simp add: d v_def)
      ultimately show ?thesis by linarith
    qed
    ultimately show ?thesis
      using 4 \<open>a < 5\<close> \<open>b < 64\<close> by (simp add: utf8_enc_def utf8_size_def byte_def cont_def Let_def d [symmetric])
  qed
qed

lemma valid_utf8_enc: "scalar u \<Longrightarrow> valid_utf8 (utf8_enc u @ t) = valid_utf8 t"
proof -
  assume u: "scalar u"
  have "utf8_enc u \<noteq> []" by (simp add: utf8_enc_def)
  then obtain n where n: "length (utf8_enc u) = Suc n" by (cases "length (utf8_enc u)") auto
  then show ?thesis using valid_utf8_chunk [of "utf8_enc u" n t] utf8_enc_size [OF u] by simp
qed

lemma positional_bound: "list_all is_hex h \<Longrightarrow> positional 16 n h < (n + 1) * 16 ^ length h"
proof (induction h arbitrary: n)
  case (Cons c h)
  then obtain d where d: "digit_val c = Some d" "d < 16" by (auto simp: is_hex_def is_digit_of_def split: option.splits)
  have "positional 16 (n * 16 + d) h < (n * 16 + d + 1) * 16 ^ length h" using Cons by simp
  also have "\<dots> \<le> ((n + 1) * 16) * 16 ^ length h" using d(2) by (intro mult_right_mono) auto
  finally show ?case using d(1) by (simp add: algebra_simps)
qed simp

lemma hex4_bound: "length h = 4 \<Longrightarrow> list_all is_hex h \<Longrightarrow> hex4 h < 65536"
  using positional_bound [of h 0] by (simp add: hex4_def)

lemma simple_escape_low: "byte e \<in> {98, 102, 110, 114, 116, 92, 47, 34} \<Longrightarrow> byte (simple_escape e) < 128"
  by (auto simp: simple_escape_def byte_def)

lemma valid_utf8_low: "byte c < 128 \<Longrightarrow> valid_utf8 (c # t) = valid_utf8 t"
  by (simp add: utf8_size_def)

text \<open>Whatever bytes a body has, and whatever surrogates, the text it denotes is valid UTF-8.\<close>

lemma unquote_valid: "body_ok b \<Longrightarrow> valid_utf8 (unquote b)"
proof (induction b rule: length_induct)
  case (1 b)
  have r: "valid_utf8 (replacement @ t) = valid_utf8 t" for t
    using valid_utf8_enc [of 65533 t] by (simp add: replacement_def scalar_def)
  show ?case
  proof (cases "b = []")
    case False
    from "1.prems" False show ?thesis
    proof (cases rule: body_cases)
      case (simple e x)
      then have "valid_utf8 (unquote x)" using "1.IH" by simp
      then show ?thesis
        using simple simple_escape_low [OF simple_escape_ok] by (simp add: unquote_simple valid_utf8_low del: unquote.simps valid_utf8.simps)
    next
      case (code h y)
      have IH: "valid_utf8 (unquote y)" "body_ok (drop 6 y) \<Longrightarrow> valid_utf8 (unquote (drop 6 y))"
        using "1.IH" code by simp_all
      have h: "hex4 (h @ z) = hex4 h" "drop 4 (h @ z) = z" for z using code(2) by (simp_all add: hex4_append)
      have u: "hex4 h < 65536" using code(2,3) by (rule hex4_bound)
      have pair: "scalar (65536 + (hex4 h - 55296) * 1024 + (hex4 (drop 2 y) - 56320))"
        if "hex4 h < 56320" "low_escape y"
      proof -
        have "(hex4 h - 55296) * 1024 \<le> 1023 * 1024" using that(1) by (intro mult_le_mono1) simp
        then show ?thesis using that(2) by (simp add: scalar_def low_escape_def)
      qed
      show ?thesis
        unfolding code(1) unquote_u Let_def h
        using IH low_escape_comp(2) [OF code(4)] u pair by (auto simp: r valid_utf8_enc scalar_def)
    next
      case (plain c cs)
      show ?thesis
      proof (cases "utf8_size (c # cs)")
        case 0
        then show ?thesis using "1.IH" plain by (simp add: unquote_unescaped r del: unquote.simps)
      next
        case (Suc m)
        have "body_ok (drop m cs)"
          using body_ok_conts [of "take m cs" "drop m cs"] utf8_size_rest [OF Suc] plain(5) by simp
        then have "valid_utf8 (unquote (drop m cs))" using "1.IH" plain(1) by simp
        then show ?thesis
          using plain(1,2) Suc valid_utf8_chunk [OF Suc, of "unquote (drop m cs)"]
          by (simp add: unquote_unescaped del: unquote.simps valid_utf8.simps)
      qed
    qed
  qed simp
qed

end
