(* ===== verification/RoundTrip.thy ===== *)
theory RoundTrip
  imports Literals
begin

text \<open>
  What the program sends is what it received: a request that was decoded, and is written for the
  node, is read by the node as the same request.
\<close>

section \<open>Texts of values\<close>

definition reads :: "nat \<Rightarrow> string \<Rightarrow> json \<Rightarrow> bool" where
  "reads d t j \<longleftrightarrow> t \<noteq> [] \<and> \<not> is_ws (hd t) \<and> scan_value (2 * length t + 1) d t = Some (j, [])"

lemma reads_value:
  assumes "reads d t j" "stops r" "2 * length t + 1 \<le> f"
  shows "scan_value f d (t @ r) = Some (j, r)"
proof -
  obtain k where "f = 2 * length t + 1 + k" using assms(3) le_iff_add by blast
  then have "scan_value f d t = Some (j, [])"
    using scan_value_enough_fuel [of t "2 * length t + 1" k d] assms(1) by (simp add: reads_def)
  from scan_append(1) [OF this assms(2)] show ?thesis by simp
qed

lemma reads_parse: "reads max_nesting t j \<Longrightarrow> json_parse t = Some j"
  using reads_value [of max_nesting t j "[]" "2 * length t + 2"] by (simp add: json_parse_def stops_def skip_ws_def)

lemma reads_string: "valid_utf8 s \<Longrightarrow> reads d (enc_string s) (JStr s)"
  using scan_enc_body [of s "[]"] by (simp add: reads_def enc_string_def skip_ws_Cons unquote_enc_body)

lemma scan_value_literal:
  "0 < f \<Longrightarrow> \<not> is_ws c \<Longrightarrow> c \<notin> {CHR ''{'', CHR ''['', CHR 0x22} \<Longrightarrow> scan_value f d (c # cs) = scan_literal (c # cs)"
  by (cases f) (auto simp: skip_ws_Cons)

lemma reads_int: "reads d (show_int n) (JNum (show_int n))"
proof -
  obtain c cs where c: "show_int n = c # cs" and d: "c = CHR ''-'' \<or> is_digit c"
    using show_nat_head by (cases n rule: show_int_cases) auto
  have w: "\<not> is_ws c" "c \<notin> {CHR ''{'', CHR ''['', CHR 0x22}" "c \<notin> {CHR ''n'', CHR ''t'', CHR ''f''}"
    using d by (auto simp: is_ws_def is_digit_def byte_def)
  then have "scan_literal (show_int n) = Some (JNum (show_int n), [])"
    using scan_number_show_int [of n] c by (auto simp: scan_literal_def has_prefix_iff)
  then show ?thesis using w unfolding c by (simp add: reads_def scan_value_literal del: scan_value.simps)
qed

lemma reads_literal:
  "reads d ''null'' JNull" "reads d ''true'' (JBool True)" "reads d ''false'' (JBool False)"
  by (simp_all add: reads_def is_ws_def byte_def scan_value_literal scan_literal_def has_prefix_def)

lemma reads_empty_array: "0 < d \<Longrightarrow> reads d ''[]'' (JArr [])"
proof -
  have "0 < f \<Longrightarrow> 0 < d \<Longrightarrow> scan_value f d ''[]'' = Some (JArr [], [])" for f by (cases f) (simp_all add: skip_ws_Cons)
  then show "0 < d \<Longrightarrow> ?thesis" by (simp add: reads_def)
qed

type_synonym members = "(string \<times> string \<times> json) list"

definition members_read :: "nat \<Rightarrow> members \<Rightarrow> bool" where
  "members_read d ms \<longleftrightarrow> (\<forall>(k, t, j) \<in> set ms. valid_utf8 k \<and> reads d t j)"

text \<open>The members of an object as they are written: the body of the name, and the text and the value of the member.\<close>

definition entry_text :: "string \<times> string \<times> json \<Rightarrow> string" where
  "entry_text e = (case e of (b, t, j) \<Rightarrow> CHR 0x22 # b @ CHR 0x22 # CHR '':'' # t)"

definition entry_member :: "string \<times> string \<times> json \<Rightarrow> string \<times> string \<times> json" where
  "entry_member e = (case e of (b, t, j) \<Rightarrow> (unquote b, t, j))"

definition entries_read :: "nat \<Rightarrow> (string \<times> string \<times> json) list \<Rightarrow> bool" where
  "entries_read d es \<longleftrightarrow> (\<forall>(b, t, j) \<in> set es. body_ok b \<and> reads d t j)"

lemma scan_entries:
  "es \<noteq> [] \<Longrightarrow> entries_read d es \<Longrightarrow> 2 * length (str_join '','' (map entry_text es)) + 2 \<le> f \<Longrightarrow>
   scan_members f d (str_join '','' (map entry_text es) @ CHR ''}'' # r) = Some (map entry_member es, r)"
proof (induction es arbitrary: f)
  case (Cons e es)
  obtain b t j where e: "e = (b, t, j)" by (cases e)
  have b: "body_ok b" and t: "reads d t j" using Cons.prems(2) by (auto simp: e entries_read_def)
  define tail where "tail = (case es of [] \<Rightarrow> CHR ''}'' # r | _ \<Rightarrow> CHR '','' # str_join '','' (map entry_text es) @ CHR ''}'' # r)"
  have shape: "str_join '','' (map entry_text (e # es)) @ CHR ''}'' # r = CHR 0x22 # b @ CHR 0x22 # CHR '':'' # t @ tail"
    by (cases es) (simp_all add: e entry_text_def tail_def)
  have len: "2 * length t + 2 \<le> f" "es \<noteq> [] \<Longrightarrow> 2 * length (str_join '','' (map entry_text es)) + 3 \<le> f"
  proof -
    have "length (str_join '','' (map entry_text (e # es))) = length (entry_text e) +
        (if es = [] then 0 else 1 + length (str_join '','' (map entry_text es)))"
      by (cases es) simp_all
    moreover have "length (entry_text e) = length b + length t + 3" by (simp add: e entry_text_def)
    ultimately show "2 * length t + 2 \<le> f" "es \<noteq> [] \<Longrightarrow> 2 * length (str_join '','' (map entry_text es)) + 3 \<le> f"
      using Cons.prems(3) by simp_all
  qed
  from len(1) obtain f' where f: "f = Suc f'" by (cases f) simp_all
  have v: "scan_value f' d (t @ tail) = Some (j, tail)"
    using len f by (intro reads_value [OF t]) (auto simp: stops_def tail_def split: list.split)
  have "skip_ws (t @ tail) = t @ tail" using t by (cases t) (auto simp: reads_def skip_ws_Cons)
  moreover have "scan_members f' d (str_join '','' (map entry_text es) @ CHR ''}'' # r) = Some (map entry_member es, r)" if "es \<noteq> []"
    using that Cons.IH [of f'] Cons.prems(2) len(2) f by (auto simp: entries_read_def)
  ultimately show ?case
    using body_ok_scan [OF b, of "CHR '':'' # t @ tail"] v unfolding shape f
    by (cases es) (simp_all add: skip_ws_Cons e entry_member_def tail_def Let_def)
qed simp

lemma reads_entries:
  assumes "entries_read d es"
  shows "reads (Suc d) (CHR ''{'' # str_join '','' (map entry_text es) @ ''}'') (JObj (map entry_member es))"
proof (cases es)
  case Nil
  have "0 < f \<Longrightarrow> scan_value f (Suc d) ''{}'' = Some (JObj [], [])" for f by (cases f) (simp_all add: skip_ws_Cons)
  then show ?thesis by (simp add: reads_def Nil)
next
  case (Cons e es')
  define t where "t = str_join '','' (map entry_text es)"
  have "\<exists>x. t = CHR 0x22 # x"
    unfolding t_def Cons by (cases es'; cases e) (simp_all add: entry_text_def)
  then have "take 1 (skip_ws (t @ ''}'')) = [CHR 0x22]" by (auto simp: skip_ws_Cons)
  then show ?thesis
    using scan_entries [OF _ assms, of "Suc (Suc (Suc (Suc (2 * length t))))" "[]"] Cons
    unfolding t_def [symmetric] by (simp add: reads_def skip_ws_Cons del: scan_members.simps)
qed

text \<open>Names that are written by the program have bodies of their own.\<close>

lemma body_ok_enc: "body_ok (enc_body s)"
  using scan_enc_body [of s "[]"] by (simp add: body_ok_def)

lemma reads_object:
  assumes "members_read d ms"
  shows "reads (Suc d) (enc_object (map (\<lambda>(k, t, j). enc_member k t) ms)) (JObj ms)"
proof -
  define es where "es = map (\<lambda>(k, t, j). (enc_body k, t, j)) ms"
  have "map entry_text es = map (\<lambda>(k, t, j). enc_member k t) ms"
    by (auto simp: es_def entry_text_def enc_member_def enc_string_def)
  moreover have "map entry_member es = ms"
    using assms by (auto simp: es_def entry_member_def members_read_def unquote_enc_body intro!: map_idI)
  moreover have "entries_read d es"
    using assms by (auto simp: es_def entries_read_def members_read_def body_ok_enc)
  ultimately show ?thesis using reads_entries [of d es] by (simp add: enc_object_def)
qed

lemma scan_elems_read:
  "ts \<noteq> [] \<Longrightarrow> list_all2 (reads d) ts js \<Longrightarrow> 2 * length (str_join '','' ts) + 2 \<le> f \<Longrightarrow>
   scan_elems f d (str_join '','' ts @ CHR '']'' # r) = Some (js, r)"
proof (induction ts arbitrary: js f)
  case (Cons t ts)
  obtain j js' where js: "js = j # js'" and t: "reads d t j" and rest: "list_all2 (reads d) ts js'"
    using Cons.prems(2) by (auto simp: list_all2_Cons1)
  define tail where "tail = (case ts of [] \<Rightarrow> CHR '']'' # r | _ \<Rightarrow> CHR '','' # str_join '','' ts @ CHR '']'' # r)"
  have shape: "str_join '','' (t # ts) @ CHR '']'' # r = t @ tail"
    by (cases ts) (simp_all add: tail_def)
  have len: "2 * length t + 2 \<le> f" "ts \<noteq> [] \<Longrightarrow> 2 * length (str_join '','' ts) + 3 \<le> f"
    using Cons.prems(3) by (cases ts; simp)+
  then obtain f' where f: "f = Suc f'" by (cases f) auto
  have v: "scan_value f' d (t @ tail) = Some (j, tail)"
    using len f by (intro reads_value [OF t]) (auto simp: stops_def tail_def split: list.split)
  moreover have "scan_elems f' d (str_join '','' ts @ CHR '']'' # r) = Some (js', r)" if "ts \<noteq> []"
    using that Cons.IH [of js' f'] rest len(2) f by auto
  ultimately show ?case
    using rest unfolding shape f by (cases ts) (simp_all add: skip_ws_Cons tail_def js)
qed simp

lemma reads_array:
  assumes "list_all2 (reads d) ts js"
  shows "reads (Suc d) (''['' @ str_join '','' ts @ '']'') (JArr js)"
proof (cases ts)
  case Nil
  then show ?thesis using assms reads_empty_array by simp
next
  case (Cons t ts')
  obtain c cs where t: "t = c # cs" "\<not> is_ws c" "c \<noteq> CHR '']''"
  proof -
    obtain j where j: "reads d t j" using assms Cons by (auto simp: list_all2_Cons1)
    have "scan_literal (CHR '']'' # cs) = None" for cs
      by (simp add: scan_literal_def has_prefix_def scan_number_def is_digit_def byte_def)
    then have "hd t \<noteq> CHR '']''" using j by (cases t) (auto simp: reads_def scan_value_literal simp del: scan_value.simps)
    then show thesis using that j by (cases t) (auto simp: reads_def)
  qed
  then have "take 1 (skip_ws (str_join '','' ts @ '']'')) = [c]"
    using Cons by (cases ts') (simp_all add: skip_ws_Cons)
  then show ?thesis
    using scan_elems_read [OF _ assms, of "Suc (Suc (Suc (Suc (2 * length (str_join '','' ts)))))" "[]"] Cons t(3)
    by (simp add: reads_def skip_ws_Cons del: scan_elems.simps str_join.simps)
qed

section \<open>Calls\<close>

text \<open>A float that holds an integer below \<open>2 ^ 53\<close>, other than the negative zero.\<close>

definition int_float :: "f64 \<Rightarrow> bool" where
  "int_float f \<longleftrightarrow>
     f_trunc f < 2 ^ 53 \<and> nearest_f64 (f_neg f) (f_trunc f) 1 = Some f \<and> (f_trunc f = 0 \<longrightarrow> \<not> f_neg f)"

definition id_ok :: "any option \<Rightarrow> bool" where
  "id_ok i \<longleftrightarrow>
     (case i of None \<Rightarrow> True
      | Some a \<Rightarrow> (case a of AStr s \<Rightarrow> valid_utf8 s | ABool b \<Rightarrow> True | AFloat f \<Rightarrow> int_float f | _ \<Rightarrow> False))"

text \<open>Parameters whose compact text nests no deeper than \<open>d\<close>.\<close>

definition params_ok :: "nat \<Rightarrow> bytes \<Rightarrow> bool" where
  "params_ok d p \<longleftrightarrow>
     p = [] \<or> (case compact p of None \<Rightarrow> False
                | Some q \<Rightarrow> q \<noteq> [] \<and> \<not> is_ws (hd q) \<and> map_option snd (scan_value (2 * length q + 1) d q) = Some [])"

definition call_ok :: "nat \<Rightarrow> single_request \<Rightarrow> bool" where
  "call_ok d r \<longleftrightarrow> id_ok (rq_id r) \<and> valid_utf8 (rq_version r) \<and> valid_utf8 (rq_method r) \<and> params_ok d (rq_params r)"

text \<open>The call as it is sent: its parameters without white space.\<close>

definition sent_call :: "single_request \<Rightarrow> single_request" where
  "sent_call r = r\<lparr>rq_params := (case compact (rq_params r) of Some q \<Rightarrow> q | None \<Rightarrow> [])\<rparr>"

lemma enc_int_float:
  assumes "int_float f"
  shows "\<exists>n. enc_f64 f = show_int n \<and> parse_float (show_int n) = Some f"
proof (cases "f_trunc f = 0")
  case True
  then have "f = F64 False 0 0" using assms by (cases f) (simp add: int_float_def nearest_f64_def)
  moreover have "show_nat 0 = ''0''" by code_simp
  ultimately have "enc_f64 f = show_int 0" by (simp add: enc_f64_def show_int_def)
  moreover have "parse_float (show_int 0) = Some f"
    using \<open>f = F64 False 0 0\<close> by (simp add: parse_float_show_int nearest_f64_def)
  ultimately show ?thesis by blast
next
  case False
  define n where "n = (if f_neg f then - int (f_trunc f) else int (f_trunc f))"
  have f: "f_trunc f < 2 ^ 53" "nearest_f64 (f_neg f) (f_trunc f) 1 = Some f" using assms by (simp_all add: int_float_def)
  then have "enc_f64 f = show_int n" using enc_f64_nat [OF f(2) _ f(1)] False by (simp add: n_def show_int_def)
  moreover have "parse_float (show_int n) = Some f"
    using f(2) False by (cases "f_neg f") (simp_all add: parse_float_show_int n_def)
  ultimately show ?thesis by blast
qed

lemma reads_id:
  assumes "id_ok i"
  obtains j where "reads d (enc_id i) j" "if j = JNull then i = None else any_of j = i \<and> i \<noteq> None"
proof -
  have "\<exists>j. reads d (enc_id i) j \<and> (if j = JNull then i = None else any_of j = i \<and> i \<noteq> None)"
  proof (cases i)
    case None
    then show ?thesis using reads_literal by (auto simp: enc_id_def)
  next
    case (Some a)
    show ?thesis
    proof (cases a)
      case (AFloat f)
      then obtain n where "enc_f64 f = show_int n" "parse_float (show_int n) = Some f"
        using enc_int_float assms Some by (auto simp: id_ok_def)
      then show ?thesis using Some AFloat reads_int [of d n]
        by (intro exI [of _ "JNum (show_int n)"]) (simp add: enc_id_def)
    next
      case (AStr s)
      then show ?thesis using Some assms reads_string [of s d]
        by (intro exI [of _ "JStr s"]) (simp add: enc_id_def id_ok_def)
    next
      case (ABool b)
      then show ?thesis using Some reads_literal
        by (intro exI [of _ "JBool b"]) (simp add: enc_id_def)
    qed (use Some assms in \<open>simp_all add: id_ok_def\<close>)
  qed
  then show thesis using that by blast
qed

lemma call_field_names:
  "field_matches ''id'' ''id''" "\<not> field_matches ''id'' ''jsonrpc''" "\<not> field_matches ''id'' ''method''" "\<not> field_matches ''id'' ''params''"
  "field_matches ''jsonrpc'' ''jsonrpc''" "\<not> field_matches ''jsonrpc'' ''method''" "\<not> field_matches ''jsonrpc'' ''params''"
  "field_matches ''method'' ''method''" "\<not> field_matches ''method'' ''params''" "field_matches ''params'' ''params''"
  by code_simp+

lemma plain_utf8: "plain_text s \<Longrightarrow> valid_utf8 s"
proof (induction s)
  case (Cons c s)
  then show ?case using plain_Cons [of c s] by (simp add: utf8_size_def)
qed simp

lemma reads_call:
  assumes "call_ok d r" "marshal_single r = Some t"
  obtains ms where "reads (Suc d) t (JObj ms)" "decode_members ms zero_request = Some (sent_call r)"
    "\<exists>s. t = CHR ''{'' # s @ [CHR ''}'']"
proof -
  obtain j where j: "reads d (enc_id (rq_id r)) j" "if j = JNull then rq_id r = None else any_of j = rq_id r \<and> rq_id r \<noteq> None"
    using assms(1) reads_id by (auto simp: call_ok_def)
  define head where "head = [(''id'', enc_id (rq_id r), j), (''jsonrpc'', enc_string (rq_version r), JStr (rq_version r)),
      (''method'', enc_string (rq_method r), JStr (rq_method r))]"
  have "plain_text ''id''" "plain_text ''jsonrpc''" "plain_text ''method''" "plain_text ''params''" by code_simp+
  note names = this [THEN plain_utf8]
  have head: "members_read d head"
    using assms(1) j(1) names by (simp add: head_def members_read_def call_ok_def reads_string)
  have dec: "decode_members (head @ ms) zero_request =
      decode_members ms (zero_request\<lparr>rq_id := rq_id r, rq_version := rq_version r, rq_method := rq_method r\<rparr>)" for ms
    using j(2) by (auto simp: head_def decode_member_def call_field_names decode_text_def split: if_splits)
  show thesis
  proof (cases "rq_params r = []")
    case True
    have "json_parse [] = None" by code_simp
    then have c: "compact [] = None" by (simp add: compact_def)
    have "t = enc_object (map (\<lambda>(k, t, j). enc_member k t) head)"
      using assms(2) True by (simp add: marshal_single_def raw_member_def head_def)
    moreover have "sent_call r = zero_request\<lparr>rq_id := rq_id r, rq_version := rq_version r, rq_method := rq_method r\<rparr>"
      using True c by (simp add: sent_call_def zero_request_def)
    ultimately show thesis
      using that [of head] reads_object [OF head] dec [of "[]"] by (auto simp: head_def enc_object_def)
  next
    case False
    then obtain q p where q: "compact (rq_params r) = Some q" "reads d q p"
      using assms(1) by (auto simp: call_ok_def params_ok_def reads_def split: option.splits)
    define ms where "ms = head @ [(''params'', q, p)]"
    have "t = enc_object (map (\<lambda>(k, t, j). enc_member k t) ms)"
      using assms(2) False q(1) by (simp add: marshal_single_def raw_member_def head_def ms_def)
    moreover have "members_read d ms" using head q(2) names by (auto simp: members_read_def ms_def)
    moreover have "decode_members ms zero_request = Some (sent_call r)"
      unfolding ms_def dec by (simp add: decode_member_def call_field_names sent_call_def q(1) zero_request_def)
    ultimately show thesis
      using that [of ms] reads_object [of d ms] by (auto simp: ms_def head_def enc_object_def)
  qed
qed

section \<open>Requests\<close>

lemma batch_reads:
  assumes "\<forall>c \<in> set rs. call_ok d c" "marshal_list rs = Some ts"
  shows "\<exists>js. list_all2 (reads (Suc d)) ts js \<and> decode_list js = Some (map sent_call rs)"
  using assms
proof (induction rs arbitrary: ts)
  case Nil
  then show ?case by simp
next
  case (Cons r rs)
  then obtain t ts' where t: "marshal_single r = Some t" "marshal_list rs = Some ts'" "ts = t # ts'"
    by (auto simp: bind_eq_Some_conv)
  obtain js where js: "list_all2 (reads (Suc d)) ts' js" "decode_list js = Some (map sent_call rs)"
    using Cons t(2) by auto
  have r: "call_ok d r" using Cons.prems(1) by simp
  obtain ms where "reads (Suc d) t (JObj ms)" "decode_members ms zero_request = Some (sent_call r)"
    by (rule reads_call [OF r t(1)])
  then show ?case using js t(3) by (intro exI [of _ "JObj ms # js"]) simp
qed

text \<open>
  The node reads the request the client sent.  A request with a batch or a single call, whose
  ids are absent, texts, truth values or integers below \<open>2 ^ 53\<close>, whose texts are valid UTF-8 (they
  may need any escape) and whose parameters nest less deeply than the library allows, is written as
  a text that is decoded to the same calls, in the same order, with the white space of their
  parameters gone.
\<close>

theorem request_round_trip:
  assumes "marshal_request req = Some t" "batch_call req = None \<or> single_call req = None"
    and "\<forall>b. batch_call req = Some b \<longrightarrow> (\<forall>c \<in> set b. call_ok (max_nesting - 2) c)"
    and "\<forall>c. single_call req = Some c \<longrightarrow> call_ok (max_nesting - 1) c"
  shows "unmarshal_request t = Some (req\<lparr>request_type := 0, batch_call := map_option (map sent_call) (batch_call req),
    single_call := map_option sent_call (single_call req)\<rparr>)"
proof -
  have nest: "Suc (max_nesting - 1) = max_nesting" "Suc (Suc (max_nesting - 2)) = max_nesting" by (simp_all add: max_nesting_def)
  show ?thesis
  proof (cases "batch_call req")
    case (Some b)
    then obtain ts where ts: "marshal_list b = Some ts" "t = CHR ''['' # str_join '','' ts @ [CHR '']'']"
      using assms(1) by (auto simp: marshal_request_def)
    obtain js where js: "list_all2 (reads (Suc (max_nesting - 2))) ts js" "decode_list js = Some (map sent_call b)"
      using batch_reads [OF _ ts(1)] assms(3) Some by blast
    have "json_parse t = Some (JArr js)"
      using reads_array [OF js(1)] nest(2) by (intro reads_parse) (simp add: ts(2))
    moreover have "value_text t = t" "trim_space t = t"
      unfolding ts(2) by (simp_all only: value_text_between trim_space_between not_ws insert_iff simp_thms)
    ultimately show ?thesis
      using Some assms(2) js(2) by (simp add: unmarshal_request_def unmarshal_json_def ts(2) zero_rpc_request_def)
  next
    case None
    show ?thesis
    proof (cases "single_call req")
      case (Some c)
      have ok: "call_ok (max_nesting - 1) c" using assms(4) Some by blast
      have "marshal_single c = Some t" using assms(1) None Some by (simp add: marshal_request_def)
      from reads_call [OF ok this] obtain ms s where ms: "reads (Suc (max_nesting - 1)) t (JObj ms)"
        "decode_members ms zero_request = Some (sent_call c)" and t: "t = CHR ''{'' # s @ [CHR ''}'']" by blast
      have "json_parse t = Some (JObj ms)" using ms(1) nest(1) by (intro reads_parse) simp
      moreover have "value_text t = t" "trim_space t = t"
        unfolding t by (simp_all only: value_text_between trim_space_between not_ws insert_iff simp_thms)
      ultimately show ?thesis
        using Some None ms(2) by (simp add: unmarshal_request_def unmarshal_json_def t zero_rpc_request_def)
    next
      assume "single_call req = None"
      moreover have "unmarshal_request ''null'' = Some zero_rpc_request" by code_simp
      ultimately show ?thesis using assms(1) None by (simp add: marshal_request_def zero_rpc_request_def)
    qed
  qed
qed

definition demo_batch_request :: rpc_request where
  "demo_batch_request = zero_rpc_request\<lparr>batch_call := Some
     [\<lparr>rq_id = Some (AFloat (F64 False 4503599627370496 (- 52))), rq_version = ''2.0'', rq_method = ''eth_call'', rq_params = ''[ 1 ]''\<rparr>,
      \<lparr>rq_id = Some (AStr [CHR 0x22, CHR ''<'', CHR 0xC3, CHR 0xA9]), rq_version = ''2.0'', rq_method = ''m'', rq_params = []\<rparr>]\<rparr>"

theorem request_round_trip_witness:
  "\<exists>t. marshal_request demo_batch_request = Some t \<and> unmarshal_request t = Some (demo_batch_request\<lparr>batch_call := Some
     [\<lparr>rq_id = Some (AFloat (F64 False 4503599627370496 (- 52))), rq_version = ''2.0'', rq_method = ''eth_call'', rq_params = ''[1]''\<rparr>,
      \<lparr>rq_id = Some (AStr [CHR 0x22, CHR ''<'', CHR 0xC3, CHR 0xA9]), rq_version = ''2.0'', rq_method = ''m'', rq_params = []\<rparr>]\<rparr>)"
proof -
  let ?f = "F64 False 4503599627370496 (- 52)"
  have one: "nbits 1 = 1" by (simp add: nbits.simps)
  have "f64_exp 1 1 = - 52" using f64_exp_nat [of 1] one by simp
  then have "nearest_f64 False 1 1 = Some ?f" by (simp add: nearest_f64_at round_div_def)
  then have f: "int_float ?f" by (simp add: int_float_def f_trunc_def)
  have c: "compact ''[ 1 ]'' = Some ''[1]''" "compact [] = None" by code_simp+
  have "reads (Suc (max_nesting - 3)) (''['' @ str_join '','' [show_int 1] @ '']'') (JArr [JNum (show_int 1)])"
    by (rule reads_array) (simp add: reads_int)
  moreover have "Suc (max_nesting - 3) = max_nesting - 2" by (simp add: max_nesting_def)
  moreover have "show_int 1 = ''1''" by code_simp
  ultimately have "reads (max_nesting - 2) ''[1]'' (JArr [JNum ''1''])" by simp
  then have p: "params_ok (max_nesting - 2) ''[ 1 ]''" by (simp add: params_ok_def c reads_def del: scan_value.simps)
  have u: "valid_utf8 [CHR 0x22, CHR ''<'', CHR 0xC3, CHR 0xA9]" "valid_utf8 ''2.0''" "valid_utf8 ''eth_call''" "valid_utf8 ''m''"
    by code_simp+
  obtain t where t: "marshal_request demo_batch_request = Some t"
    by (simp add: marshal_request_def demo_batch_request_def marshal_single_def raw_member_def c)
  moreover have "\<forall>c \<in> set (get_batch_call demo_batch_request). call_ok (max_nesting - 2) c"
    using f p u by (simp add: demo_batch_request_def get_batch_call_def call_ok_def id_ok_def) (simp add: params_ok_def)
  ultimately show ?thesis
    using request_round_trip [OF t]
    by (simp add: demo_batch_request_def get_batch_call_def zero_rpc_request_def sent_call_def c)
qed

lemma unmarshal_members:
  assumes "members_read (max_nesting - 1) ms" "decode_members ms zero_request = Some r"
  shows "unmarshal_request (enc_object (map (\<lambda>(k, t, j). enc_member k t) ms)) = Some (zero_rpc_request\<lparr>single_call := Some r\<rparr>)"
proof -
  define t where "t = enc_object (map (\<lambda>(k, t, j). enc_member k t) ms)"
  have "Suc (max_nesting - 1) = max_nesting" by (simp add: max_nesting_def)
  then have "reads max_nesting t (JObj ms)" using reads_object [OF assms(1)] by (simp add: t_def)
  then have "json_parse t = Some (JObj ms)" by (rule reads_parse)
  moreover obtain s where t: "t = CHR ''{'' # s @ [CHR ''}'']" by (simp add: t_def enc_object_def)
  moreover have "value_text t = t" "trim_space t = t"
    unfolding t by (simp_all only: value_text_between trim_space_between not_ws insert_iff simp_thms)
  ultimately show ?thesis using assms(2) unfolding t_def [symmetric] by (simp add: unmarshal_request_def unmarshal_json_def)
qed

text \<open>A call with a number for its id.\<close>

definition call_text :: "int \<Rightarrow> string \<Rightarrow> bytes" where
  "call_text n m =
     enc_object [enc_member ''id'' (show_int n), enc_member ''jsonrpc'' (enc_string ''2.0''), enc_member ''method'' (enc_string m)]"

lemma unmarshal_call_text:
  assumes "valid_utf8 m" "nearest_f64 (n < 0) (nat \<bar>n\<bar>) 1 = Some f"
  shows "unmarshal_request (call_text n m) =
    Some (zero_rpc_request\<lparr>single_call := Some \<lparr>rq_id = Some (AFloat f), rq_version = ''2.0'', rq_method = m, rq_params = []\<rparr>\<rparr>)"
proof -
  let ?ms = "[(''id'', show_int n, JNum (show_int n)), (''jsonrpc'', enc_string ''2.0'', JStr ''2.0''), (''method'', enc_string m, JStr m)]"
  have "plain_text ''id''" "plain_text ''jsonrpc''" "plain_text ''method''" "plain_text ''2.0''" by code_simp+
  note names = this [THEN plain_utf8]
  have "members_read (max_nesting - 1) ?ms"
    using names assms(1) by (simp add: members_read_def reads_int reads_string)
  moreover have "decode_members ?ms zero_request = Some \<lparr>rq_id = Some (AFloat f), rq_version = ''2.0'', rq_method = m, rq_params = []\<rparr>"
    using assms(2) by (simp add: decode_member_def call_field_names decode_text_def zero_request_def parse_float_show_int)
  ultimately show ?thesis using unmarshal_members [of ?ms] by (simp add: call_text_def)
qed

text \<open>
  Ids beyond \<open>2 ^ 53\<close> are confused.  Calls with the ids \<open>2 ^ 53\<close> and \<open>2 ^ 53 + 1\<close> are decoded to the
  same call, so the node cannot tell them apart, and the reply to one of them carries the other's id.
\<close>

theorem large_ids_are_confused:
  assumes "valid_utf8 m"
  shows "unmarshal_request (call_text 9007199254740993 m) = unmarshal_request (call_text 9007199254740992 m) \<and>
    unmarshal_request (call_text 9007199254740993 m) \<noteq> None"
proof -
  have "nbits 9007199254740993 = 54" "nbits 9007199254740992 = 54" by (simp_all add: nbits.simps)
  then have "f64_exp 9007199254740993 1 = 1" "f64_exp 9007199254740992 1 = 1"
    using f64_exp_nat [of 9007199254740993] f64_exp_nat [of 9007199254740992] by simp_all
  then have "nearest_f64 False 9007199254740993 1 = Some (F64 False 4503599627370496 1)"
    "nearest_f64 False 9007199254740992 1 = Some (F64 False 4503599627370496 1)"
    by (simp_all add: nearest_f64_at round_div_def)
  then show ?thesis
    using unmarshal_call_text [OF assms, of 9007199254740993] unmarshal_call_text [OF assms, of 9007199254740992] by simp
qed

theorem large_ids_are_confused_witness:
  "unmarshal_request (call_text 9007199254740993 ''eth_chainId'') = unmarshal_request (call_text 9007199254740992 ''eth_chainId'')"
proof -
  have "valid_utf8 ''eth_chainId''" by code_simp
  then show ?thesis using large_ids_are_confused [of "''eth_chainId''"] by simp
qed

end
