(* ===== verification/Scanned.thy ===== *)
theory Scanned
  imports Literals
begin

text \<open>
  What the scanner has read.  The tokens of a JSON text, and the part of a text that a value, the elements of
  an array or the members of an object take up: that part is scanned in the same way before any other text,
  and with more fuel and more room for nesting.
\<close>

section \<open>Tokens\<close>

abbreviation squeeze :: "string \<Rightarrow> string" where
  "squeeze \<equiv> compact_body False False"

definition json_token_char :: "char \<Rightarrow> bool" where
  "json_token_char c \<longleftrightarrow> \<not> is_ws c \<and> c \<noteq> CHR 0x22 \<and> byte c \<notin> {60, 62, 38} \<and> byte c < 128"

lemma squeeze_token: "\<forall>c \<in> set t. json_token_char c \<Longrightarrow> squeeze (t @ r) = t @ squeeze r"
  by (induction t) (auto simp: json_token_char_def line_sep_low)

lemma squeeze_char: "json_token_char c \<Longrightarrow> squeeze (c # r) = c # squeeze r"
  using squeeze_token [of "[c]" r] by simp

lemma squeeze_skip_ws: "squeeze (skip_ws s) = squeeze s"
proof (induction s)
  case (Cons c s)
  show ?case
  proof (cases "is_ws c")
    case True
    then have "byte c < 128" "byte c \<notin> {60, 62, 38}" by (auto simp: is_ws_def)
    then show ?thesis using True Cons by (simp add: skip_ws_def line_sep_low)
  next
    case False
    then show ?thesis by (simp add: skip_ws_def)
  qed
qed (simp add: skip_ws_def)

lemma squeeze_string: "body_ok b \<Longrightarrow> squeeze (CHR 0x22 # b @ CHR 0x22 # r) = CHR 0x22 # comp_body b @ CHR 0x22 # squeeze r"
proof -
  have "\<not> is_ws (CHR 0x22)" "byte (CHR 0x22) = 34" by code_simp+
  then show "body_ok b \<Longrightarrow> ?thesis" using compact_comp_body by (simp add: line_sep_low)
qed

lemma token_chars: "json_token_char (CHR ''{'')" "json_token_char (CHR ''}'')" "json_token_char (CHR ''['')" "json_token_char (CHR '']'')"
  "json_token_char (CHR '','')" "json_token_char (CHR '':'')"
  by code_simp+

text \<open>A text that does not go on with a number.\<close>

definition ends :: "string \<Rightarrow> bool" where
  "ends r \<longleftrightarrow> r = [] \<or> \<not> is_digit (hd r) \<and> hd r \<noteq> CHR ''.'' \<and> ascii_lower (hd r) \<noteq> 101"

lemma span_digits_prefix: "\<forall>x \<in> set ds. is_digit x \<Longrightarrow> t = [] \<or> \<not> is_digit (hd t) \<Longrightarrow> span_digits (ds @ t) = (ds, t)"
  by (cases t) (simp_all add: span_digits_def takeWhile_append2 dropWhile_append2)

lemma span_digits_split: "span_digits s = (ds, r) \<Longrightarrow> s = ds @ r \<and> (\<forall>x \<in> set ds. is_digit x)"
  by (auto simp: span_digits_def dest: set_takeWhileD)

definition number_char :: "char \<Rightarrow> bool" where
  "number_char c \<longleftrightarrow> is_digit c \<or> c \<in> {CHR ''.'', CHR ''+'', CHR ''-''} \<or> ascii_lower c = 101"

lemma number_char_token: "number_char c \<Longrightarrow> json_token_char c"
  by (auto simp: number_char_def json_token_char_def is_digit_def is_ws_def byte_def ascii_lower_def Let_def split: if_splits)

lemma e_char: "ascii_lower c = 101 \<Longrightarrow> \<not> is_digit c \<and> c \<noteq> CHR ''.'' \<and> number_char c"
  by (auto simp: number_char_def ascii_lower_def is_digit_def byte_def Let_def split: if_splits)

lemma scan_exp_prefix:
  assumes "scan_exp s = Some (x, r)"
  shows "s = x @ r \<and> (\<forall>c \<in> set x. number_char c) \<and> (x = [] \<or> ascii_lower (hd x) = 101) \<and>
    (\<forall>r2. ends r2 \<longrightarrow> scan_exp (x @ r2) = Some (x, r2))"
proof (cases s)
  case Nil
  then show ?thesis using assms by (auto simp: scan_exp_def ends_def split: list.split)
next
  case (Cons c cs)
  show ?thesis
  proof (cases "ascii_lower c = 101")
    case False
    then show ?thesis using assms Cons by (auto simp: scan_exp_def ends_def split: list.split)
  next
    case True
    define sg where "sg = (case cs of x # _ \<Rightarrow> if x = CHR ''+'' \<or> x = CHR ''-'' then [x] else [] | [] \<Rightarrow> [])"
    obtain d ds where d: "span_digits (drop (length sg) cs) = (d # ds, r)" "x = c # sg @ d # ds"
      using assms True Cons by (auto simp: scan_exp_def Let_def sg_def [symmetric] split: prod.splits list.splits)
    note parts = span_digits_split [OF d(1)]
    have sg: "cs = sg @ drop (length sg) cs" "set sg \<subseteq> {CHR ''+'', CHR ''-''}"
      by (auto simp: sg_def split: list.split)
    have "scan_exp (x @ r2) = Some (x, r2)" if "ends r2" for r2
    proof -
      have dig: "is_digit d" using parts by simp
      then have "(case sg @ d # ds @ r2 of x # _ \<Rightarrow> if x = CHR ''+'' \<or> x = CHR ''-'' then [x] else [] | [] \<Rightarrow> []) = sg"
        by (auto simp: sg_def is_digit_def byte_def split: list.split)
      moreover have "span_digits (d # ds @ r2) = (d # ds, r2)"
        using span_digits_prefix [of "d # ds" r2] parts that by (auto simp: ends_def)
      ultimately show ?thesis using True by (simp add: scan_exp_def d(2) Let_def)
    qed
    moreover have "\<forall>y \<in> set x. number_char y"
      using parts sg(2) e_char [OF True] by (auto simp: d(2) number_char_def)
    moreover have "s = x @ r" using parts sg(1) Cons d(2) by simp
    ultimately show ?thesis using True d(2) by simp
  qed
qed

lemma scan_fraction_prefix:
  assumes "scan_fraction s = Some (x, r)"
  shows "s = x @ r \<and> (\<forall>c \<in> set x. number_char c) \<and> (x = [] \<or> hd x = CHR ''.'') \<and>
    (\<forall>r2. r2 = [] \<or> \<not> is_digit (hd r2) \<and> hd r2 \<noteq> CHR ''.'' \<longrightarrow> scan_fraction (x @ r2) = Some (x, r2))"
proof (cases "s = [] \<or> hd s \<noteq> CHR ''.''")
  case True
  then have "x = []" "r = s" using assms by (auto simp: scan_fraction_def split: list.splits if_splits)
  then show ?thesis by (auto simp: scan_fraction_def split: list.split)
next
  case False
  then obtain cs where s: "s = CHR ''.'' # cs" by (cases s) auto
  obtain d ds where d: "span_digits cs = (d # ds, r)" "x = CHR ''.'' # d # ds"
    using assms s by (auto simp: scan_fraction_def split: prod.splits list.splits)
  note parts = span_digits_split [OF d(1)]
  have "span_digits (d # ds @ r2) = (d # ds, r2)" if "r2 = [] \<or> \<not> is_digit (hd r2)" for r2
    using span_digits_prefix [of "d # ds" r2] parts that by auto
  then have "\<forall>r2. r2 = [] \<or> \<not> is_digit (hd r2) \<longrightarrow> scan_fraction (x @ r2) = Some (x, r2)"
    by (simp add: d(2) scan_fraction_def)
  moreover have "s = x @ r" using parts s by (simp add: d(2))
  moreover have "\<forall>c \<in> set x. number_char c" using parts by (simp add: d(2) number_char_def)
  moreover have "hd x = CHR ''.''" by (simp add: d(2))
  ultimately show ?thesis by blast
qed

lemma scan_number_step:
  assumes "(case s of x # _ \<Rightarrow> if x = CHR ''-'' then [x] else [] | [] \<Rightarrow> []) = sg"
    and "drop (length sg) s = d # q" and "is_digit d"
    and "(if d = CHR ''0'' then ([d], q) else span_digits (d # q)) = (ds, r1)"
  shows "scan_number s = (case scan_fraction r1 of None \<Rightarrow> None
    | Some (fr, r2) \<Rightarrow> (case scan_exp r2 of None \<Rightarrow> None | Some (ex, r3) \<Rightarrow> Some (sg @ ds @ fr @ ex, r3)))"
  unfolding scan_number_def assms(1) Let_def assms(2)
  by (simp only: list.case assms(3,4) prod.case not_True_eq_False if_False)

lemma scan_number_prefix:
  assumes "scan_number s = Some (x, r)"
  shows "s = x @ r \<and> (\<forall>c \<in> set x. number_char c) \<and> x \<noteq> [] \<and>
    (\<forall>r2. ends r2 \<longrightarrow> scan_number (x @ r2) = Some (x, r2))"
proof -
  define sg where "sg = (case s of x # _ \<Rightarrow> if x = CHR ''-'' then [x] else [] | [] \<Rightarrow> [])"
  obtain d q where q: "drop (length sg) s = d # q" "is_digit d"
    using assms by (auto simp: scan_number_def sg_def [symmetric] Let_def split: list.splits if_splits)
  obtain ds r1 where ds: "(if d = CHR ''0'' then ([d], q) else span_digits (d # q)) = (ds, r1)"
    by (cases "(if d = CHR ''0'' then ([d], q) else span_digits (d # q))")
  obtain fr r2 ex where f: "scan_fraction r1 = Some (fr, r2)" "scan_exp r2 = Some (ex, r)" "x = sg @ ds @ fr @ ex"
    using assms scan_number_step [OF sg_def [symmetric] q ds] by (auto split: option.splits)
  note fr = scan_fraction_prefix [OF f(1)] and ex = scan_exp_prefix [OF f(2)]
  have digits: "d # q = ds @ r1" "\<forall>x \<in> set ds. is_digit x" "\<exists>e. ds = d # e"
  proof -
    have "d # q = ds @ r1 \<and> (\<forall>x \<in> set ds. is_digit x) \<and> (\<exists>e. ds = d # e)"
    proof (cases "d = CHR ''0''")
      case True
      then show ?thesis using ds q(2) by auto
    next
      case False
      then have "span_digits (d # q) = (ds, r1)" using ds by simp
      moreover from this have "\<exists>e. ds = d # e" using q(2) by (auto simp: span_digits_def)
      ultimately show ?thesis using span_digits_split [of "d # q" ds r1] by blast
    qed
    then show "d # q = ds @ r1" "\<forall>x \<in> set ds. is_digit x" "\<exists>e. ds = d # e" by blast+
  qed
  have sg: "s = sg @ d # q" "set sg \<subseteq> {CHR ''-''}" using q(1) by (auto simp: sg_def split: list.splits if_splits)
  have "scan_number (x @ z) = Some (x, z)" if "ends z" for z
  proof -
    obtain e where e: "ds = d # e" using digits(3) by blast
    have "(case sg @ d # y of x # _ \<Rightarrow> if x = CHR ''-'' then [x] else [] | [] \<Rightarrow> []) = sg" for y
      using q(2) by (auto simp: sg_def is_digit_def byte_def split: list.split)
    moreover have exz: "scan_exp (ex @ z) = Some (ex, z)" using ex that by blast
    moreover have ez: "ex @ z = [] \<or> \<not> is_digit (hd (ex @ z)) \<and> hd (ex @ z) \<noteq> CHR ''.''"
      using ex that e_char [of "hd ex"] by (cases ex) (auto simp: ends_def)
    then have "scan_fraction (fr @ ex @ z) = Some (fr, ex @ z)" using fr by blast
    moreover have "(if d = CHR ''0'' then ([d], e @ fr @ ex @ z) else span_digits (d # e @ fr @ ex @ z)) = (ds, fr @ ex @ z)"
    proof (cases "d = CHR ''0''")
      case True
      then show ?thesis using ds e by auto
    next
      case False
      have "fr @ ex @ z = [] \<or> \<not> is_digit (hd (fr @ ex @ z))"
        using fr ez by (cases fr) (auto simp: is_digit_def byte_def)
      then show ?thesis using span_digits_prefix [of ds "fr @ ex @ z"] digits(2) False by (simp add: e)
    qed
    ultimately show ?thesis using scan_number_step [of "sg @ d # e @ fr @ ex @ z" sg d "e @ fr @ ex @ z" ds] q(2)
      by (simp add: f(3) e)
  qed
  moreover have "\<forall>c \<in> set x. number_char c" using fr ex digits(2) sg(2) by (auto simp: f(3) number_char_def)
  moreover have "s = x @ r" using sg(1) digits(1) fr ex by (simp add: f(3))
  ultimately show ?thesis using digits(3) by (auto simp: f(3))
qed

lemma scan_literal_prefix:
  assumes "scan_literal s = Some (v, r)"
  obtains t where "s = t @ r" "t \<noteq> []" "\<forall>c \<in> set t. json_token_char c" "hd t \<notin> {CHR ''{'', CHR ''[''}"
    "\<And>r2. ends r2 \<Longrightarrow> scan_literal (t @ r2) = Some (v, r2)"
proof -
  note result = that
  have word: thesis if "has_prefix w s" "v = j" "r = drop (length w) s" "w \<noteq> []" "\<forall>c \<in> set w. json_token_char c"
    "hd w \<notin> {CHR ''{'', CHR ''[''}" "\<And>r2. scan_literal (w @ r2) = Some (j, r2)" for w j
  proof (rule result [of w])
    show "s = w @ r" using \<open>has_prefix w s\<close> \<open>r = drop (length w) s\<close> by (auto simp: has_prefix_iff)
  qed (use that in auto)
  consider (null) "has_prefix ''null'' s" | (true) "has_prefix ''true'' s" | (false) "has_prefix ''false'' s"
    | (number) "\<not> has_prefix ''null'' s" "\<not> has_prefix ''true'' s" "\<not> has_prefix ''false'' s" by blast
  then show thesis
  proof cases
    case null
    then show thesis using word [of "''null''" JNull] assms
      by (auto simp: scan_literal_def has_prefix_iff json_token_char_def is_ws_def byte_def)
  next
    case true
    then show thesis using word [of "''true''" "JBool True"] assms
      by (auto simp: scan_literal_def has_prefix_iff json_token_char_def is_ws_def byte_def)
  next
    case false
    then show thesis using word [of "''false''" "JBool False"] assms
      by (auto simp: scan_literal_def has_prefix_iff json_token_char_def is_ws_def byte_def)
  next
    case number
    then obtain y where y: "scan_number s = Some (y, r)" "v = JNum y" using assms by (auto simp: scan_literal_def)
    note num = scan_number_prefix [OF y(1)]
    then obtain c cs where c: "y = c # cs" "number_char c" by (cases y) auto
    then have hd: "c \<notin> {CHR ''{'', CHR ''['', CHR ''n'', CHR ''t'', CHR ''f''}"
      by (auto simp: number_char_def is_digit_def byte_def ascii_lower_def)
    show thesis
    proof (rule result [of y])
      show "scan_literal (y @ r2) = Some (v, r2)" if "ends r2" for r2
        using num that hd by (auto simp: scan_literal_def has_prefix_iff c(1) y(2))
    qed (use num c hd number_char_token in auto)
  qed
qed

section \<open>What was scanned\<close>

lemma skip_ws_split: obtains w where "s = w @ skip_ws s" "\<And>x. skip_ws (w @ x) = skip_ws x" "\<forall>c \<in> set w. is_ws c"
proof -
  have "skip_ws (takeWhile is_ws s @ x) = skip_ws x" for x
    unfolding skip_ws_def by (rule dropWhile_append2) (auto dest: set_takeWhileD)
  then show thesis using that [of "takeWhile is_ws s"] by (auto simp: skip_ws_def dest: set_takeWhileD)
qed

lemma skip_ws_head: "skip_ws s = c # cs \<Longrightarrow> \<not> is_ws c"
  by (simp add: skip_ws_def dropWhile_eq_Cons_conv)

lemma ends_ws: "\<forall>c \<in> set w. is_ws c \<Longrightarrow> c \<in> {CHR '','', CHR '']'', CHR ''}''} \<Longrightarrow> ends (w @ c # r)"
  by (cases w) (auto simp: ends_def is_ws_def is_digit_def byte_def ascii_lower_def)

text \<open>The part of a text that was scanned is scanned in the same way before any other text that ends it.\<close>

lemma scan_prefix:
  "scan_value f depth s = Some (v, r) \<Longrightarrow>
     \<exists>t. s = t @ r \<and> skip_ws t \<noteq> [] \<and> (\<forall>r2. ends r2 \<longrightarrow> scan_value f depth (t @ r2) = Some (v, r2))"
  "scan_elems f depth s = Some (vs, r) \<Longrightarrow>
     \<exists>t. s = t @ r \<and> skip_ws t \<noteq> [] \<and> (\<forall>r2. scan_elems f depth (t @ r2) = Some (vs, r2))"
  "scan_members f depth s = Some (ms, r) \<Longrightarrow>
     \<exists>t. s = t @ r \<and> skip_ws t \<noteq> [] \<and> (\<forall>r2. scan_members f depth (t @ r2) = Some (ms, r2))"
proof (induction f depth s and f depth s and f depth s arbitrary: v r and vs r and ms r
    rule: scan_value_scan_elems_scan_members.induct)
  case (2 f depth s)
  then obtain c cs where s: "skip_ws s = c # cs" by (auto split: list.splits)
  obtain w where w: "s = w @ c # cs" "\<And>x. skip_ws (w @ x) = skip_ws x" using skip_ws_split [of s] s by metis
  have c: "\<not> is_ws c" using skip_ws_head [OF s] .
  have result: ?case if "cs = t @ r" "\<And>r2. ends r2 \<Longrightarrow> scan_value (Suc f) depth (c # t @ r2) = Some (v, r2)" for t
  proof (intro exI [of _ "w @ c # t"] conjI allI impI)
    show "skip_ws (w @ c # t) \<noteq> []" using c by (simp add: w(2) skip_ws_Cons)
    show "scan_value (Suc f) depth ((w @ c # t) @ r2) = Some (v, r2)" if "ends r2" for r2
      using \<open>ends r2 \<Longrightarrow> _\<close> that by (simp add: w(2))
  qed (use that w in simp)
  have skip: "take 1 (skip_ws (t @ x)) = take 1 (skip_ws t)" if "skip_ws t \<noteq> []" for t x
    using that skip_ws_append [of t x] by (cases "skip_ws t") simp_all
  consider (object) "c = CHR ''{''" | (array) "c = CHR ''[''" | (string) "c = CHR 0x22"
    | (literal) "c \<noteq> CHR ''{''" "c \<noteq> CHR ''[''" "c \<noteq> CHR 0x22" by blast
  then show ?case
  proof cases
    case object
    show ?thesis
    proof (cases "take 1 (skip_ws cs) = ''}''")
      case True
      obtain w' where w': "cs = w' @ skip_ws cs" "\<And>x. skip_ws (w' @ x) = skip_ws x" using skip_ws_split [of cs] by blast
      then have "cs = (w' @ ''}'') @ r" "v = JObj []" "depth \<noteq> 0" using "2.prems" s object True
        by (cases "skip_ws cs"; auto split: if_splits)+
      then show ?thesis using object w' by (intro result [of "w' @ ''}''"]) (simp_all add: skip_ws_Cons)
    next
      case False
      then obtain ms where ms: "scan_members f (depth - 1) cs = Some (ms, r)" "v = JObj ms" "depth \<noteq> 0"
        using "2.prems" s object by (auto split: if_splits)
      from "2.IH"(1) [OF s object ms(3) False ms(1)] obtain t where t: "cs = t @ r" "skip_ws t \<noteq> []"
        "\<And>r2. scan_members f (depth - 1) (t @ r2) = Some (ms, r2)" by blast
      show ?thesis
        using object t(3) ms False skip [OF t(2)] by (intro result [OF t(1)]) (simp add: skip_ws_Cons t(1))
    qed
  next
    case array
    show ?thesis
    proof (cases "take 1 (skip_ws cs) = '']''")
      case True
      obtain w' where w': "cs = w' @ skip_ws cs" "\<And>x. skip_ws (w' @ x) = skip_ws x" using skip_ws_split [of cs] by blast
      then have "cs = (w' @ '']'') @ r" "v = JArr []" "depth \<noteq> 0" using "2.prems" s array True
        by (cases "skip_ws cs"; auto split: if_splits)+
      then show ?thesis using array w' by (intro result [of "w' @ '']''"]) (simp_all add: skip_ws_Cons)
    next
      case False
      then obtain vs where vs: "scan_elems f (depth - 1) cs = Some (vs, r)" "v = JArr vs" "depth \<noteq> 0"
        using "2.prems" s array by (auto split: if_splits)
      have "c \<noteq> CHR ''{''" using array by simp
      from "2.IH"(2) [OF s this array vs(3) False vs(1)] obtain t where t: "cs = t @ r" "skip_ws t \<noteq> []"
        "\<And>r2. scan_elems f (depth - 1) (t @ r2) = Some (vs, r2)" by blast
      show ?thesis
        using array t(3) vs False skip [OF t(2)] by (intro result [OF t(1)]) (simp add: skip_ws_Cons t(1))
    qed
  next
    case string
    then obtain b where b: "scan_string cs = Some (b, r)" "v = JStr (unquote b)" using "2.prems" s by auto
    note body = scan_string_body [OF b(1)]
    show ?thesis
      using body body_ok_scan b(2) string by (intro result [of "b @ [CHR 0x22]"]) (simp_all add: skip_ws_Cons)
  next
    case literal
    then have "scan_literal (c # cs) = Some (v, r)" using "2.prems" s by simp
    from scan_literal_prefix [OF this] obtain t where t: "c # cs = t @ r" "t \<noteq> []"
      "\<And>r2. ends r2 \<Longrightarrow> scan_literal (t @ r2) = Some (v, r2)" by metis
    then obtain t' where "t = c # t'" by (cases t) auto
    then show ?thesis using t literal c by (intro result [of t']) (simp_all add: skip_ws_Cons)
  qed
next
  case (4 f depth s)
  then obtain v' r' c q where v: "scan_value f depth s = Some (v', r')" "skip_ws r' = c # q"
    by (auto split: option.splits list.splits)
  obtain t where t: "s = t @ r'" "skip_ws t \<noteq> []" "\<And>r2. ends r2 \<Longrightarrow> scan_value f depth (t @ r2) = Some (v', r2)"
    using "4.IH"(1) [OF v(1)] by blast
  obtain w where w: "r' = w @ c # q" "\<And>x. skip_ws (w @ x) = skip_ws x" "\<forall>c \<in> set w. is_ws c"
    using skip_ws_split [of r'] v(2) by metis
  have c: "\<not> is_ws c" using skip_ws_head [OF v(2)] .
  have "c = CHR '','' \<or> c = CHR '']''" using "4.prems" v by (auto split: if_splits)
  then have step: "scan_value f depth ((t @ w @ c # x) @ r2) = Some (v', w @ c # x @ r2)" "skip_ws (w @ c # x @ r2) = c # x @ r2" for x r2
    using t(3) [OF ends_ws [OF w(3), of c "x @ r2"]] c by (auto simp: w(2) skip_ws_Cons)
  have blank: "skip_ws (t @ x) \<noteq> []" for x using t(2) skip_ws_append by simp
  show ?case
  proof (cases "c = CHR '',''")
    case True
    then obtain vs' where vs: "scan_elems f depth q = Some (vs', r)" "vs = v' # vs'" using "4.prems" v by auto
    obtain t' where t': "q = t' @ r" "\<And>r2. scan_elems f depth (t' @ r2) = Some (vs', r2)"
      using "4.IH"(2) [OF v(1) _ v(2) True vs(1)] by auto
    show ?thesis
      using step [of t'] True t' vs blank by (intro exI [of _ "t @ w @ c # t'"]) (simp add: t(1) w(1))
  next
    case False
    then have "c = CHR '']''" "q = r" "vs = [v']" using "4.prems" v by (auto split: if_splits)
    then show ?thesis using step [of "[]"] blank by (intro exI [of _ "t @ w @ [c]"]) (simp add: t(1) w(1))
  qed
next
  case (6 f depth s)
  obtain q s1 k s2 col s3 v' r' c r'' where p:
    "skip_ws s = q # s1" "q = CHR 0x22" "scan_string s1 = Some (k, s2)" "skip_ws s2 = col # s3" "col = CHR '':''"
    "scan_value f depth s3 = Some (v', r')" "skip_ws r' = c # r''"
    using "6.prems" by (auto simp: Let_def split: list.splits option.splits if_splits)
  obtain t where t: "s3 = t @ r'" "skip_ws t \<noteq> []" "\<And>r2. ends r2 \<Longrightarrow> scan_value f depth (t @ r2) = Some (v', r2)"
    using "6.IH"(1) [OF p(1) _ p(3) refl p(4) _ p(6)] p(2,5) by blast
  obtain w where w: "s = w @ q # s1" "\<And>x. skip_ws (w @ x) = skip_ws x" using skip_ws_split [of s] p(1) by metis
  obtain w2 where w2: "s2 = w2 @ col # s3" "\<And>x. skip_ws (w2 @ x) = skip_ws x" using skip_ws_split [of s2] p(4) by metis
  obtain w3 where w3: "r' = w3 @ c # r''" "\<And>x. skip_ws (w3 @ x) = skip_ws x" "\<forall>c \<in> set w3. is_ws c"
    using skip_ws_split [of r'] p(7) by metis
  note heads = skip_ws_head [OF p(1)] skip_ws_head [OF p(4)] skip_ws_head [OF p(7)]
  have k: "s1 = k @ CHR 0x22 # s2" "body_ok k" using scan_string_body [OF p(3)] by auto
  define m where "m = (unquote k, skip_ws t, v')"
  have m: "(unquote k, take (length (skip_ws (t @ x)) - length x) (skip_ws (t @ x)), v') = m" for x
    using skip_ws_append [OF t(2), of x] by (simp add: m_def)
  have "c = CHR '','' \<or> c = CHR ''}''" using "6.prems" p by (auto simp: Let_def split: if_splits)
  then have step: "scan_members (Suc f) depth (w @ q # k @ CHR 0x22 # w2 @ col # t @ w3 @ c # x @ r2) =
      (if c = CHR '','' then map_option (\<lambda>(ms, z). (m # ms, z)) (scan_members f depth (x @ r2)) else Some ([m], x @ r2))" for x r2
    using t(3) [OF ends_ws [OF w3(3), of c "x @ r2"]] heads body_ok_scan [OF k(2)] m [of "w3 @ c # x @ r2"] p(2,5)
    by (auto simp: w(2) w2(2) w3(2) skip_ws_Cons Let_def)
  have shape: "s = (w @ q # k @ CHR 0x22 # w2 @ col # t @ w3 @ [c]) @ r''" by (simp add: w(1) k(1) w2(1) t(1) w3(1))
  have blank: "skip_ws (w @ q # x) \<noteq> []" for x using heads(1) by (simp add: w(2) skip_ws_Cons)
  show ?case
  proof (cases "c = CHR '',''")
    case True
    have all: "scan_members (Suc f) depth s = map_option (\<lambda>(ms, z). (m # ms, z)) (scan_members f depth r'')"
      using step [of r'' "[]"] True unfolding shape by simp
    then obtain ms' where ms: "scan_members f depth r'' = Some (ms', r)" "ms = m # ms'" using "6.prems" by auto
    obtain t' where t': "r'' = t' @ r" "\<And>r2. scan_members f depth (t' @ r2) = Some (ms', r2)"
      using "6.IH"(2) [OF p(1) _ p(3) refl p(4) _ p(6) refl refl p(7) True ms(1)] p(2,5) by auto
    show ?thesis
      using step [of t'] True t' ms(2) blank
      by (intro exI [of _ "w @ q # k @ CHR 0x22 # w2 @ col # t @ w3 @ c # t'"]) (simp add: shape)
  next
    case False
    then have "r = r''" "ms = [m]" using step [of r'' "[]"] "6.prems" unfolding shape by auto
    then show ?thesis using step [of "[]"] False blank
      by (intro exI [of _ "w @ q # k @ CHR 0x22 # w2 @ col # t @ w3 @ [c]"]) (simp add: shape)
  qed
qed simp_all

text \<open>More fuel and more room for nesting change nothing that was scanned.\<close>

lemma scan_more:
  "scan_value f depth s = Some x \<Longrightarrow> f \<le> f' \<Longrightarrow> depth \<le> d' \<Longrightarrow> scan_value f' d' s = Some x"
  "scan_elems f depth s = Some y \<Longrightarrow> f \<le> f' \<Longrightarrow> depth \<le> d' \<Longrightarrow> scan_elems f' d' s = Some y"
  "scan_members f depth s = Some z \<Longrightarrow> f \<le> f' \<Longrightarrow> depth \<le> d' \<Longrightarrow> scan_members f' d' s = Some z"
proof (induction f depth s and f depth s and f depth s arbitrary: x f' d' and y f' d' and z f' d'
    rule: scan_value_scan_elems_scan_members.induct)
  case (2 f depth s)
  obtain g where g: "f' = Suc g" "f \<le> g" using "2.prems"(2) by (cases f') auto
  obtain c cs where s: "skip_ws s = c # cs" using "2.prems" by (auto split: list.splits)
  have d: "depth - 1 \<le> d' - 1" using "2.prems"(3) by simp
  consider (object) "c = CHR ''{''" | (array) "c = CHR ''[''" "c \<noteq> CHR ''{''" | (other) "c \<noteq> CHR ''{''" "c \<noteq> CHR ''[''" by blast
  then show ?case
  proof cases
    case object
    then have "depth \<noteq> 0" "d' \<noteq> 0" using "2.prems" s by (auto split: if_splits)
    then show ?thesis
      using "2.prems"(1) "2.IH"(1) [OF s object _ _ _ g(2) d] s object g(1) by (auto split: if_splits)
  next
    case array
    then have "depth \<noteq> 0" "d' \<noteq> 0" using "2.prems" s by (auto split: if_splits)
    then show ?thesis
      using "2.prems"(1) "2.IH"(2) [OF s array(2,1) _ _ _ g(2) d] s array g(1) by (auto split: if_splits)
  next
    case other
    then show ?thesis using "2.prems"(1) s g(1) by (auto split: if_splits)
  qed
next
  case (4 f depth s)
  obtain g where g: "f' = Suc g" "f \<le> g" using "4.prems"(2) by (cases f') auto
  obtain v r c q where v: "scan_value f depth s = Some (v, r)" "skip_ws r = c # q"
    using "4.prems" by (auto split: option.splits list.splits)
  have "scan_value g d' s = Some (v, r)" using "4.IH"(1) [OF v(1) g(2) "4.prems"(3)] .
  then show ?case using "4.prems" v "4.IH"(2) [OF v(1) refl v(2), of _ g d'] g by (auto split: if_splits)
next
  case (6 f depth s)
  obtain g where g: "f' = Suc g" "f \<le> g" using "6.prems"(2) by (cases f') auto
  obtain q s1 k s2 col s3 v r c q' where p:
    "skip_ws s = q # s1" "q = CHR 0x22" "scan_string s1 = Some (k, s2)" "skip_ws s2 = col # s3" "col = CHR '':''"
    "scan_value f depth s3 = Some (v, r)" "skip_ws r = c # q'"
    using "6.prems"(1) by (auto simp: Let_def split: list.splits option.splits if_splits)
  have "scan_value g d' s3 = Some (v, r)" using "6.IH"(1) [OF p(1) _ p(3) refl p(4) _ p(6) g(2) "6.prems"(3)] p(2,5) by simp
  moreover have "scan_members g d' q' = Some z" if "scan_members f depth q' = Some z" "c = CHR '',''" for z
    using "6.IH"(2) [OF p(1) _ p(3) refl p(4) _ p(6) refl refl p(7) that(2,1) g(2) "6.prems"(3)] p(2,5) by simp
  ultimately show ?case using "6.prems" p g by (auto simp: Let_def split: if_splits)
qed simp_all

end
