(* ===== verification/Compact.thy ===== *)
theory Compact
  imports RoundTrip Scanned
begin

text \<open>
  Compacting a JSON text keeps its value.  \<^verbatim>\<open>encoding/json\<close> writes a raw message without white space and with
  some characters of its strings escaped; what is written is read as the same value.  So a request that was
  decoded is always sent on, and the node reads the same calls as the program.
\<close>

section \<open>Values and the texts of their parts\<close>

text \<open>A value without the raw texts of the members of its objects.\<close>

primrec forget :: "json \<Rightarrow> json" where
  "forget JNull = JNull"
| "forget (JBool b) = JBool b"
| "forget (JNum t) = JNum t"
| "forget (JStr s) = JStr s"
| "forget (JArr js) = JArr (map forget js)"
| "forget (JObj ms) = JObj (map (map_prod id (map_prod (\<lambda>_. []) forget)) ms)"

lemma any_of_forget:
  "any_of (forget j) = any_of j"
  "any_list (map forget js) = any_list js"
  "any_members (map (map_prod id (map_prod (\<lambda>_. []) forget)) ms) acc = any_members ms acc"
  by (induction j and js and ms acc rule: any_of_any_list_any_members.induct) (simp_all add: id_def split: option.split)

lemma scan_value_reads:
  assumes "scan_value f d s = Some (v, r)"
  obtains t where "s = t @ r" "skip_ws s = skip_ws t @ r" "reads d (skip_ws t) v"
proof -
  obtain t where t: "s = t @ r" "skip_ws t \<noteq> []" "\<And>r2. ends r2 \<Longrightarrow> scan_value f d (t @ r2) = Some (v, r2)"
    using scan_prefix(1) [OF assms] by blast
  obtain c cs where c: "skip_ws t = c # cs" using t(2) by (cases "skip_ws t") auto
  have "scan_value f d (skip_ws t) = Some (v, [])" using t(3) [of "[]"] by (simp add: scan_value_skip_ws ends_def)
  then have "scan_value (f + (2 * length (skip_ws t) + 1)) d (skip_ws t) = Some (v, [])" by (rule scan_more) simp_all
  then have "scan_value (2 * length (skip_ws t) + 1) d (skip_ws t) = Some (v, [])"
    using scan_value_enough_fuel [of "skip_ws t" "2 * length (skip_ws t) + 1" f d] by (simp add: add.commute)
  then have "reads d (skip_ws t) v" using c skip_ws_head [OF c] by (simp add: reads_def)
  moreover have "skip_ws s = skip_ws t @ r" using skip_ws_append [OF t(2)] t(1) by simp
  ultimately show thesis using that t(1) by blast
qed

lemma reads_deeper: "reads d t v \<Longrightarrow> d \<le> d' \<Longrightarrow> reads d' t v"
  using scan_more(1) [of "2 * length t + 1" d t "(v, [])" "2 * length t + 1" d'] by (simp add: reads_def)

section \<open>A compacted text has the same value\<close>

lemma squeeze_after: "skip_ws s = c # cs \<Longrightarrow> json_token_char c \<Longrightarrow> squeeze s = c # squeeze cs"
  using squeeze_skip_ws [of s] by (simp only: squeeze_char)

lemma reads_body: "body_ok b \<Longrightarrow> reads d (CHR 0x22 # b @ [CHR 0x22]) (JStr (unquote b))"
  using body_ok_scan [of b "[]"] by (simp add: reads_def skip_ws_Cons)

lemma reads_token:
  assumes "t \<noteq> []" "\<forall>c \<in> set t. json_token_char c" "hd t \<notin> {CHR ''{'', CHR ''[''}" "scan_literal t = Some (v, [])"
  shows "reads d t v"
proof -
  obtain c cs where t: "t = c # cs" using assms(1) by (cases t) auto
  then have "\<not> is_ws c" "c \<notin> {CHR ''{'', CHR ''['', CHR 0x22}" using assms(2,3) by (auto simp: json_token_char_def)
  then show ?thesis using assms(4) unfolding t by (simp add: reads_def scan_value_literal del: scan_value.simps)
qed

lemma squeeze_value:
  "scan_value f depth s = Some (v, r) \<Longrightarrow>
     \<exists>t v'. squeeze s = t @ squeeze r \<and> reads depth t v' \<and> forget v' = forget v"
  "scan_elems f depth s = Some (vs, r) \<Longrightarrow>
     \<exists>ts vs'. squeeze s = str_join '','' ts @ CHR '']'' # squeeze r \<and> ts \<noteq> [] \<and> list_all2 (reads depth) ts vs' \<and>
       map forget vs' = map forget vs"
  "scan_members f depth s = Some (ms, r) \<Longrightarrow>
     \<exists>es. squeeze s = str_join '','' (map entry_text es) @ CHR ''}'' # squeeze r \<and> es \<noteq> [] \<and> entries_read depth es \<and>
       forget (JObj (map entry_member es)) = forget (JObj ms)"
proof (induction f depth s and f depth s and f depth s arbitrary: v r and vs r and ms r
    rule: scan_value_scan_elems_scan_members.induct)
  case (2 f depth s)
  then obtain c cs where s: "skip_ws s = c # cs" by (auto split: list.splits)
  note sq = squeeze_after [OF s]
  consider (object) "c = CHR ''{''" | (array) "c = CHR ''[''" "c \<noteq> CHR ''{''" | (string) "c = CHR 0x22"
    | (literal) "c \<noteq> CHR ''{''" "c \<noteq> CHR ''[''" "c \<noteq> CHR 0x22" by blast
  then show ?case
  proof cases
    case object
    then obtain d where d: "depth = Suc d" using "2.prems" s by (cases depth) auto
    show ?thesis
    proof (cases "take 1 (skip_ws cs) = ''}''")
      case True
      then obtain q where q: "skip_ws cs = CHR ''}'' # q" by (cases "skip_ws cs") auto
      then have "r = q" "v = JObj []" using "2.prems" s object d by simp_all
      then show ?thesis
        using sq squeeze_after [OF q] token_chars reads_entries [of d "[]"] object d
        by (intro exI [of _ "''{}''"] exI [of _ "JObj []"]) (simp add: entries_read_def)
    next
      case False
      then obtain ms where ms: "scan_members f (depth - 1) cs = Some (ms, r)" "v = JObj ms"
        using "2.prems" s object d by auto
      have "depth \<noteq> 0" using d by simp
      from "2.IH"(1) [OF s object this False ms(1)] obtain es where es:
        "squeeze cs = str_join '','' (map entry_text es) @ CHR ''}'' # squeeze r" "entries_read d es"
        "forget (JObj (map entry_member es)) = forget v" using d ms(2) by auto
      then show ?thesis
        using sq token_chars reads_entries [OF es(2)] object d
        by (intro exI [of _ "CHR ''{'' # str_join '','' (map entry_text es) @ ''}''"] exI [of _ "JObj (map entry_member es)"]) simp
    qed
  next
    case array
    then obtain d where d: "depth = Suc d" using "2.prems" s by (cases depth) auto
    show ?thesis
    proof (cases "take 1 (skip_ws cs) = '']''")
      case True
      then obtain q where q: "skip_ws cs = CHR '']'' # q" by (cases "skip_ws cs") auto
      then have "r = q" "v = JArr []" using "2.prems" s array d by simp_all
      then show ?thesis
        using sq squeeze_after [OF q] token_chars reads_empty_array [of depth] array d
        by (intro exI [of _ "''[]''"] exI [of _ "JArr []"]) simp
    next
      case False
      then obtain vs where vs: "scan_elems f (depth - 1) cs = Some (vs, r)" "v = JArr vs"
        using "2.prems" s array d by auto
      have "depth \<noteq> 0" using d by simp
      from "2.IH"(2) [OF s array(2,1) this False vs(1)] obtain ts vs' where ts:
        "squeeze cs = str_join '','' ts @ CHR '']'' # squeeze r" "list_all2 (reads d) ts vs'" "map forget vs' = map forget vs"
        using d by auto
      then show ?thesis
        using sq token_chars reads_array [OF ts(2)] array d vs(2)
        by (intro exI [of _ "CHR ''['' # str_join '','' ts @ '']''"] exI [of _ "JArr vs'"]) simp
    qed
  next
    case string
    then obtain b where b: "scan_string cs = Some (b, r)" "v = JStr (unquote b)" using "2.prems" s by auto
    note body = scan_string_body [OF b(1)]
    have "squeeze s = CHR 0x22 # comp_body b @ CHR 0x22 # squeeze r"
      using squeeze_skip_ws [of s] squeeze_string [of b r] body by (simp only: s string)
    then show ?thesis
      using reads_body [OF body_ok_comp, of b depth] unquote_comp [of b] body b(2)
      by (intro exI [of _ "CHR 0x22 # comp_body b @ [CHR 0x22]"] exI [of _ v]) simp
  next
    case literal
    then have "scan_literal (c # cs) = Some (v, r)" using "2.prems" s by simp
    from scan_literal_prefix [OF this] obtain t where t: "c # cs = t @ r" "t \<noteq> []" "\<forall>c \<in> set t. json_token_char c"
      "hd t \<notin> {CHR ''{'', CHR ''[''}" "scan_literal (t @ []) = Some (v, [])" by (metis ends_def)
    have "squeeze s = t @ squeeze r" using squeeze_skip_ws [of s] squeeze_token [OF t(3), of r] by (simp only: s t(1))
    moreover have "reads depth t v" using reads_token [OF t(2,3,4)] t(5) by simp
    ultimately show ?thesis by blast
  qed
next
  case (4 f depth s)
  then obtain v r' c q where v: "scan_value f depth s = Some (v, r')" "skip_ws r' = c # q"
    by (auto split: option.splits list.splits)
  obtain t v' where t: "squeeze s = t @ squeeze r'" "reads depth t v'" "forget v' = forget v"
    using "4.IH"(1) [OF v(1)] by blast
  note sq = squeeze_after [OF v(2)]
  show ?case
  proof (cases "c = CHR '',''")
    case True
    then obtain vs' where vs: "scan_elems f depth q = Some (vs', r)" "vs = v # vs'" using "4.prems" v by auto
    obtain ts js where ts: "squeeze q = str_join '','' ts @ CHR '']'' # squeeze r" "ts \<noteq> []" "list_all2 (reads depth) ts js"
      "map forget js = map forget vs'" using "4.IH"(2) [OF v(1) refl v(2) True vs(1)] by auto
    then show ?thesis using t sq token_chars True vs(2)
      by (intro exI [of _ "t # ts"] exI [of _ "v' # js"]) (cases ts, simp_all)
  next
    case False
    then have "c = CHR '']''" "q = r" "vs = [v]" using "4.prems" v by (auto split: if_splits)
    then show ?thesis using t sq token_chars by (intro exI [of _ "[t]"] exI [of _ "[v']"]) simp
  qed
next
  case (6 f depth s)
  obtain q s1 k s2 col s3 v r' c r'' where p:
    "skip_ws s = q # s1" "q = CHR 0x22" "scan_string s1 = Some (k, s2)" "skip_ws s2 = col # s3" "col = CHR '':''"
    "scan_value f depth s3 = Some (v, r')" "skip_ws r' = c # r''"
    using "6.prems" by (auto simp: Let_def split: list.splits option.splits if_splits)
  obtain t v' where t: "squeeze s3 = t @ squeeze r'" "reads depth t v'" "forget v' = forget v"
    using "6.IH"(1) [OF p(1) _ p(3) refl p(4) _ p(6)] p(2,5) by blast
  note k = scan_string_body [OF p(3)]
  define e where "e = (comp_body k, t, v')"
  have "squeeze s = CHR 0x22 # comp_body k @ CHR 0x22 # squeeze s2"
    using squeeze_skip_ws [of s] squeeze_string [of k s2] k by (simp only: p(1,2))
  then have sq: "squeeze s = entry_text e @ squeeze r'"
    using squeeze_after [OF p(4)] token_chars p(5) t(1) by (simp add: entry_text_def e_def)
  have e: "body_ok (comp_body k)" "unquote (comp_body k) = unquote k" using k body_ok_comp unquote_comp by simp_all
  show ?case
  proof (cases "c = CHR '',''")
    case True
    then obtain m ms' where ms: "scan_members f depth r'' = Some (ms', r)" "ms = m # ms'" "fst m = unquote k" "snd (snd m) = v"
      using "6.prems" p by (auto simp: Let_def)
    obtain es where es: "squeeze r'' = str_join '','' (map entry_text es) @ CHR ''}'' # squeeze r" "es \<noteq> []" "entries_read depth es"
      "forget (JObj (map entry_member es)) = forget (JObj ms')"
      using "6.IH"(2) [OF p(1) _ p(3) refl p(4) _ p(6) refl refl p(7) True ms(1)] p(2,5) by auto
    have "squeeze s = str_join '','' (map entry_text (e # es)) @ CHR ''}'' # squeeze r"
      using es(1,2) sq squeeze_after [OF p(7)] token_chars True by (cases es) simp_all
    moreover have "entries_read depth (e # es)" using es(3) e t(2) by (simp add: entries_read_def e_def)
    moreover have "entry_member e = (unquote k, t, v')" using e by (simp add: entry_member_def e_def)
    ultimately show ?thesis
      using es(4) t(3) ms(2,3,4) by (intro exI [of _ "e # es"]) (cases m, simp)
  next
    case False
    then obtain m where "c = CHR ''}''" "r = r''" "ms = [m]" "fst m = unquote k" "snd (snd m) = v"
      using "6.prems" p by (auto simp: Let_def split: if_splits)
    then show ?thesis
      using sq squeeze_after [OF p(7)] token_chars e t(2,3)
      by (intro exI [of _ "[e]"]) (cases m, simp add: e_def entry_member_def entries_read_def)
  qed
qed simp_all

lemma compact_reads:
  assumes "reads d p v" "d \<le> max_nesting"
  shows "\<exists>q v'. compact p = Some q \<and> reads d q v' \<and> forget v' = forget v"
proof -
  have "scan_value (2 * length p + 1) d p = Some (v, [])" using assms(1) by (simp add: reads_def)
  from squeeze_value(1) [OF this] obtain v' where "reads d (squeeze p) v'" "forget v' = forget v" by auto
  moreover have "json_parse p \<noteq> None" using reads_parse [OF reads_deeper [OF assms]] by simp
  ultimately show ?thesis by (auto simp: compact_def)
qed

section \<open>Requests that were decoded\<close>

lemma reads_text: "reads d t (JStr s) \<Longrightarrow> valid_utf8 s"
proof -
  assume "reads d t (JStr s)"
  then obtain c cs where c: "t = c # cs" "\<not> is_ws c" "scan_value (Suc (2 * length t)) d t = Some (JStr s, [])"
    by (cases t) (auto simp: reads_def simp del: scan_value.simps)
  show ?thesis
  proof (cases "c = CHR 0x22")
    case True
    then obtain b where "scan_string cs = Some (b, [])" "s = unquote b" using c by (auto simp: skip_ws_Cons)
    then show ?thesis using scan_string_body unquote_valid by blast
  next
    case False
    then show ?thesis using c by (auto simp: skip_ws_Cons scan_literal_def split: if_splits)
  qed
qed

lemma members_read_Cons: "members_read d ((k, t, j) # ms) \<longleftrightarrow> valid_utf8 k \<and> reads d t j \<and> members_read d ms"
  by (simp add: members_read_def)

lemma members_read_Nil: "members_read d []"
  by (simp add: members_read_def)

lemma scanned_members_read: "scan_members f d s = Some (ms, r) \<Longrightarrow> members_read d ms"
proof (induction f arbitrary: s ms r)
  case (Suc f)
  obtain q s1 k s2 c s3 x r1 where
    "skip_ws s = q # s1" "q = CHR 0x22" and k: "scan_string s1 = Some (k, s2)" and "skip_ws s2 = c # s3" "c = CHR '':''"
    and v: "scan_value f d s3 = Some (x, r1)"
    using Suc.prems by (auto simp: Let_def split: list.splits option.splits if_splits)
  then have ms: "ms = [(unquote k, take (length (skip_ws s3) - length r1) (skip_ws s3), x)] \<or>
      (\<exists>ms' s' r'. ms = (unquote k, take (length (skip_ws s3) - length r1) (skip_ws s3), x) # ms' \<and>
        scan_members f d s' = Some (ms', r'))"
    using Suc.prems by (auto simp: Let_def split: list.splits if_splits)
  obtain t where t: "skip_ws s3 = skip_ws t @ r1" "reads d (skip_ws t) x" using scan_value_reads [OF v] by metis
  then have "valid_utf8 (unquote k)" "reads d (take (length (skip_ws s3) - length r1) (skip_ws s3)) x"
    using scan_string_body [OF k] unquote_valid by simp_all
  then show ?case using ms Suc.IH by (auto simp: members_read_Cons members_read_Nil)
qed simp

lemma scanned_object_read: "scan_value f d s = Some (JObj ms, r) \<Longrightarrow> members_read (d - 1) ms"
  by (cases f) (auto simp: scan_literal_def members_read_Nil simp del: scan_members.simps
      split: list.splits if_splits dest: scanned_members_read)

lemma scanned_elems_read: "scan_elems f d s = Some (js, r) \<Longrightarrow> JObj ms \<in> set js \<Longrightarrow> members_read (d - 1) ms"
proof (induction f arbitrary: s js r)
  case (Suc f)
  obtain v r' c q where v: "scan_value f d s = Some (v, r')" "skip_ws r' = c # q"
    using Suc.prems(1) by (auto split: option.splits list.splits)
  then have "js = [v] \<or> (\<exists>js' q' r'. js = v # js' \<and> scan_elems f d q' = Some (js', r'))"
    using Suc.prems(1) by (auto split: if_splits)
  then show ?case using Suc.IH Suc.prems(2) scanned_object_read v(1) by auto
qed simp

lemma scanned_array_read: "scan_value f d s = Some (JArr js, r) \<Longrightarrow> JObj ms \<in> set js \<Longrightarrow> members_read (d - 2) ms"
proof (cases f)
  case (Suc g)
  assume *: "scan_value f d s = Some (JArr js, r)" "JObj ms \<in> set js"
  then obtain c cs where "skip_ws s = c # cs" by (auto simp: Suc split: list.splits)
  then obtain s' r' where "scan_elems g (d - 1) s' = Some (js, r')"
    using * by (auto simp: Suc scan_literal_def simp del: scan_elems.simps scan_members.simps split: if_splits)
  from scanned_elems_read [OF this *(2)] show ?thesis by (simp add: numeral_2_eq_2)
qed simp

text \<open>What a decoded call is made of.\<close>

definition call_decoded :: "nat \<Rightarrow> single_request \<Rightarrow> bool" where
  "call_decoded d r \<longleftrightarrow> valid_utf8 (rq_version r) \<and> valid_utf8 (rq_method r) \<and>
     (rq_params r = [] \<or> (\<exists>v. reads d (rq_params r) v)) \<and> (\<forall>s. rq_id r = Some (AStr s) \<longrightarrow> valid_utf8 s)"

lemma any_of_text: "any_of j = Some (AStr s) \<Longrightarrow> j = JStr s"
  by (cases j) auto

lemma decode_member_decoded:
  assumes "call_decoded d r" "reads d t j" "decode_member (k, t, j) r = Some r'"
  shows "call_decoded d r'"
proof -
  have str: "valid_utf8 x" if "decode_text j old = Some x" "valid_utf8 old" for x old
    using that reads_text assms(2) by (auto simp: decode_text_def split: json.splits)
  show ?thesis
    using assms reads_text any_of_text str
    by (auto simp: decode_member_def call_decoded_def split: if_splits)
qed

lemma decode_members_decoded:
  "call_decoded d r \<Longrightarrow> members_read d ms \<Longrightarrow> decode_members ms r = Some r' \<Longrightarrow> call_decoded d r'"
proof (induction ms arbitrary: r)
  case (Cons m ms)
  obtain k t j where m: "m = (k, t, j)" by (cases m)
  obtain r1 where r1: "decode_member (k, t, j) r = Some r1" "decode_members ms r1 = Some r'"
    using Cons.prems(3) by (auto simp: m bind_eq_Some_conv)
  have "reads d t j" "members_read d ms" using Cons.prems(2) by (auto simp: m members_read_def)
  then show ?case using Cons.IH r1(2) decode_member_decoded [OF Cons.prems(1) _ r1(1)] by blast
qed simp

lemma zero_decoded: "call_decoded d zero_request"
  by (simp add: call_decoded_def zero_request_def)

lemma decode_list_decoded:
  assumes "\<And>ms. JObj ms \<in> set js \<Longrightarrow> members_read d ms" "decode_list js = Some rs"
  shows "\<forall>r \<in> set rs. call_decoded d r"
  using assms
proof (induction js arbitrary: rs)
  case (Cons j js)
  obtain r rs' where r: "decode_single j = Some r" "decode_list js = Some rs'" "rs = r # rs'"
    using Cons.prems(2) by (auto simp: bind_eq_Some_conv)
  have "call_decoded d r"
    using r(1) Cons.prems(1) decode_members_decoded [OF zero_decoded] by (cases j) (auto simp: zero_decoded)
  then show ?case using Cons.IH [OF _ r(2)] Cons.prems(1) r(3) by simp
qed simp

lemma json_parse_scan: "json_parse s = Some v \<Longrightarrow> \<exists>f r. scan_value f max_nesting s = Some (v, r)"
  by (auto simp: json_parse_def simp del: scan_value.simps split: option.splits prod.splits if_splits)

lemma decode_batch_array: "decode_batch j = Some (Some b) \<Longrightarrow> \<exists>js. j = JArr js \<and> decode_list js = Some b"
  by (cases j) auto

lemma decode_pointer_call: "decode_pointer j = Some (Some c) \<Longrightarrow> decode_single j = Some c"
  by (cases j) auto

lemma unmarshal_request_calls:
  assumes "unmarshal_request raw = Some req"
  shows "batch_call req = Some b \<Longrightarrow> \<forall>c \<in> set b. call_decoded (max_nesting - 2) c"
    and "single_call req = Some c \<Longrightarrow> call_decoded (max_nesting - 1) c"
proof -
  have req: "unmarshal_json (value_text raw) = Some req" using assms by (auto simp: unmarshal_request_def split: if_splits)
  define x where "x = trim_space (value_text raw)"
  {
    assume b: "batch_call req = Some b"
    then obtain js where js: "json_parse x = Some (JArr js)" "decode_list js = Some b"
      using req by (auto simp: unmarshal_json_def Let_def x_def [symmetric] zero_rpc_request_def bind_eq_Some_conv
          split: if_splits dest!: decode_batch_array)
    obtain f r where "scan_value f max_nesting x = Some (JArr js, r)" using json_parse_scan [OF js(1)] by blast
    then show "\<forall>c \<in> set b. call_decoded (max_nesting - 2) c"
      using scanned_array_read by (intro decode_list_decoded [OF _ js(2)]) blast
  next
    assume c: "single_call req = Some c"
    then obtain j where j: "json_parse x = Some j" "decode_single j = Some c"
      using req by (auto simp: unmarshal_json_def Let_def x_def [symmetric] zero_rpc_request_def bind_eq_Some_conv
          split: if_splits dest!: decode_pointer_call)
    show "call_decoded (max_nesting - 1) c"
    proof (cases j)
      case (JObj ms)
      obtain f r where "scan_value f max_nesting x = Some (j, r)" using json_parse_scan [OF j(1)] by blast
      then have "members_read (max_nesting - 1) ms" using scanned_object_read JObj by blast
      then show ?thesis using decode_members_decoded [OF zero_decoded] j(2) JObj by simp
    qed (use j(2) zero_decoded in auto)
  }
qed

text \<open>
  Two calls of the same meaning: the same id, version and method, and parameters of the same value.
\<close>

definition same_call :: "single_request \<Rightarrow> single_request \<Rightarrow> bool" where
  "same_call c c' \<longleftrightarrow> rq_id c' = rq_id c \<and> rq_version c' = rq_version c \<and> rq_method c' = rq_method c \<and>
     (rq_params c' = [] \<longleftrightarrow> rq_params c = []) \<and>
     map_option forget (json_parse (rq_params c')) = map_option forget (json_parse (rq_params c))"

definition same_request :: "rpc_request \<Rightarrow> rpc_request \<Rightarrow> bool" where
  "same_request r r' \<longleftrightarrow> rel_option (list_all2 same_call) (batch_call r) (batch_call r') \<and>
     rel_option same_call (single_call r) (single_call r') \<and> request_type r' = request_type r"

text \<open>An id that is absent, a text, a truth value or an integer below \<open>2 ^ 53\<close>.\<close>

definition common_id :: "any option \<Rightarrow> bool" where
  "common_id i \<longleftrightarrow>
     (case i of None \<Rightarrow> True
      | Some a \<Rightarrow> (case a of AStr s \<Rightarrow> True | ABool b \<Rightarrow> True | AFloat f \<Rightarrow> int_float f | _ \<Rightarrow> False))"

lemma decoded_call_ok:
  assumes "call_decoded d c" "common_id (rq_id c)" "d \<le> max_nesting"
  shows "call_ok d c" "marshal_single c \<noteq> None" "same_call c (sent_call c)"
proof -
  have "json_parse [] = None" by code_simp
  then have c: "compact [] = None" by (simp add: compact_def)
  have i: "id_ok (rq_id c)" using assms(1,2) by (auto simp: call_decoded_def common_id_def id_ok_def split: option.splits any.splits)
  have "params_ok d (rq_params c) \<and> marshal_single c \<noteq> None \<and> same_call c (sent_call c)"
  proof (cases "rq_params c = []")
    case True
    then show ?thesis by (simp add: params_ok_def marshal_single_def raw_member_def same_call_def sent_call_def c)
  next
    case False
    then obtain v where v: "reads d (rq_params c) v" using assms(1) by (auto simp: call_decoded_def)
    obtain q v' where q: "compact (rq_params c) = Some q" "reads d q v'" "forget v' = forget v"
      using compact_reads [OF v assms(3)] by blast
    have "json_parse (rq_params c) = Some v" "json_parse q = Some v'"
      using reads_parse reads_deeper [OF _ assms(3)] v q(2) by blast+
    moreover have "q \<noteq> []" using q(2) by (simp add: reads_def)
    ultimately show ?thesis
      using q False by (simp add: params_ok_def marshal_single_def raw_member_def same_call_def sent_call_def reads_def del: scan_value.simps)
  qed
  then show "call_ok d c" "marshal_single c \<noteq> None" "same_call c (sent_call c)"
    using assms(1) i by (simp_all add: call_ok_def call_decoded_def)
qed

lemma marshal_list_defined: "\<forall>c \<in> set cs. marshal_single c \<noteq> None \<Longrightarrow> marshal_list cs \<noteq> None"
  by (induction cs) auto

lemma decoded_request_sent:
  assumes "unmarshal_request raw = Some req" "\<forall>c \<in> set (calls_of req). common_id (rq_id c)"
  shows "\<exists>t req'. marshal_request req = Some t \<and> unmarshal_request t = Some req' \<and> same_request req req'"
proof -
  have d: "max_nesting - 2 \<le> max_nesting" "max_nesting - 1 \<le> max_nesting" by simp_all
  have dec: "decoded_request req" using unmarshal_request_decoded [OF assms(1)] .
  have b: "call_ok (max_nesting - 2) c \<and> marshal_single c \<noteq> None \<and> same_call c (sent_call c)"
    if "batch_call req = Some b" "c \<in> set b" for b c
  proof -
    have "call_decoded (max_nesting - 2) c" using unmarshal_request_calls(1) [OF assms(1) that(1)] that(2) by blast
    moreover have "common_id (rq_id c)" using assms(2) that by (simp add: calls_of_def)
    ultimately show ?thesis using decoded_call_ok d(1) by blast
  qed
  have s: "call_ok (max_nesting - 1) c \<and> marshal_single c \<noteq> None \<and> same_call c (sent_call c)"
    if "single_call req = Some c" for c
  proof -
    have "batch_call req = None" using dec that by (auto simp: decoded_request_def)
    then have "common_id (rq_id c)" using assms(2) that by (simp add: calls_of_def)
    moreover have "call_decoded (max_nesting - 1) c" using unmarshal_request_calls(2) [OF assms(1) that] .
    ultimately show ?thesis using decoded_call_ok d(2) by blast
  qed
  have "marshal_request req \<noteq> None"
    using b s marshal_list_defined by (auto simp: marshal_request_def split: option.splits)
  then obtain t where t: "marshal_request req = Some t" by blast
  define req' where "req' = req\<lparr>request_type := 0, batch_call := map_option (map sent_call) (batch_call req),
    single_call := map_option sent_call (single_call req)\<rparr>"
  have "unmarshal_request t = Some req'"
    unfolding req'_def using dec b s by (intro request_round_trip [OF t]) (auto simp: decoded_request_def)
  moreover have "same_request req req'"
    using dec b s by (cases "batch_call req"; cases "single_call req")
      (auto simp: same_request_def req'_def decoded_request_def list_all2_conv_all_nth)
  ultimately show ?thesis using t by blast
qed

text \<open>
  C8. Every request that was decoded is sent on as it was.  Whatever text a client sent, with whatever
  escapes, white space and invalid bytes, if it is decoded and its ids are absent, texts, truth values or
  integers below \<open>2 ^ 53\<close>, then it can be written, and what is written is decoded to the same calls in the same order:
  the same ids, versions and methods, and parameters of the same value.
\<close>

theorem decoded_request_is_sent_on:
  assumes "unmarshal_request raw = Some req" "\<forall>c \<in> set (calls_of req). common_id (rq_id c)"
  shows "\<exists>t req'. marshal_request req = Some t \<and> unmarshal_request t = Some req' \<and> same_request req req'"
  using assms by (rule decoded_request_sent)

text \<open>Parameters with white space, a character that is escaped when they are sent, and an escape.\<close>

definition demo_params :: bytes where
  "demo_params = [CHR ''['', CHR '' '', CHR 0x22, CHR ''<'', CHR 0x5C, CHR ''n'', CHR 0x22, CHR '','', CHR '' '', CHR ''1'', CHR '']'']"

definition demo_value :: json where
  "demo_value = JArr [JStr [CHR ''<'', CHR 0x0A], JNum ''1'']"

lemma scan_value_space: "scan_value f d (CHR '' '' # s) = scan_value f d s"
  using scan_value_skip_ws [of f d "CHR '' '' # s"] scan_value_skip_ws [of f d s] by (simp add: skip_ws_Cons is_ws_def byte_def)

lemma demo_params_read: "reads (max_nesting - 1) demo_params demo_value"
proof -
  define d where "d = max_nesting - 2"
  have d: "max_nesting - 1 = Suc d" by (simp add: d_def max_nesting_def)
  let ?t = "[CHR 0x22, CHR ''<'', CHR 0x5C, CHR ''n'', CHR 0x22]"
  have "body_ok [CHR ''<'', CHR 0x5C, CHR ''n'']" "unquote [CHR ''<'', CHR 0x5C, CHR ''n''] = [CHR ''<'', CHR 0x0A]" by code_simp+
  then have t: "reads d ?t (JStr [CHR ''<'', CHR 0x0A])" using reads_body [of "[CHR ''<'', CHR 0x5C, CHR ''n'']" d] by simp
  have "show_int 1 = ''1''" by code_simp
  then have one: "reads d ''1'' (JNum ''1'')" using reads_int [of d 1] by simp
  have "scan_value 21 d (?t @ '', 1]'') = Some (JStr [CHR ''<'', CHR 0x0A], '', 1]'')"
    by (rule reads_value [OF t]) (simp_all add: stops_def)
  moreover have "scan_value 20 d (''1'' @ '']'') = Some (JNum ''1'', '']'')"
    by (rule reads_value [OF one]) (simp_all add: stops_def)
  ultimately have "scan_elems 22 d (CHR '' '' # ?t @ '', 1]'') = Some ([JStr [CHR ''<'', CHR 0x0A], JNum ''1''], [])"
    by (simp add: eval_nat_numeral skip_ws_Cons scan_value_space del: scan_value.simps)
  then show ?thesis
    unfolding d by (simp add: reads_def demo_params_def demo_value_def eval_nat_numeral skip_ws_Cons del: scan_elems.simps)
qed

definition demo_float :: f64 where
  "demo_float = F64 False 4503599627370496 (- 52)"

lemma demo_id_read: "int_float demo_float \<and> any_of (JNum (show_int 1)) = Some (AFloat demo_float)"
proof -
  have "f64_exp 1 1 = - 52" using f64_exp_nat [of 1] by (simp add: nbits.simps)
  then have "nearest_f64 False 1 1 = Some demo_float" by (simp add: nearest_f64_at round_div_def demo_float_def)
  then show ?thesis by (simp add: int_float_def f_trunc_def demo_float_def parse_float_show_int)
qed

definition demo_raw :: bytes where
  "demo_raw = enc_object [enc_member ''id'' (show_int 1), enc_member ''jsonrpc'' (enc_string ''2.0''),
     enc_member ''method'' (enc_string ''eth_call''), enc_member ''params'' demo_params]"

definition demo_raw_request :: rpc_request where
  "demo_raw_request = zero_rpc_request\<lparr>single_call := Some
     \<lparr>rq_id = Some (AFloat demo_float), rq_version = ''2.0'', rq_method = ''eth_call'', rq_params = demo_params\<rparr>\<rparr>"

lemma demo_raw_decoded: "unmarshal_request demo_raw = Some demo_raw_request"
proof -
  let ?ms = "[(''id'', show_int 1, JNum (show_int 1)), (''jsonrpc'', enc_string ''2.0'', JStr ''2.0''),
    (''method'', enc_string ''eth_call'', JStr ''eth_call''), (''params'', demo_params, demo_value)]"
  have "plain_text ''id''" "plain_text ''jsonrpc''" "plain_text ''method''" "plain_text ''params''" "plain_text ''2.0''"
    "plain_text ''eth_call''" by code_simp+
  note names = this [THEN plain_utf8]
  have "members_read (max_nesting - 1) ?ms"
    using names demo_params_read by (simp add: members_read_def reads_int reads_string)
  moreover have "decode_members ?ms zero_request =
      Some \<lparr>rq_id = Some (AFloat demo_float), rq_version = ''2.0'', rq_method = ''eth_call'', rq_params = demo_params\<rparr>"
    using demo_id_read by (simp add: decode_member_def call_field_names decode_text_def zero_request_def)
  ultimately show ?thesis
    using unmarshal_members [of ?ms] by (simp add: demo_raw_def demo_raw_request_def)
qed

theorem decoded_request_is_sent_on_witness:
  "unmarshal_request demo_raw = Some demo_raw_request \<and>
   (\<exists>t req'. marshal_request demo_raw_request = Some t \<and> unmarshal_request t = Some req' \<and> same_request demo_raw_request req')"
proof -
  have "\<forall>c \<in> set (calls_of demo_raw_request). common_id (rq_id c)"
    using demo_id_read by (simp add: calls_of_def zero_rpc_request_def demo_raw_request_def common_id_def)
  then show ?thesis using demo_raw_decoded decoded_request_is_sent_on by blast
qed

end
