(* ===== verification/NodeView.thy ===== *)
theory NodeView
  imports Compact Handler
begin

text \<open>
  What the nodes see of the requests over HTTP: nothing but the calls a client made, whole and in order, at
  the address their methods call for.
\<close>

section \<open>Answers that are not asked for\<close>

lemma from_cache_ignores_post: "from_cache (E\<lparr>http_post := post\<rparr>) = from_cache E"
  unfolding from_cache_def [abs_def] env_ignores_post by (rule refl)

lemma store_result_ignores_post: "store_result (E\<lparr>http_post := post\<rparr>) = store_result E"
  unfolding store_result_def [abs_def] cache_fn_def [abs_def] env_ignores_post by (rule refl)

text \<open>The proxy asks a node at one address with one text.\<close>

lemma http_proxy_asks:
  assumes "\<And>t w. marshal_request req = Some t \<Longrightarrow>
    post (upstream_url cfg (request_type req)) t w = post' (upstream_url cfg (request_type req)) t w"
  shows "http_proxy (E\<lparr>http_post := post\<rparr>) cfg req s = http_proxy (E\<lparr>http_post := post'\<rparr>) cfg req s"
proof -
  have same: "do_http_upstream_call (E\<lparr>http_post := post\<rparr>) cfg req = do_http_upstream_call (E\<lparr>http_post := post'\<rparr>) cfg req"
    using assms by (cases "marshal_request req") (simp_all add: do_http_upstream_call_def [abs_def])
  show ?thesis
    unfolding http_proxy_def http_upstream_call_def from_cache_ignores_post store_result_ignores_post same by (rule refl)
qed

lemma http_asks:
  assumes "\<And>k req' s1 s2 t w. admit_http E h q s = (Ret (Inr (k, req')), s1) \<Longrightarrow> marshal_request req' = Some t \<Longrightarrow>
    post (upstream_url (h_proxy h) (request_type req')) t w = post' (upstream_url (h_proxy h) (request_type req')) t w"
  shows "Http (E\<lparr>http_post := post\<rparr>) h q s = Http (E\<lparr>http_post := post'\<rparr>) h q s"
proof -
  let ?A = "E\<lparr>http_post := post\<rparr>" and ?B = "E\<lparr>http_post := post'\<rparr>"
  have same: "admit_http (E\<lparr>http_post := p\<rparr>) h q s = admit_http E h q s"
    "charge_with (E\<lparr>http_post := p\<rparr>) h cost a s1 = charge_with E h cost a s1" for p a s1
    unfolding admit_http_def charge_with_def bind_ignores_post rate_limit_ignores_post by (rule refl)+
  show ?thesis
  proof (cases rule: http_end.serve_cases [of ?A h q s])
    case (panics p s1)
    then show ?thesis using http_end.stuck [of ?B h q s p s1] by (simp add: same)
  next
    case (rejects r s1)
    then show ?thesis using http_end.refused [of ?B h q s r s1] by (simp add: same)
  next
    case (unpaid a s1 e s2)
    then show ?thesis using http_end.denied [of ?B h q s a s1 e s2] by (simp add: same)
  next
    case (served a s1 s2)
    have "forward_http ?A h q a s2 = forward_http ?B h q a s2"
      using served(1) assms http_proxy_asks [of "snd a" post "h_proxy h" post' E s2]
      by (cases a) (simp add: same forward_http_def)
    then show ?thesis using served http_end.passed [of ?B h q s a s1 s2] by (simp add: same)
  qed
qed

section \<open>What a node is asked\<close>

text \<open>
  A text posted to an address because of a client's text: it is the encoding of the calls the client's text
  is read as, none of them is forbidden to the key, the address is the Erigon node's exactly when one of the
  methods is, and, with common ids, what is posted is read back as the same calls.
\<close>

definition node_may_get :: "json_handler \<Rightarrow> string \<Rightarrow> bytes \<Rightarrow> string \<Rightarrow> bytes \<Rightarrow> bool" where
  "node_may_get h k raw url body =
     (case unmarshal_request raw of
        None \<Rightarrow> False
      | Some req \<Rightarrow>
          marshal_request req = Some body \<and>
          (\<forall>r \<in> set (calls_of req). rq_method r \<noteq> [] \<and> rq_method r \<notin> set (black_list h k (http_black_methods h))) \<and>
          url = (if \<exists>r \<in> set (calls_of req). rq_method r \<in> set (erigon_methods h)
                 then http_erigon_stream (h_proxy h) else http_upstream (h_proxy h)) \<and>
          ((\<forall>r \<in> set (calls_of req). common_id (rq_id r)) \<longrightarrow>
             (case unmarshal_request body of None \<Rightarrow> False | Some req' \<Rightarrow> same_request req req')))"

lemma marshal_request_type: "marshal_request (r\<lparr>request_type := t\<rparr>) = marshal_request r"
  by (simp add: marshal_request_def cong: option.case_cong)

lemma admitted_text:
  assumes "admit_http E h q s = (Ret (Inr (k, req')), s1)" "req_body q = Inr raw" "marshal_request req' = Some t"
  shows "bind_api_key q = Inr k" "node_may_get h k raw (upstream_url (h_proxy h) (request_type req')) t"
proof -
  obtain w where k: "bind_api_key q = Inr k"
    and b: "bind E h k raw (http_black_methods h) (erigon_methods h) (snd s) = (Ret (Inr req'), w)"
    using assms(1,2) by (auto simp: admit_http_def split: outcome.splits sum.splits prod.splits)
  obtain req where req: "unmarshal_request raw = Some req"
    "req' = req\<lparr>request_type := (if \<exists>r \<in> set (calls_of req). erigon_call (erigon_methods h) r then RequestTypeErigon else 0)\<rparr>"
    "\<forall>r \<in> set (calls_of req). rq_method r \<noteq> [] \<and> rq_method r \<notin> set (black_list h k (http_black_methods h))"
    using b by (rule bind_ok)
  have t: "marshal_request req = Some t" using assms(3) by (simp add: req(2) marshal_request_type)
  have "case unmarshal_request t of None \<Rightarrow> False | Some req2 \<Rightarrow> same_request req req2"
    if "\<forall>r \<in> set (calls_of req). common_id (rq_id r)"
    using decoded_request_sent [OF req(1) that] t by auto
  moreover have "upstream_url (h_proxy h) (request_type req') = (if \<exists>r \<in> set (calls_of req). rq_method r \<in> set (erigon_methods h)
      then http_erigon_stream (h_proxy h) else http_upstream (h_proxy h))"
    by (simp add: req(2) upstream_url_def erigon_call_def RequestTypeErigon_def)
  ultimately show "node_may_get h k raw (upstream_url (h_proxy h) (request_type req')) t"
    using req(1,3) t by (simp add: node_may_get_def)
  show "bind_api_key q = Inr k" by (rule k)
qed

text \<open>
  C5. The nodes see nothing but the client's calls.  Whatever the state and whatever the request, the reply to
  it over HTTP and the state after it depend on what the nodes answer only to one text at one address: the
  encoding of the calls that were read from the body, all of them and in their order, none of them forbidden
  to the key, posted to the Erigon node exactly when one of the methods is Erigon's.  When the ids are
  texts, truth values, absent or integers below \<open>2 ^ 53\<close>, this text is moreover read back as the same
  calls, with the same ids, versions, methods and values of the parameters; other ids the client chooses
  may be rounded on the way.
\<close>

theorem nodes_see_the_clients_calls:
  assumes "bind_api_key q = Inr k" "req_body q = Inr raw"
    and "\<forall>url t. node_may_get h k raw url t \<longrightarrow> post url t = post' url t"
  shows "Http (E\<lparr>http_post := post\<rparr>) h q s = Http (E\<lparr>http_post := post'\<rparr>) h q s"
proof (rule http_asks)
  fix k' req' s1 s2 t w
  assume "admit_http E h q s = (Ret (Inr (k', req')), s1)" "marshal_request req' = Some t"
  from admitted_text [OF this(1) assms(2) this(2)] assms(1)
  have "node_may_get h k raw (upstream_url (h_proxy h) (request_type req')) t" by simp
  then show "post (upstream_url (h_proxy h) (request_type req')) t w = post' (upstream_url (h_proxy h) (request_type req')) t w"
    using assms(3) by simp
qed

text \<open>A call of \<^verbatim>\<open>eth_call\<close>: the ordinary node is asked, and nothing changes when all other questions fail.\<close>

theorem nodes_see_the_clients_calls_witness:
  "(\<exists>t. node_may_get demo_handler ''k'' (demo_text ''eth_call'') (http_upstream demo_cfg) t) \<and>
   Http (demo_env []) demo_handler (demo_request ''/eth/v1/k'' (demo_text ''eth_call'')) (0, demo_start) =
   Http (demo_env []\<lparr>http_post := (\<lambda>url t w. if node_may_get demo_handler ''k'' (demo_text ''eth_call'') url t
     then http_post (demo_env []) url t w else (Inl ''refused'', w))\<rparr>) demo_handler
     (demo_request ''/eth/v1/k'' (demo_text ''eth_call'')) (0, demo_start)"
  (is "?asked \<and> ?A = ?B")
proof
  let ?q = "demo_request ''/eth/v1/k'' (demo_text ''eth_call'')" and ?req = "zero_rpc_request\<lparr>single_call := Some (demo_call_of ''eth_call'')\<rparr>"
  have calls: "calls_of ?req = [demo_call_of ''eth_call'']" by (simp add: calls_of_def zero_rpc_request_def)
  have ids: "\<forall>c \<in> set (calls_of ?req). common_id (rq_id c)" unfolding calls by (simp add: demo_call_of_def common_id_def)
  obtain t req' where "marshal_request ?req = Some t" "unmarshal_request t = Some req'" "same_request ?req req'"
    using decoded_request_sent [OF demo_reads(2) ids] by blast
  then have "node_may_get demo_handler ''k'' (demo_text ''eth_call'') (http_upstream demo_cfg) t"
    using calls by (simp add: node_may_get_def demo_reads set_black_list demo_handler_def demo_call_of_def)
  then show ?asked by blast
  have "bind_api_key ?q = Inr ''k''" "req_body ?q = Inr (demo_text ''eth_call'')"
    by (simp_all add: bind_api_key_def demo_request_def)
  then show "?A = ?B"
    using nodes_see_the_clients_calls [of ?q "''k''" "demo_text ''eth_call''" demo_handler "http_post (demo_env [])" _ "demo_env []" "(0, demo_start)"]
    by simp
qed

end
