(* ===== verification/Config.thy ===== *)
theory Config
  imports Prelude
begin

text \<open>
  \<^verbatim>\<open>config/config.go\<close> and \<^verbatim>\<open>config/logger.go\<close>: the chains of the RPC
  configuration with their defaults, and the logger's levels and cores.  The TOML library
  is a parameter: \<open>parse\<close> gives the top-level table of a text, in the order in which Go's
  map is ranged over, and \<open>fill\<close> decodes a table into a chain's configuration, keeping what
  the table does not set.
\<close>

section \<open>Configuration types\<close>

record rpc_node_config =
  node_name :: string
  node_http :: string
  node_ws :: string
  node_extra_write :: string

record chain_config =
  chain_name :: string
  chain_type :: string
  max_behind_blocks :: int
  block_number_method :: string
  block_number_result_extractor :: string
  block_number_result_expression :: string
  chain_nodes :: "rpc_node_config list"

record rpc_config =
  api_key :: string
  health_pushgateway :: string
  chains :: "chain_config list"

datatype toml = TString string | TInt int | TOther | TTable "(string \<times> toml) list"

text \<open>
  \<^verbatim>\<open>Config\<close>, without the addresses of Redis, which only a package outside the repository
  reads.
\<close>

record mysql_settings =
  ms_database :: string
  ms_host :: string
  ms_port :: int
  ms_user :: string
  ms_password :: string

record upstream_urls =
  us_http :: string
  us_ws :: string

record upstream_config =
  us_eth :: upstream_urls
  us_erigon :: upstream_urls
  us_polygon :: upstream_urls
  us_arbitrum :: upstream_urls
  us_solana :: upstream_urls
  us_hsc :: upstream_urls
  us_cosmos :: upstream_urls
  us_evmos :: upstream_urls
  us_kava :: upstream_urls
  us_juno :: upstream_urls
  us_umee :: upstream_urls
  us_gravity :: upstream_urls
  us_okc :: upstream_urls
  us_irisnet :: upstream_urls

record config =
  cf_listen :: string
  cf_upstream :: upstream_config
  cf_log_level :: string
  cf_is_dev :: bool
  cf_log_file :: string
  cf_mysql :: mysql_settings
  cf_ipfs_schemes :: string
  cf_ipfs_host :: string
  cf_ipfs_port :: int

section \<open>LoadConfig\<close>

text \<open>
  \<open>read_in\<close> and \<open>fill\<close> are viper's \<^verbatim>\<open>ReadInConfig\<close> for a file and
  \<^verbatim>\<open>Unmarshal\<close>.  The second message is in Chinese.
\<close>

definition load_config ::
  "(string \<Rightarrow> 'w \<Rightarrow> gerr option \<times> 'w) \<Rightarrow> ('w \<Rightarrow> gerr + config) \<Rightarrow> string \<Rightarrow> 'w \<Rightarrow> (gerr + config) \<times> 'w" where
  "load_config read_in fill file w =
     (case read_in file w of
        (Some e, w1) \<Rightarrow> (Inl (''ReadInConfig: '' @ e), w1)
      | (None, w1) \<Rightarrow>
          (case fill w1 of
             Inl e \<Rightarrow> (Inl (map char_of [232::nat, 175, 187, 229, 143, 150, 233, 133, 141, 231, 189, 174, 230, 150, 135,
                               228, 187, 182, 239, 188, 154] @ e), w1)
           | Inr c \<Rightarrow> (Inr c, w1)))"

section \<open>LoadRPCConfig\<close>

definition default_chain :: "string \<Rightarrow> chain_config" where
  "default_chain name =
     \<lparr>chain_name = name, chain_type = ''evm'', max_behind_blocks = 10, block_number_method = [],
      block_number_result_extractor = ''jq'', block_number_result_expression = ''.result'',
      chain_nodes = []\<rparr>"

text \<open>The switch over the chain type.\<close>

definition finish_chain :: "chain_config \<Rightarrow> gerr + chain_config" where
  "finish_chain c =
     (if chain_type c = ''evm'' then Inr (c\<lparr>block_number_method := ''eth_blockNumber''\<rparr>)
      else if chain_type c = ''svm'' then Inr (c\<lparr>block_number_method := ''getBlockHeight''\<rparr>)
      else if chain_type c = ''aptos'' then Inr (c\<lparr>block_number_result_expression := ''.ledger_version''\<rparr>)
      else if chain_type c = ''tron'' then
        Inr (c\<lparr>block_number_method := ''eth_blockNumber'',
              max_behind_blocks := (if max_behind_blocks c = 10 then 40 else max_behind_blocks c)\<rparr>)
      else Inl (''unsupported chain type: '' @ chain_type c))"

definition reserved_key :: "string \<Rightarrow> bool" where
  "reserved_key k \<longleftrightarrow> k = ''apikey'' \<or> k = ''health_pushgateway''"

fun load_chains ::
  "(toml \<Rightarrow> chain_config \<Rightarrow> gerr + chain_config) \<Rightarrow> (string \<times> toml) list \<Rightarrow> chain_config list \<Rightarrow>
   gerr + chain_config list" where
  "load_chains fill [] acc = Inr acc"
| "load_chains fill ((name, t) # rest) acc =
     (if reserved_key name then load_chains fill rest acc
      else case fill t (default_chain name) of
        Inl e \<Rightarrow> Inl e
      | Inr c \<Rightarrow>
          (case finish_chain c of
             Inl e \<Rightarrow> Inl e
           | Inr c' \<Rightarrow> load_chains fill rest (acc @ [c'])))"

text \<open>A missing API key, or a key or gateway that is no string, is a failed type assertion.\<close>

definition load_rpc_config ::
  "(string \<Rightarrow> gerr + (string \<times> toml) list) \<Rightarrow> (toml \<Rightarrow> chain_config \<Rightarrow> gerr + chain_config) \<Rightarrow> string \<Rightarrow>
   (gerr + rpc_config) outcome" where
  "load_rpc_config parse fill data =
     (case parse data of
        Inl e \<Rightarrow> Ret (Inl e)
      | Inr config \<Rightarrow>
          (case map_of config ''apikey'' of
             Some (TString key) \<Rightarrow>
               (case map_of config ''health_pushgateway'' of
                  None \<Rightarrow> Ret (map_sum id (\<lambda>cs. \<lparr>api_key = key, health_pushgateway = [], chains = cs\<rparr>)
                            (load_chains fill config []))
                | Some (TString g) \<Rightarrow> Ret (map_sum id (\<lambda>cs. \<lparr>api_key = key, health_pushgateway = g, chains = cs\<rparr>)
                            (load_chains fill config []))
                | Some _ \<Rightarrow> Panic ''interface conversion'')
           | _ \<Rightarrow> Panic ''interface conversion''))"

section \<open>Logger\<close>

datatype log_level = DebugLevel | InfoLevel | WarnLevel | ErrorLevel | DPanicLevel | PanicLevel | FatalLevel

text \<open>The numbers of \<^verbatim>\<open>zapcore.Level\<close>, by which levels are compared.\<close>

fun level_number :: "log_level \<Rightarrow> int" where
  "level_number DebugLevel = - 1"
| "level_number InfoLevel = 0"
| "level_number WarnLevel = 1"
| "level_number ErrorLevel = 2"
| "level_number DPanicLevel = 3"
| "level_number PanicLevel = 4"
| "level_number FatalLevel = 5"

lemma level_number_inj: "level_number a = level_number b \<longleftrightarrow> a = b"
  by (cases a; cases b) auto

instantiation log_level :: linorder
begin

definition less_eq_log_level :: "log_level \<Rightarrow> log_level \<Rightarrow> bool" where
  "a \<le> b \<longleftrightarrow> level_number a \<le> level_number b"

definition less_log_level :: "log_level \<Rightarrow> log_level \<Rightarrow> bool" where
  "a < b \<longleftrightarrow> level_number a < level_number b"

instance
  by standard (auto simp: less_eq_log_level_def less_log_level_def level_number_inj intro: level_number_inj [THEN iffD1])

end

lemmas level_order = less_eq_log_level_def less_log_level_def

definition level_of :: "string \<Rightarrow> log_level" where
  "level_of s =
     (if s = ''debug'' then DebugLevel else if s = ''info'' then InfoLevel
      else if s = ''warn'' then WarnLevel else if s = ''error'' then ErrorLevel
      else if s = ''dpanic'' then DPanicLevel else if s = ''panic'' then PanicLevel
      else if s = ''fatal'' then FatalLevel else InfoLevel)"

text \<open>
  A logger: the levels of its cores, all on the same writer, the name of that writer's files, whether
  it includes the standard output, and from which level on the logger adds stack traces.
\<close>

record logger =
  core_levels :: "log_level list"
  log_files :: string
  to_stdout :: bool
  stack_from :: "log_level option"

text \<open>
  How an entry is written: the names of its fields, the level in lower case, and the time with the
  program's name before it.  Durations and callers are left to zap's own encoders.
\<close>

record log_time =
  lt_year :: nat
  lt_month :: nat
  lt_day :: nat
  lt_hour :: nat
  lt_minute :: nat
  lt_second :: nat
  lt_milli :: nat

definition zero_pad :: "nat \<Rightarrow> nat \<Rightarrow> string" where
  "zero_pad width n = replicate (width - length (show_nat n)) (CHR ''0'') @ show_nat n"

definition CustomTimeEncoder :: "log_time \<Rightarrow> string" where
  "CustomTimeEncoder t =
     ''starnet_chain_api:'' @ zero_pad 4 (lt_year t) @ ''/'' @ zero_pad 2 (lt_month t) @ ''/'' @ zero_pad 2 (lt_day t) @
     '' - '' @ zero_pad 2 (lt_hour t) @ '':'' @ zero_pad 2 (lt_minute t) @ '':'' @ zero_pad 2 (lt_second t) @
     ''.'' @ zero_pad 3 (lt_milli t)"

fun lowercase_level :: "log_level \<Rightarrow> string" where
  "lowercase_level DebugLevel = ''debug''"
| "lowercase_level InfoLevel = ''info''"
| "lowercase_level WarnLevel = ''warn''"
| "lowercase_level ErrorLevel = ''error''"
| "lowercase_level DPanicLevel = ''dpanic''"
| "lowercase_level PanicLevel = ''panic''"
| "lowercase_level FatalLevel = ''fatal''"

record encoder_config =
  ec_message_key :: string
  ec_level_key :: string
  ec_time_key :: string
  ec_name_key :: string
  ec_caller_key :: string
  ec_level :: "log_level \<Rightarrow> string"
  ec_time :: "log_time \<Rightarrow> string"

definition getEncoderConfig :: encoder_config where
  "getEncoderConfig =
     \<lparr>ec_message_key = ''message'', ec_level_key = ''level'', ec_time_key = ''time'', ec_name_key = ''logger'',
      ec_caller_key = ''caller'', ec_level = lowercase_level, ec_time = CustomTimeEncoder\<rparr>"

text \<open>A level in the configuration has the name that entries of that level carry.\<close>

lemma level_of_lowercase: "level_of (ec_level getEncoderConfig l) = l"
  by (cases l) (simp_all add: level_of_def getEncoderConfig_def)

definition log_pattern :: string where
  "log_pattern = ''log/starnet_chain_api-%Y-%m-%d.log''"

definition encoder_cores :: "bool \<Rightarrow> log_level \<Rightarrow> log_level list" where
  "encoder_cores is_dev l =
     (if is_dev then [l] else [ErrorLevel, DPanicLevel, PanicLevel, FatalLevel, l])"

definition new_logger_config :: "string \<Rightarrow> bool \<Rightarrow> logger" where
  "new_logger_config level is_dev =
     (let l = level_of level
      in \<lparr>core_levels = encoder_cores is_dev l, log_files = log_pattern, to_stdout = is_dev,
          stack_from = (if l = DebugLevel \<or> ErrorLevel < l then Some l else None)\<rparr>)"

text \<open>
  \<open>roll\<close> opens the rotating files, with a new one every 24 hours.  When that fails there is no
  core, and zap makes a logger that writes nothing.  \<^verbatim>\<open>log_file\<close> is not read.
\<close>

definition new_rolling_logger :: "(string \<Rightarrow> nat \<Rightarrow> gerr option) \<Rightarrow> config \<Rightarrow> logger" where
  "new_rolling_logger roll c =
     (case roll log_pattern 24 of
        None \<Rightarrow> new_logger_config (cf_log_level c) (cf_is_dev c)
      | Some e \<Rightarrow> \<lparr>core_levels = [], log_files = [], to_stdout = False, stack_from = None\<rparr>)"

text \<open>How often an entry is written: once by each core whose level admits it.\<close>

definition copies_written :: "logger \<Rightarrow> log_level \<Rightarrow> nat" where
  "copies_written lg l = length (filter (\<lambda>c. c \<le> l) (core_levels lg))"

section \<open>Loaded chains\<close>

text \<open>What the rest of the program may rely on about a chain of a loaded configuration.\<close>

definition complete_chain :: "chain_config \<Rightarrow> bool" where
  "complete_chain c \<longleftrightarrow>
     (chain_type c = ''evm'' \<and> block_number_method c = ''eth_blockNumber'') \<or>
     (chain_type c = ''svm'' \<and> block_number_method c = ''getBlockHeight'') \<or>
     (chain_type c = ''aptos'' \<and> block_number_result_expression c = ''.ledger_version'') \<or>
     (chain_type c = ''tron'' \<and> block_number_method c = ''eth_blockNumber'' \<and> max_behind_blocks c \<noteq> 10)"

lemma finish_chain_complete: "finish_chain c = Inr c' \<Longrightarrow> complete_chain c'"
  by (auto simp: finish_chain_def complete_chain_def split: if_splits)

lemma finish_chain_kept:
  "finish_chain c = Inr c' \<Longrightarrow> chain_name c' = chain_name c \<and> chain_type c' = chain_type c \<and>
    chain_nodes c' = chain_nodes c \<and> block_number_result_extractor c' = block_number_result_extractor c"
  by (auto simp: finish_chain_def split: if_splits)

lemma load_chains_spec:
  "load_chains fill entries acc = Inr cs \<Longrightarrow>
   \<exists>new. cs = acc @ new \<and> (\<forall>c \<in> set new. complete_chain c) \<and>
     list_all2 (\<lambda>(n, t) c. \<exists>c0. fill t (default_chain n) = Inr c0 \<and> finish_chain c0 = Inr c)
       (filter (\<lambda>e. \<not> reserved_key (fst e)) entries) new"
proof (induction fill entries acc rule: load_chains.induct)
  case (1 fill acc)
  then show ?case by simp
next
  case (2 fill name t rest acc)
  show ?case
  proof (cases "reserved_key name")
    case True
    then show ?thesis using 2 by simp
  next
    case False
    then obtain c0 c where c: "fill t (default_chain name) = Inr c0" "finish_chain c0 = Inr c"
      and rest: "load_chains fill rest (acc @ [c]) = Inr cs"
      using "2.prems" by (auto split: sum.splits)
    obtain new where "cs = (acc @ [c]) @ new" "\<forall>c \<in> set new. complete_chain c"
      "list_all2 (\<lambda>(n, t) c. \<exists>c0. fill t (default_chain n) = Inr c0 \<and> finish_chain c0 = Inr c)
         (filter (\<lambda>e. \<not> reserved_key (fst e)) rest) new"
      using "2.IH"(2) [OF False c rest] by blast
    then show ?thesis
      using False c finish_chain_complete [OF c(2)] by (intro exI [of _ "c # new"]) auto
  qed
qed

lemma load_rpc_config_complete:
  assumes "load_rpc_config parse fill data = Ret (Inr c)" "ch \<in> set (chains c)"
  shows "complete_chain ch"
proof -
  obtain entries where "load_chains fill entries [] = Inr (chains c)"
    using assms(1)
    by (fastforce simp: load_rpc_config_def map_sum_def split: sum.splits option.splits toml.splits)
  then show ?thesis using load_chains_spec assms(2) by fastforce
qed

lemma load_rpc_config_gateway:
  assumes "load_rpc_config parse fill data = Ret (Inr c)"
  obtains entries where "parse data = Inr entries"
    "case map_of entries ''health_pushgateway'' of
       None \<Rightarrow> health_pushgateway c = [] | Some t \<Rightarrow> t = TString (health_pushgateway c)"
  using assms
  by (auto simp: load_rpc_config_def map_sum_def split: sum.splits option.splits toml.splits)

section \<open>Properties\<close>

text \<open>
  What a chain's table makes of it, written out: the defaults, what the table puts over them
  (\<open>fill\<close>), and then the settings that the chain's type fixes.
\<close>

definition loaded_from ::
  "(toml \<Rightarrow> chain_config \<Rightarrow> gerr + chain_config) \<Rightarrow> string \<Rightarrow> toml \<Rightarrow> chain_config \<Rightarrow> bool" where
  "loaded_from fill n t ch \<longleftrightarrow>
     (\<exists>c. fill t \<lparr>chain_name = n, chain_type = ''evm'', max_behind_blocks = 10, block_number_method = [],
               block_number_result_extractor = ''jq'', block_number_result_expression = ''.result'',
               chain_nodes = []\<rparr> = Inr c \<and>
        chain_type c \<in> {''evm'', ''svm'', ''aptos'', ''tron''} \<and>
        ch = c\<lparr>block_number_method :=
                 (if chain_type c = ''aptos'' then block_number_method c
                  else if chain_type c = ''svm'' then ''getBlockHeight'' else ''eth_blockNumber''),
               block_number_result_expression :=
                 (if chain_type c = ''aptos'' then ''.ledger_version'' else block_number_result_expression c),
               max_behind_blocks :=
                 (if chain_type c = ''tron'' \<and> max_behind_blocks c = 10 then 40 else max_behind_blocks c)\<rparr>)"

lemma finish_chain_loaded:
  assumes "fill t (default_chain n) = Inr c" "finish_chain c = Inr ch"
  shows "loaded_from fill n t ch"
  unfolding loaded_from_def
  by (rule exI [of _ c]) (use assms in \<open>auto simp: default_chain_def finish_chain_def split: if_splits\<close>)

text \<open>
  C30. A loaded configuration is what the file says.  Every entry of the file but the two reserved
  ones becomes one chain (in the order in which the entries are met, which Go leaves open): its own
  table over the defaults of \<^verbatim>\<open>LoadRPCConfig\<close>, of one of the four supported types, and with the
  settings that the type fixes.  So a \<^verbatim>\<open>block_number_method\<close> of the file is never used for an EVM,
  Solana or Tron chain, nor an expression for an Aptos chain, a Tron chain never has the limit of 10
  blocks, and everything else is the table's.  The API key is the file's, and so is the gateway, which
  is empty if the file names none.
\<close>

theorem loaded_chains_are_complete:
  assumes "load_rpc_config parse fill data = Ret (Inr c)"
  shows "\<exists>entries. parse data = Inr entries \<and>
       list_all2 (\<lambda>(n, t) ch. loaded_from fill n t ch \<and> complete_chain ch)
         (filter (\<lambda>e. \<not> reserved_key (fst e)) entries) (chains c) \<and>
       map_of entries ''apikey'' = Some (TString (api_key c)) \<and>
       (case map_of entries ''health_pushgateway'' of
          None \<Rightarrow> health_pushgateway c = [] | Some t \<Rightarrow> t = TString (health_pushgateway c))"
proof -
  obtain entries where e: "parse data = Inr entries"
    "case map_of entries ''health_pushgateway'' of
       None \<Rightarrow> health_pushgateway c = [] | Some t \<Rightarrow> t = TString (health_pushgateway c)"
    by (rule load_rpc_config_gateway [OF assms])
  have cs: "load_chains fill entries [] = Inr (chains c)" "map_of entries ''apikey'' = Some (TString (api_key c))"
    using assms e(1) by (auto simp: load_rpc_config_def map_sum_def split: option.splits toml.splits sum.splits)
  from load_chains_spec [OF cs(1)]
  have "list_all2 (\<lambda>(n, t) ch. \<exists>c0. fill t (default_chain n) = Inr c0 \<and> finish_chain c0 = Inr ch)
      (filter (\<lambda>e. \<not> reserved_key (fst e)) entries) (chains c)" by simp
  then have "list_all2 (\<lambda>(n, t) ch. loaded_from fill n t ch \<and> complete_chain ch)
      (filter (\<lambda>e. \<not> reserved_key (fst e)) entries) (chains c)"
    by (rule list_all2_mono) (auto intro: finish_chain_loaded finish_chain_complete)
  then show ?thesis using e cs(2) by blast
qed

text \<open>A parser and a decoder for the witnesses: fixed entries, and string and integer fields.\<close>

definition demo_toml :: "(string \<times> toml) list" where
  "demo_toml =
     [(''apikey'', TString ''k''), (''lisk'', TTable [(''block_number_method'', TString ''getBlockNumber'')]),
      (''tron'', TTable [(''chain_type'', TString ''tron''), (''max_behind_blocks'', TInt 10)])]"

fun demo_fill :: "toml \<Rightarrow> chain_config \<Rightarrow> gerr + chain_config" where
  "demo_fill (TTable fs) c = Inr (c
     \<lparr>chain_type := (case map_of fs ''chain_type'' of Some (TString s) \<Rightarrow> s | _ \<Rightarrow> chain_type c),
      max_behind_blocks := (case map_of fs ''max_behind_blocks'' of Some (TInt i) \<Rightarrow> i | _ \<Rightarrow> max_behind_blocks c),
      block_number_method :=
        (case map_of fs ''block_number_method'' of Some (TString s) \<Rightarrow> s | _ \<Rightarrow> block_number_method c)\<rparr>)"
| "demo_fill _ c = Inl ''top-level values must be tables''"

theorem loaded_chains_are_complete_witness:
  "\<exists>c. load_rpc_config (\<lambda>_. Inr demo_toml) demo_fill ''file'' = Ret (Inr c) \<and>
     list_all2 (\<lambda>(n, t) ch. loaded_from demo_fill n t ch \<and> complete_chain ch) (tl demo_toml) (chains c) \<and>
     map max_behind_blocks (chains c) = [10, 40] \<and> api_key c = ''k'' \<and> health_pushgateway c = []"
proof -
  let ?c = "\<lparr>api_key = ''k'', health_pushgateway = [],
    chains = [(default_chain ''lisk'')\<lparr>block_number_method := ''eth_blockNumber''\<rparr>,
      (default_chain ''tron'')\<lparr>chain_type := ''tron'', block_number_method := ''eth_blockNumber'',
        max_behind_blocks := 40\<rparr>]\<rparr>"
  have "load_rpc_config (\<lambda>_. Inr demo_toml) demo_fill ''file'' = Ret (Inr ?c)"
    by (simp add: load_rpc_config_def demo_toml_def reserved_key_def finish_chain_def default_chain_def)
  moreover from loaded_chains_are_complete [OF this]
  have "list_all2 (\<lambda>(n, t) ch. loaded_from demo_fill n t ch \<and> complete_chain ch) (tl demo_toml) (chains ?c)"
    by (auto simp: demo_toml_def reserved_key_def)
  ultimately show ?thesis by (intro exI [of _ ?c]) (simp add: default_chain_def)
qed

text \<open>
  A file without an API key crashes the program instead of yielding an error; the
  configuration of the repository's own test is one.
\<close>

theorem missing_api_key_panics:
  assumes "parse data = Inr entries" "map_of entries ''apikey'' = None"
  shows "load_rpc_config parse fill data = Panic ''interface conversion''"
  using assms by (simp add: load_rpc_config_def)

theorem missing_api_key_panics_witness:
  "load_rpc_config (\<lambda>_. Inr [(''lisk'', TTable [(''max_behind_blocks'', TInt 10)])]) demo_fill ''file'' =
     Panic ''interface conversion''"
  by (rule missing_api_key_panics [where entries = "[(''lisk'', TTable [(''max_behind_blocks'', TInt 10)])]"]) simp_all

text \<open>
  How often an entry is logged.  In development each entry of at least the configured level
  is written once.  Otherwise the five cores write it once for the configured level and
  once more for each of error, dpanic, panic and fatal up to its own level: an error entry
  twice, a fatal one five times, and errors even when the level is set above them.
\<close>

theorem copies_of_a_log_entry:
  "copies_written (new_logger_config s True) l = (if level_of s \<le> l then 1 else 0) \<and>
   copies_written (new_logger_config s False) l =
     (if level_of s \<le> l then 1 else 0) + nat (max 0 (level_number l - 1))"
  by (cases l; cases "level_of s") (simp_all add: copies_written_def new_logger_config_def encoder_cores_def Let_def level_order)

end
