(* ===== verification/Chains.thy ===== *)
theory Chains
  imports Handler Config
begin

text \<open>
  \<^verbatim>\<open>pkg/initapp\<close>: the handlers of the thirteen chains, with their method lists, cache
  times and upstream addresses, and the order in which the application makes them.  The chains'
  ids and names are constants of another repository and a parameter.
\<close>

section \<open>The application\<close>

datatype chain = Eth | Polygon | Arbitrum | Solana | Hsc | Cosmos | Evmos | Kava | Juno | Umee | Gravity | OKC | IRISnet

definition all_chains :: "chain list" where
  "all_chains = [Eth, Polygon, Arbitrum, Solana, Hsc, Cosmos, Evmos, Kava, Juno, Umee, Gravity, OKC, IRISnet]"

lemma all_chains_complete: "c \<in> set all_chains"
  by (cases c) (simp_all add: all_chains_def)

text \<open>\<^verbatim>\<open>constant.Chain\<close>: an id and a name.\<close>

record chain_constant =
  cc_chain_id :: nat
  cc_name :: string

text \<open>
  \<^verbatim>\<open>App\<close>, with the limiter's whitelist; \<open>app_http\<close> and \<open>app_ws\<close> are its handler
  fields, one each for every chain.
\<close>

record app =
  app_config :: config
  app_rpc_config :: "rpc_config option"
  app_whitelist :: "string list"
  app_http :: "chain \<Rightarrow> json_handler option"
  app_ws :: "chain \<Rightarrow> json_handler option"

definition new_json_rpc_handler ::
  "chain_constant \<Rightarrow> string list \<Rightarrow> string list \<Rightarrow> string list \<Rightarrow> string list \<Rightarrow> proxy_config \<Rightarrow> app \<Rightarrow> json_handler" where
  "new_json_rpc_handler k httpBlack erigon wsBlack justWhite p a =
     \<lparr>h_chain_id = cc_chain_id k, h_chain_name = cc_name k, http_black_methods = httpBlack,
      ws_black_methods = wsBlack, just_white_methods = justWhite, erigon_methods = erigon,
      h_proxy = p, h_whitelist = app_whitelist a, h_is_dev = cf_is_dev (app_config a)\<rparr>"

text \<open>A configuration whose Erigon addresses are not set.\<close>

definition plain_proxy :: "upstream_urls \<Rightarrow> int \<Rightarrow> chain_constant \<Rightarrow> string list \<Rightarrow> proxy_config" where
  "plain_proxy u time k cacheable =
     \<lparr>http_upstream = us_http u, ws_upstream = us_ws u, http_erigon_stream = [], ws_erigon_upstream = [],
      cache_time = time, chain_id = cc_chain_id k, cacheable_methods = cacheable\<rparr>"

definition set_handlers :: "chain \<Rightarrow> json_handler \<Rightarrow> app \<Rightarrow> app" where
  "set_handlers c h a = a\<lparr>app_http := (app_http a)(c \<mapsto> h), app_ws := (app_ws a)(c \<mapsto> h)\<rparr>"

section \<open>Method lists\<close>

definition eth_http_black :: "string list" where
  "eth_http_black =
     [''eth_newFilter'', ''eth_newBlockFilter'', ''eth_newPendingTransactionFilter'',
      ''eth_uninstallFilter'', ''eth_getFilterChanges'', ''eth_getFilterLogs'', ''eth_subscribe'',
      ''eth_unsubscribe'']"

definition eth_erigon :: "string list" where
  "eth_erigon =
     [''eth_getLogs'', ''eth_getBlockReceipts'']"

definition eth_cacheable :: "string list" where
  "eth_cacheable =
     [''eth_getBlockByHash'', ''eth_getBlockByNumber'', ''eth_getBlockTransactionCountByHash'',
      ''eth_getBlockTransactionCountByNumber'', ''eth_getUncleCountByBlockHash'',
      ''eth_getUncleCountByBlockNumber'', ''eth_protocolVersion'', ''eth_chainId'',
      ''eth_blockNumber'', ''eth_gasPrice'', ''eth_feeHistory'', ''eth_getBalance'',
      ''eth_getStorageAt'', ''eth_getTransactionCount'', ''eth_getCode'', ''eth_getTransactionByHash'',
      ''eth_getTransactionByBlockHashAndIndex'', ''eth_getTransactionByBlockNumberAndIndex'',
      ''eth_getTransactionReceipt'', ''net_version'', ''net_listening'', ''web3_clientVersion'']"

text \<open>The same list in the Ethereum, Polygon, Arbitrum and HSC files.\<close>

definition evm_just_white :: "string list" where
  "evm_just_white =
     [''trace_call'', ''trace_block'', ''trace_get'', ''trace_filter'', ''trace_transaction'',
      ''trace_rawTransaction'', ''trace_replayBlockTransactions'', ''trace_replayTransaction'',
      ''debug_traceCall'', ''debug_traceTransaction'', ''debug_traceBlockByNumber'',
      ''debug_traceBlockByHash'']"

definition polygon_http_black :: "string list" where
  "polygon_http_black =
     [''eth_getFilterChanges'', ''eth_getFilterLogs'', ''eth_newBlockFilter'', ''eth_newFilter'',
      ''eth_newPendingTransactionFilter'', ''eth_uninstallFilter'', ''eth_subscribe'',
      ''eth_unsubscribe'']"

definition polygon_cacheable :: "string list" where
  "polygon_cacheable =
     [''eth_blockNumber'', ''eth_getBlockByHash'', ''eth_getBlockByNumber'',
      ''eth_getTransactionByHash'', ''eth_getTransactionCount'', ''eth_getTransactionReceipt'',
      ''eth_getBlockTransactionCountByHash'', ''eth_getBlockTransactionCountByNumber'',
      ''eth_getTransactionByBlockNumberAndIndex'', ''bor_getAuthor'', ''bor_getCurrentValidators'',
      ''bor_getCurrentProposer'', ''bor_getRootHash'', ''eth_getRootHash'', ''eth_getSignersAtHash'',
      ''eth_getTransactionReceiptsByBlock'', ''eth_getTransactionByBlockHashAndIndex'',
      ''eth_getBalance'', ''eth_getCode'', ''eth_getStorageAt'', ''eth_accounts'', ''eth_getProof'',
      ''eth_getLogs'', ''eth_gasPrice'', ''eth_chainId'', ''net_version'',
      ''eth_getUncleByBlockNumberAndIndex'', ''eth_getUncleByBlockHashAndIndex'',
      ''eth_getUncleCountByBlockHash'', ''eth_getUncleCountByBlockNumber'', ''net_listening'',
      ''web3_clientVersion'']"

definition arbitrum_http_black :: "string list" where
  "arbitrum_http_black =
     [''eth_getFilterChanges'', ''eth_getFilterLogs'', ''eth_newBlockFilter'', ''eth_newFilter'',
      ''eth_uninstallFilter'', ''eth_subscribe'', ''eth_unsubscribe'']"

definition arbitrum_cacheable :: "string list" where
  "arbitrum_cacheable =
     [''eth_blockNumber'', ''eth_getBlockByHash'', ''eth_getBlockByNumber'',
      ''eth_getTransactionByHash'', ''eth_getTransactionCount'', ''eth_getTransactionReceipt'',
      ''eth_getBlockTransactionCountByHash'', ''eth_getBlockTransactionCountByNumber'',
      ''eth_getTransactionByBlockHashAndIndex'', ''eth_getTransactionByBlockNumberAndIndex'',
      ''eth_getBalance'', ''eth_getCode'', ''eth_getStorageAt'', ''eth_accounts'', ''eth_getLogs'',
      ''eth_gasPrice'', ''net_version'', ''eth_chainId'', ''web3_clientVersion'']"

definition hsc_http_black :: "string list" where
  "hsc_http_black =
     [''eth_newFilter'', ''eth_newBlockFilter'', ''eth_newPendingTransactionFilter'',
      ''eth_uninstallFilter'', ''eth_getFilterChanges'', ''eth_getFilterLogs'', ''eth_subscribe'',
      ''eth_unsubscribe'']"

definition hsc_cacheable :: "string list" where
  "hsc_cacheable =
     [''eth_getBlockByHash'', ''eth_getBlockByNumber'', ''eth_getBlockTransactionCountByHash'',
      ''eth_getBlockTransactionCountByNumber'', ''eth_getUncleCountByBlockHash'',
      ''eth_getUncleCountByBlockNumber'', ''eth_protocolVersion'', ''eth_chainId'',
      ''eth_blockNumber'', ''eth_gasPrice'', ''eth_feeHistory'', ''eth_getBalance'',
      ''eth_getStorageAt'', ''eth_getTransactionCount'', ''eth_getCode'', ''eth_getTransactionByHash'',
      ''eth_getTransactionByBlockHashAndIndex'', ''eth_getTransactionByBlockNumberAndIndex'',
      ''eth_getTransactionReceipt'', ''net_version'', ''net_listening'', ''web3_clientVersion'']"

definition solana_cacheable :: "string list" where
  "solana_cacheable =
     [''getAccountInfo'', ''getBalance'', ''getBlock'', ''getBlockHeight'', ''getBlockProduction'',
      ''getBlockCommitment'', ''getBlocks'', ''getBlocksWithLimit'', ''getBlockTime'',
      ''getClusterNodes'', ''getEpochInfo'', ''getEpochSchedule'', ''getFeeForMessage'',
      ''getFirstAvailableBlock'', ''getGenesisHash'', ''getHealth'', ''getHighestSnapshotSlot'',
      ''getIdentity'', ''getInflationGovernor'', ''getInflationRate'', ''getInflationReward'',
      ''getLargestAccounts'', ''getLatestBlockhash'', ''getLeaderSchedule'', ''getMaxRetransmitSlot'',
      ''getMaxShredInsertSlot'', ''getMinimumBalanceForRentExemption'', ''getMultipleAccounts'',
      ''getProgramAccounts'', ''getRecentPerformanceSamples'', ''getSignaturesForAddress'',
      ''getSignatureStatuses'', ''getSlot'', ''getSlotLeader'', ''getSlotLeaders'',
      ''getStakeActivation'', ''getSupply'', ''getTokenAccountBalance'',
      ''getTokenAccountsByDelegate'', ''getTokenAccountsByOwner'', ''getTokenLargestAccounts'',
      ''getTokenSupply'', ''getTransaction'', ''getTransactionCount'', ''getVersion'',
      ''getVoteAccounts'', ''isBlockhashValid'', ''minimumLedgerSlot'', ''getConfirmedBlock'',
      ''getConfirmedBlocks'', ''getConfirmedBlocksWithLimit'', ''getConfirmedSignaturesForAddress2'',
      ''getConfirmedTransaction'', ''getFeeCalculatorForBlockhash'', ''getFeeRateGovernor'',
      ''getFees'', ''getRecentBlockhash'', ''getSnapshotSlot'']"

definition tendermint_http_black :: "string list" where
  "tendermint_http_black =
     [''dial_seeds'', ''dial_peers'']"

definition tendermint_cacheable :: "string list" where
  "tendermint_cacheable =
     [''abci_info'', ''block'', ''block_by_hash'', ''block_results'', ''block_search'', ''blockchain'',
      ''health'', ''status'', ''commit'', ''validators'', ''genesis'', ''unconfirmed_txs'',
      ''num_unconfirmed_txs'', ''tx'', ''commit'', ''net_info'', ''blockchain'', ''validators'',
      ''dump_consensus_state'', ''consensus_state'', ''consensus_params'', ''genesis'',
      ''genesis_chunked'', ''tx_search'', ''abci_query'']"

section \<open>The init functions\<close>

text \<open>\<open>K\<close> gives the constants.  Each of the functions returns nil.\<close>

definition init_eth_handler :: "(chain \<Rightarrow> chain_constant) \<Rightarrow> app \<Rightarrow> app" where
  "init_eth_handler K a =
     (let us = cf_upstream (app_config a);
          cfg = \<lparr>http_upstream = us_http (us_eth us), ws_upstream = us_ws (us_eth us),
                 http_erigon_stream = us_http (us_erigon us), ws_erigon_upstream = us_ws (us_erigon us),
                 cache_time = 12, chain_id = cc_chain_id (K Eth), cacheable_methods = eth_cacheable\<rparr>
      in set_handlers Eth (new_json_rpc_handler (K Eth) eth_http_black eth_erigon [] evm_just_white cfg a) a)"

definition init_polygon_handler :: "(chain \<Rightarrow> chain_constant) \<Rightarrow> app \<Rightarrow> app" where
  "init_polygon_handler K a =
     (let cfg = plain_proxy (us_polygon (cf_upstream (app_config a))) 2 (K Polygon) polygon_cacheable
      in set_handlers Polygon (new_json_rpc_handler (K Polygon) polygon_http_black [] [] evm_just_white cfg a) a)"

definition init_arbitrum_handler :: "(chain \<Rightarrow> chain_constant) \<Rightarrow> app \<Rightarrow> app" where
  "init_arbitrum_handler K a =
     (let cfg = plain_proxy (us_arbitrum (cf_upstream (app_config a))) 1 (K Arbitrum) arbitrum_cacheable
      in set_handlers Arbitrum (new_json_rpc_handler (K Arbitrum) arbitrum_http_black [] [] evm_just_white cfg a) a)"

definition init_solana_handler :: "(chain \<Rightarrow> chain_constant) \<Rightarrow> app \<Rightarrow> app" where
  "init_solana_handler K a =
     (let cfg = plain_proxy (us_solana (cf_upstream (app_config a))) 1 (K Solana) solana_cacheable
      in set_handlers Solana (new_json_rpc_handler (K Solana) [] [] [] [] cfg a) a)"

definition init_hsc_handler :: "(chain \<Rightarrow> chain_constant) \<Rightarrow> app \<Rightarrow> app" where
  "init_hsc_handler K a =
     (let cfg = plain_proxy (us_hsc (cf_upstream (app_config a))) 6 (K Hsc) hsc_cacheable
      in set_handlers Hsc (new_json_rpc_handler (K Hsc) hsc_http_black [] [] evm_just_white cfg a) a)"

text \<open>Cosmos passes an empty black list, and the Tendermint black list as Erigon methods.\<close>

definition init_cosmos_handler :: "(chain \<Rightarrow> chain_constant) \<Rightarrow> app \<Rightarrow> app" where
  "init_cosmos_handler K a =
     (let cfg = plain_proxy (us_cosmos (cf_upstream (app_config a))) 6 (K Cosmos) tendermint_cacheable
      in set_handlers Cosmos (new_json_rpc_handler (K Cosmos) [] tendermint_http_black [] [] cfg a) a)"

definition init_evmos_handler :: "(chain \<Rightarrow> chain_constant) \<Rightarrow> app \<Rightarrow> app" where
  "init_evmos_handler K a =
     (let cfg = plain_proxy (us_evmos (cf_upstream (app_config a))) 4 (K Evmos) tendermint_cacheable
      in set_handlers Evmos (new_json_rpc_handler (K Evmos) tendermint_http_black [] [] [] cfg a) a)"

definition init_kava_handler :: "(chain \<Rightarrow> chain_constant) \<Rightarrow> app \<Rightarrow> app" where
  "init_kava_handler K a =
     (let cfg = plain_proxy (us_kava (cf_upstream (app_config a))) 6 (K Kava) tendermint_cacheable
      in set_handlers Kava (new_json_rpc_handler (K Kava) tendermint_http_black [] [] [] cfg a) a)"

definition init_juno_handler :: "(chain \<Rightarrow> chain_constant) \<Rightarrow> app \<Rightarrow> app" where
  "init_juno_handler K a =
     (let cfg = plain_proxy (us_juno (cf_upstream (app_config a))) 6 (K Juno) tendermint_cacheable
      in set_handlers Juno (new_json_rpc_handler (K Juno) tendermint_http_black [] [] [] cfg a) a)"

definition init_umee_handler :: "(chain \<Rightarrow> chain_constant) \<Rightarrow> app \<Rightarrow> app" where
  "init_umee_handler K a =
     (let cfg = plain_proxy (us_umee (cf_upstream (app_config a))) 6 (K Umee) tendermint_cacheable
      in set_handlers Umee (new_json_rpc_handler (K Umee) tendermint_http_black [] [] [] cfg a) a)"

definition init_gravity_handler :: "(chain \<Rightarrow> chain_constant) \<Rightarrow> app \<Rightarrow> app" where
  "init_gravity_handler K a =
     (let cfg = plain_proxy (us_gravity (cf_upstream (app_config a))) 6 (K Gravity) tendermint_cacheable
      in set_handlers Gravity (new_json_rpc_handler (K Gravity) tendermint_http_black [] [] [] cfg a) a)"

definition init_okc_handler :: "(chain \<Rightarrow> chain_constant) \<Rightarrow> app \<Rightarrow> app" where
  "init_okc_handler K a =
     (let cfg = plain_proxy (us_okc (cf_upstream (app_config a))) 3 (K OKC) tendermint_cacheable
      in set_handlers OKC (new_json_rpc_handler (K OKC) tendermint_http_black [] [] [] cfg a) a)"

definition init_irisnet_handler :: "(chain \<Rightarrow> chain_constant) \<Rightarrow> app \<Rightarrow> app" where
  "init_irisnet_handler K a =
     (let cfg = plain_proxy (us_irisnet (cf_upstream (app_config a))) 6 (K IRISnet) tendermint_cacheable
      in set_handlers IRISnet (new_json_rpc_handler (K IRISnet) tendermint_http_black [] [] [] cfg a) a)"

definition init_handlers :: "(chain \<Rightarrow> chain_constant) \<Rightarrow> app \<Rightarrow> app" where
  "init_handlers K a =
     fold (\<lambda>fn. fn K)
       [init_eth_handler, init_polygon_handler, init_arbitrum_handler, init_solana_handler, init_hsc_handler,
        init_cosmos_handler, init_evmos_handler, init_kava_handler, init_juno_handler, init_umee_handler,
        init_gravity_handler, init_okc_handler, init_irisnet_handler] a"

section \<open>What the handlers are\<close>

fun upstream_of :: "chain \<Rightarrow> upstream_config \<Rightarrow> upstream_urls" where
  "upstream_of Eth u = us_eth u"
| "upstream_of Polygon u = us_polygon u"
| "upstream_of Arbitrum u = us_arbitrum u"
| "upstream_of Solana u = us_solana u"
| "upstream_of Hsc u = us_hsc u"
| "upstream_of Cosmos u = us_cosmos u"
| "upstream_of Evmos u = us_evmos u"
| "upstream_of Kava u = us_kava u"
| "upstream_of Juno u = us_juno u"
| "upstream_of Umee u = us_umee u"
| "upstream_of Gravity u = us_gravity u"
| "upstream_of OKC u = us_okc u"
| "upstream_of IRISnet u = us_irisnet u"

definition tendermint_chain :: "chain \<Rightarrow> bool" where
  "tendermint_chain c \<longleftrightarrow> c \<in> {Cosmos, Evmos, Kava, Juno, Umee, Gravity, OKC, IRISnet}"

lemma set_handlers_simps [simp]:
  "app_config (set_handlers c h a) = app_config a" "app_whitelist (set_handlers c h a) = app_whitelist a"
  "app_rpc_config (set_handlers c h a) = app_rpc_config a"
  "app_http (set_handlers c h a) = (app_http a)(c \<mapsto> h)" "app_ws (set_handlers c h a) = (app_ws a)(c \<mapsto> h)"
  by (simp_all add: set_handlers_def)

lemmas init_function_defs =
  init_eth_handler_def init_polygon_handler_def init_arbitrum_handler_def init_solana_handler_def
  init_hsc_handler_def init_cosmos_handler_def init_evmos_handler_def init_kava_handler_def init_juno_handler_def
  init_umee_handler_def init_gravity_handler_def init_okc_handler_def init_irisnet_handler_def

lemmas method_list_defs =
  eth_http_black_def eth_erigon_def eth_cacheable_def evm_just_white_def polygon_http_black_def polygon_cacheable_def
  arbitrum_http_black_def arbitrum_cacheable_def hsc_http_black_def hsc_cacheable_def solana_cacheable_def
  tendermint_http_black_def tendermint_cacheable_def

lemma cacheable_lists_apart:
  "set eth_cacheable \<inter> (set eth_http_black \<union> set evm_just_white \<union> set eth_erigon) = {}"
  "set polygon_cacheable \<inter> (set polygon_http_black \<union> set evm_just_white) = {}"
  "set arbitrum_cacheable \<inter> (set arbitrum_http_black \<union> set evm_just_white) = {}"
  "set hsc_cacheable \<inter> (set hsc_http_black \<union> set evm_just_white) = {}"
  "set tendermint_cacheable \<inter> set tendermint_http_black = {}"
  by code_simp+

text \<open>The handlers of every chain, as the init functions leave them.\<close>

lemma init_handlers_same: "app_ws a = app_http a \<Longrightarrow> app_ws (init_handlers K a) = app_http (init_handlers K a)"
  by (simp add: init_handlers_def init_function_defs Let_def)

lemma init_handlers_kept:
  "app_rpc_config (init_handlers K a) = app_rpc_config a" "app_config (init_handlers K a) = app_config a"
  "app_whitelist (init_handlers K a) = app_whitelist a"
  by (simp_all add: init_handlers_def init_function_defs Let_def)

definition handler_ok :: "(chain \<Rightarrow> chain_constant) \<Rightarrow> app \<Rightarrow> chain \<Rightarrow> json_handler \<Rightarrow> bool" where
  "handler_ok K a c h \<longleftrightarrow>
     h_chain_id h = cc_chain_id (K c) \<and> chain_id (h_proxy h) = cc_chain_id (K c) \<and> h_whitelist h = app_whitelist a \<and>
     h_whitelist h = app_whitelist a \<and> 0 < cache_time (h_proxy h) \<and>
     http_upstream (h_proxy h) = us_http (upstream_of c (cf_upstream (app_config a))) \<and>
     ws_upstream (h_proxy h) = us_ws (upstream_of c (cf_upstream (app_config a))) \<and>
     set (cacheable_methods (h_proxy h)) \<inter>
       (set (http_black_methods h) \<union> set (just_white_methods h) \<union> set (erigon_methods h)) = {} \<and>
     (tendermint_chain c \<longrightarrow> set (http_black_methods h) = (if c = Cosmos then {} else {''dial_seeds'', ''dial_peers''}))"

lemma init_handlers_ok: "\<exists>h. app_http (init_handlers K a) c = Some h \<and> handler_ok K a c h"
  using cacheable_lists_apart
  by (cases c)
     (simp_all add: init_handlers_def init_function_defs Let_def handler_ok_def new_json_rpc_handler_def plain_proxy_def
       tendermint_chain_def tendermint_http_black_def [THEN arg_cong [where f = set]])

lemma init_handlers_total:
  obtains H where "\<And>c. app_http (init_handlers K a) c = Some (H c)"
  using init_handlers_ok [of K a] by metis

section \<open>Properties\<close>

text \<open>
  C22. Every chain is wired.  After the init functions, HTTP and WebSocket requests of a chain
  meet the same handler; it charges and caches under that chain's id, talks to that chain's
  node, keeps results for a positive time, and caches no method that is on its black list,
  reserved for whitelisted keys, or sent to Erigon.
\<close>

theorem every_chain_is_wired:
  "app_http a0 = Map.empty \<and> app_ws a0 = Map.empty \<Longrightarrow>
   \<exists>h. app_http (init_handlers K a0) c = Some h \<and> app_ws (init_handlers K a0) c = Some h \<and>
     h_chain_id h = cc_chain_id (K c) \<and> chain_id (h_proxy h) = cc_chain_id (K c) \<and>
     http_upstream (h_proxy h) = us_http (upstream_of c (cf_upstream (app_config a0))) \<and>
     ws_upstream (h_proxy h) = us_ws (upstream_of c (cf_upstream (app_config a0))) \<and>
     0 < cache_time (h_proxy h) \<and>
     (\<forall>m \<in> set (cacheable_methods (h_proxy h)).
        m \<notin> set (http_black_methods h) \<and> m \<notin> set (just_white_methods h) \<and> m \<notin> set (erigon_methods h))"
  using init_handlers_ok [of K a0 c] init_handlers_same [of a0 K] by (auto simp: handler_ok_def)

definition demo_urls :: "string \<Rightarrow> upstream_urls" where
  "demo_urls n = \<lparr>us_http = ''http://'' @ n, us_ws = ''ws://'' @ n\<rparr>"

definition demo_app :: app where
  "demo_app =
     \<lparr>app_config =
        \<lparr>cf_listen = '':80'',
         cf_upstream =
           \<lparr>us_eth = demo_urls ''eth'', us_erigon = demo_urls ''erigon'', us_polygon = demo_urls ''polygon'',
            us_arbitrum = demo_urls ''arbitrum'', us_solana = demo_urls ''solana'', us_hsc = demo_urls ''hsc'',
            us_cosmos = demo_urls ''cosmos'', us_evmos = demo_urls ''evmos'', us_kava = demo_urls ''kava'',
            us_juno = demo_urls ''juno'', us_umee = demo_urls ''umee'', us_gravity = demo_urls ''gravity'',
            us_okc = demo_urls ''okc'', us_irisnet = demo_urls ''irisnet''\<rparr>,
         cf_log_level = ''info'', cf_is_dev = False, cf_log_file = [],
         cf_mysql = \<lparr>ms_database = ''starnet'', ms_host = ''db'', ms_port = 3306, ms_user = ''root'', ms_password = []\<rparr>,
         cf_ipfs_schemes = ''http'', cf_ipfs_host = ''ipfs'',
         cf_ipfs_port = 9094\<rparr>,
      app_rpc_config = None, app_whitelist = [], app_http = Map.empty, app_ws = Map.empty\<rparr>"

definition demo_constant :: "chain \<Rightarrow> chain_constant" where
  "demo_constant c = \<lparr>cc_chain_id = size (takeWhile (\<lambda>d. d \<noteq> c) all_chains), cc_name = ''chain''\<rparr>"

theorem every_chain_is_wired_witness:
  "\<exists>h. app_http (init_handlers demo_constant demo_app) Kava = Some h \<and> http_upstream (h_proxy h) = ''http://kava''"
  using every_chain_is_wired [of demo_app demo_constant Kava] by (auto simp: demo_app_def demo_urls_def)

text \<open>
  C25. Peers can be dialled through Cosmos alone.  A request whose path ends in dial_seeds or
  dial_peers, written so and followed by nothing or by a query without a slash, is refused on every
  Tendermint chain but Cosmos: the reply is the error for unsupported methods, no node is asked and
  nothing is charged.  Cosmos, whose handler was given its two lists in the wrong order, lets it
  through, with its path and its query.  (A spelling with percent escapes is another path here: it is
  not covered, and no chain refuses it.)
\<close>

theorem only_cosmos_lets_peers_be_dialled:
  assumes "tendermint_chain c" "app_http (init_handlers K a) c = Some h" "p \<in> {''dial_seeds'', ''dial_peers''}"
    and "request_uri q = prefix @ ''/'' @ p @ rest" "CHR ''/'' \<notin> set rest" "rest = [] \<or> hd rest = CHR ''?''"
    and "new_logger q = Ret ()" "bind_api_key q = Inr k" "p \<noteq> k"
  shows "(c \<noteq> Cosmos \<longrightarrow> (\<forall>E. TendermintHttp E h q s = (Ret (ReplyJson 200 (new_unsupported_method_error None)), s))) \<and>
    (c = Cosmos \<longrightarrow> admit_tendermint h q s =
       (Ret (Inr (k, \<lparr>tm_path = p, tm_query = ''?'' @ filter (\<lambda>x. x \<noteq> CHR ''?'') rest\<rparr>)), s))"
proof -
  have "set (http_black_methods h) = (if c = Cosmos then {} else {''dial_seeds'', ''dial_peers''})"
    using init_handlers_ok [of K a c] assms(1,2) by (auto simp: handler_ok_def)
  moreover have "CHR ''/'' \<notin> set p" "CHR ''?'' \<notin> set p" using assms(3) by auto
  ultimately have "tendermint_path_bind k (request_uri q) (http_black_methods h) =
    (if c = Cosmos then Inr \<lparr>tm_path = p, tm_query = ''?'' @ filter (\<lambda>x. x \<noteq> CHR ''?'') rest\<rparr>
     else Inl (new_unsupported_method_error None))"
    using tendermint_path_parts [of p rest k prefix] assms(3-6,9) by auto
  then show ?thesis
    using assms(7,8) by (auto simp: TendermintHttp_def admit_tendermint_def split: prod.splits)
qed

theorem only_cosmos_lets_peers_be_dialled_witness:
  "\<exists>h h'. app_http (init_handlers demo_constant demo_app) Cosmos = Some h \<and>
     app_http (init_handlers demo_constant demo_app) Kava = Some h' \<and>
     admit_tendermint h (demo_request ''/v1/k/dial_seeds?seeds=x'' []) (0, ()) =
       (Ret (Inr (''k'', \<lparr>tm_path = ''dial_seeds'', tm_query = ''?seeds=x''\<rparr>)), (0, ())) \<and>
     TendermintHttp (demo_env []) h' (demo_request ''/v1/k/dial_seeds'' []) (0, demo_start) =
       (Ret (ReplyJson 200 (new_unsupported_method_error None)), (0, demo_start))"
proof -
  obtain h h' where h: "app_http (init_handlers demo_constant demo_app) Cosmos = Some h"
    and h': "app_http (init_handlers demo_constant demo_app) Kava = Some h'"
    using init_handlers_ok by meson
  have q: "new_logger (demo_request (''/v1/k/dial_seeds'' @ rest) []) = Ret ()"
    "bind_api_key (demo_request (''/v1/k/dial_seeds'' @ rest) []) = Inr ''k''" for rest
    by (cases "str_split (CHR ''/'') rest"; simp add: new_logger_def bind_api_key_def demo_request_def)+
  show ?thesis
    using only_cosmos_lets_peers_be_dialled [OF _ h _ _ _ _ q(1) q(2),
        where p = "''dial_seeds''" and prefix = "''/v1/k''" and rest = "''?seeds=x''" and s = "(0, ())"] h
      only_cosmos_lets_peers_be_dialled [OF _ h' _ _ _ _ q(1) q(2),
        where p = "''dial_seeds''" and prefix = "''/v1/k''" and rest = "[]" and s = "(0, demo_start)"] h'
    by (auto simp: tendermint_chain_def demo_request_def)
qed

end
