(* ===== verification/Net.thy ===== *)
theory Net
  imports JsonRpc
begin

text \<open>
  HTTP and WebSocket as the program uses them: headers and their canonical names, host and
  port of an address, and the client operations, which are parameters.
\<close>

section \<open>Headers\<close>

type_synonym header = "string \<Rightarrow> string list option"

text \<open>\<^verbatim>\<open>http.CanonicalHeaderKey\<close>: a name with a byte that no token may have is left alone.\<close>

definition token_char :: "char \<Rightarrow> bool" where
  "token_char c \<longleftrightarrow>
     (let n = byte c in (48 \<le> n \<and> n \<le> 57) \<or> (65 \<le> n \<and> n \<le> 90) \<or> (97 \<le> n \<and> n \<le> 122) \<or>
        n \<in> {33, 35, 36, 37, 38, 39, 42, 43, 45, 46, 94, 95, 96, 124, 126})"

definition lower_char :: "char \<Rightarrow> char" where
  "lower_char c = (if 65 \<le> byte c \<and> byte c \<le> 90 then char_of (byte c + 32) else c)"

fun title_from :: "bool \<Rightarrow> string \<Rightarrow> string" where
  "title_from up [] = []"
| "title_from up (c # cs) = (if up then ascii_upper c else lower_char c) # title_from (c = CHR ''-'') cs"

definition canonical_key :: "string \<Rightarrow> string" where
  "canonical_key k = (if list_all token_char k then title_from True k else k)"

definition header_del :: "string \<Rightarrow> header \<Rightarrow> header" where
  "header_del k h = h(canonical_key k := None)"

definition header_set :: "string \<Rightarrow> string \<Rightarrow> header \<Rightarrow> header" where
  "header_set k v h = h(canonical_key k \<mapsto> [v])"

definition header_get :: "string \<Rightarrow> header \<Rightarrow> string" where
  "header_get k h = (case h (canonical_key k) of Some (v # _) \<Rightarrow> v | _ \<Rightarrow> [])"

lemma header_ops_apply:
  "header_del k h j = (if j = canonical_key k then None else h j)"
  "header_set k v h j = (if j = canonical_key k then Some [v] else h j)"
  by (simp_all add: header_del_def header_set_def)

section \<open>Addresses\<close>

fun index_of :: "char \<Rightarrow> string \<Rightarrow> nat option" where
  "index_of c [] = None"
| "index_of c (x # xs) = (if x = c then Some 0 else map_option Suc (index_of c xs))"

definition last_index_of :: "char \<Rightarrow> string \<Rightarrow> nat option" where
  "last_index_of c s = map_option (\<lambda>i. length s - 1 - i) (index_of c (rev s))"

text \<open>\<^verbatim>\<open>net.SplitHostPort\<close>; the zone of an IPv6 address stays in the host.\<close>

definition split_host_port :: "string \<Rightarrow> gerr + (string \<times> string)" where
  "split_host_port s =
     (case last_index_of (CHR '':'') s of
        None \<Rightarrow> Inl ''missing port in address''
      | Some i \<Rightarrow>
          if hd s = CHR ''['' then
            (case index_of (CHR '']'') s of
               None \<Rightarrow> Inl ''missing ']' in address''
             | Some e \<Rightarrow>
                 if e + 1 = length s then Inl ''missing port in address''
                 else if e + 1 \<noteq> i then
                   (if s ! (e + 1) = CHR '':'' then Inl ''too many colons in address'' else Inl ''missing port in address'')
                 else if CHR ''['' \<in> set (drop 1 s) then Inl ''unexpected '[' in address''
                 else if CHR '']'' \<in> set (drop (e + 1) s) then Inl ''unexpected ']' in address''
                 else Inr (take (e - 1) (drop 1 s), drop (i + 1) s))
          else if CHR '':'' \<in> set (take i s) then Inl ''too many colons in address''
          else if CHR ''['' \<in> set s then Inl ''unexpected '[' in address''
          else if CHR '']'' \<in> set s then Inl ''unexpected ']' in address''
          else Inr (take i s, drop (i + 1) s))"

lemma index_of_append: "c \<notin> set s \<Longrightarrow> index_of c (s @ c # t) = Some (length s)"
  by (induction s) auto

lemma last_index_of_append: "c \<notin> set t \<Longrightarrow> last_index_of c (s @ c # t) = Some (length s)"
  using index_of_append [of c "rev t" "rev s"] by (simp add: last_index_of_def)

text \<open>An IPv4 address or a host name with a port.\<close>

lemma split_host_port_plain:
  assumes "{CHR '':'', CHR ''['', CHR '']''} \<inter> set host = {}" "{CHR '':'', CHR ''['', CHR '']''} \<inter> set port = {}"
  shows "split_host_port (host @ '':'' @ port) = Inr (host, port)"
proof -
  have "last_index_of (CHR '':'') (host @ CHR '':'' # port) = Some (length host)"
    using assms by (intro last_index_of_append) auto
  moreover have "hd (host @ CHR '':'' # port) \<noteq> CHR ''[''"
    using assms by (cases host) auto
  ultimately show ?thesis using assms by (auto simp: split_host_port_def)
qed

text \<open>An IPv6 address in brackets with a port.\<close>

lemma split_host_port_bracketed:
  assumes "{CHR ''['', CHR '']''} \<inter> set host = {}" "{CHR '':'', CHR ''['', CHR '']''} \<inter> set port = {}"
  shows "split_host_port (''['' @ host @ '']:'' @ port) = Inr (host, port)"
proof -
  have "last_index_of (CHR '':'') ((''['' @ host @ '']'') @ CHR '':'' # port) = Some (length (''['' @ host @ '']''))"
    using assms by (intro last_index_of_append) auto
  then have "last_index_of (CHR '':'') (''['' @ host @ '']:'' @ port) = Some (length host + 2)"
    by simp
  moreover have "index_of (CHR '']'') ((''['' @ host) @ CHR '']'' # ('':'' @ port)) = Some (length (''['' @ host))"
    using assms by (intro index_of_append) auto
  then have "index_of (CHR '']'') (''['' @ host @ '']:'' @ port) = Some (length host + 1)" by simp
  ultimately show ?thesis using assms by (auto simp: split_host_port_def)
qed

text \<open>The address of a client: its host, and a port.\<close>

definition address_of :: "string \<Rightarrow> string \<Rightarrow> bool" where
  "address_of addr host \<longleftrightarrow>
     (\<exists>port. {CHR '':'', CHR ''['', CHR '']''} \<inter> set port = {} \<and> {CHR ''['', CHR '']''} \<inter> set host = {} \<and>
        (addr = host @ '':'' @ port \<and> CHR '':'' \<notin> set host \<or> addr = ''['' @ host @ '']:'' @ port))"

lemma split_address: "address_of addr host \<Longrightarrow> \<exists>port. split_host_port addr = Inr (host, port)"
  unfolding address_of_def using split_host_port_plain split_host_port_bracketed by fastforce

section \<open>The clients\<close>

text \<open>A body that was not given is \<open>None\<close>.\<close>

record http_call =
  hc_method :: string
  hc_url :: string
  hc_header :: header
  hc_body :: "bytes option"

record http_answer =
  ha_status :: nat
  ha_header :: "(string \<times> string list) list"
  ha_body :: "(gerr + bytes) option"

text \<open>
  \<open>new_request\<close> is the error of \<^verbatim>\<open>http.NewRequest\<close>, if any; \<open>http_do\<close> may yield
  a nil response.  A WebSocket connection is a number; its messages carry a type.
\<close>

record 'w net_env =
  new_request :: "string \<Rightarrow> string \<Rightarrow> gerr option"
  http_do :: "http_call \<Rightarrow> 'w \<Rightarrow> (gerr + http_answer option) \<times> 'w"
  ws_dial :: "string \<Rightarrow> 'w \<Rightarrow> (gerr \<times> http_answer option + nat) \<times> 'w"
  ws_write :: "nat \<Rightarrow> bytes \<Rightarrow> 'w \<Rightarrow> gerr option \<times> 'w"
  ws_read :: "nat \<Rightarrow> 'w \<Rightarrow> (gerr + nat \<times> bytes) \<times> 'w"
  ws_close :: "nat \<Rightarrow> 'w \<Rightarrow> 'w"

definition TextMessage :: nat where
  "TextMessage = 1"

definition json_header :: header where
  "json_header = header_set ''Content-Type'' ''application/json'' Map.empty"

end
