(* ===== verification/Prometheus.thy ===== *)
theory Prometheus
  imports Net
begin

text \<open>\<^verbatim>\<open>pkg/prometheus/push.go\<close>: error counts pushed to a Prometheus gateway.\<close>

record error_num_metric =
  mt_node_name :: string
  mt_error_num :: int

definition metric_text :: "error_num_metric \<Rightarrow> string" where
  "metric_text m =
     ''error_num{node='' @ [CHR 0x22] @ mt_node_name m @ [CHR 0x22] @ ''} '' @ show_int (mt_error_num m)"

definition metrics_body :: "error_num_metric list \<Rightarrow> bytes" where
  "metrics_body ms = concat (map (\<lambda>m. metric_text m @ [char_of (10::nat)]) ms)"

text \<open>With an empty base nothing is pushed: \<open>report_node_errors\<close> of \<open>Health\<close> does not come here.\<close>

definition push_url :: "string \<Rightarrow> string \<Rightarrow> string" where
  "push_url base network = base @ ''/metrics/job/rpc_nde/instance/rpc_nde_error/network/'' @ network"

definition push_body :: "('w, 'x) net_env_scheme \<Rightarrow> string \<Rightarrow> string \<Rightarrow> bytes \<Rightarrow> 'w \<Rightarrow> gerr option \<times> 'w" where
  "push_body N base network body w =
     (let url = push_url base network in
      case new_request N ''POST'' url of
        Some e \<Rightarrow> (Some e, w)
      | None \<Rightarrow>
          (case http_do N \<lparr>hc_method = ''POST'', hc_url = url,
                  hc_header = header_set ''Content-Type'' ''text/plain; version=0.0.4; charset=utf-8'' Map.empty,
                  hc_body = Some body\<rparr> w of
             (Inl e, w1) \<Rightarrow> (Some e, w1)
           | (Inr None, w1) \<Rightarrow> (Some ''pushgateway returned nil response'', w1)
           | (Inr (Some a), w1) \<Rightarrow>
               if ha_status a < 200 \<or> 300 \<le> ha_status a
               then (Some (''pushgateway returned status '' @ show_nat (ha_status a)), w1)
               else (None, w1)))"

text \<open>A failure is printed.\<close>

definition push_metrics :: "('w, 'x) net_env_scheme \<Rightarrow> string \<Rightarrow> string \<Rightarrow> error_num_metric list \<Rightarrow> 'w \<Rightarrow> 'w" where
  "push_metrics N base network ms w = snd (push_body N base network (metrics_body ms) w)"

end
