(* ===== verification/Health.thy ===== *)
theory Health
  imports Prometheus Config Utils
begin

text \<open>
  The health checks of \<^verbatim>\<open>pkg/handler/rpcHandler.go\<close>: a round asks every node of a chain
  for its block height, over HTTP and over a WebSocket (or Tron's second API), and marks an
  endpoint healthy when it is at most \<open>max_behind_blocks\<close> behind the highest height seen.
  Parameters beside the clients: the jq engine, the maximum of a list (of the package lo), and
  what the conversion of a float that does not fit gives.
\<close>

section \<open>Environment, nodes and the handler\<close>

record ('q, 'w) probe_env = "'w net_env" +
  jq_parse :: "string \<Rightarrow> gerr + 'q"
  jq_first :: "'q \<Rightarrow> any \<Rightarrow> jq_item option"
  float_u64 :: nat
  float_i64 :: int
  lo_max :: "int list \<Rightarrow> int"

text \<open>\<^verbatim>\<open>rpcNode\<close> embeds the node's configuration.\<close>

record rpc_node = rpc_node_config +
  http_health :: bool
  ws_health :: bool
  extra_write_health :: bool

text \<open>\<open>rh_api_key\<close> is the \<^verbatim>\<open>ApiKey\<close> of the application's RPC configuration.\<close>

record 'q rpc_handler =
  rh_config :: chain_config
  rh_nodes :: "rpc_node list"
  rh_error_counts :: "int list"
  rh_query :: 'q
  rh_tron_query :: "'q option"
  rh_api_key :: string

definition new_rpc_node :: "rpc_node_config \<Rightarrow> rpc_node" where
  "new_rpc_node n =
     \<lparr>node_name = node_name n, node_http = node_http n, node_ws = node_ws n,
      node_extra_write = node_extra_write n, http_health = (node_http n \<noteq> []),
      ws_health = (node_ws n \<noteq> []), extra_write_health = (node_extra_write n \<noteq> [])\<rparr>"

definition new_rpc_handler ::
  "('q, 'w, 'x) probe_env_scheme \<Rightarrow> chain_config \<Rightarrow> string \<Rightarrow> gerr + 'q rpc_handler" where
  "new_rpc_handler E cfg key =
     (if block_number_result_extractor cfg \<noteq> ''jq'' then Inl ''unsupported block number result extractor''
      else case jq_parse E (block_number_result_expression cfg) of
        Inl e \<Rightarrow> Inl ''failed to parse block number result expression''
      | Inr query \<Rightarrow>
          (let tron = (if chain_type cfg = ''tron''
                       then map_sum id Some (jq_parse E ''.block_header.raw_data.number'') else Inr None)
           in case tron of
                Inl e \<Rightarrow> Inl ''failed to parse tron extra write jq query''
              | Inr tq \<Rightarrow>
                  Inr \<lparr>rh_config = cfg, rh_nodes = map new_rpc_node (chain_nodes cfg),
                    rh_error_counts = replicate (length (chain_nodes cfg)) 0, rh_query = query,
                    rh_tron_query = tq, rh_api_key = key\<rparr>))"

section \<open>Choosing a node\<close>

definition get_healthy_node :: "'q rpc_handler \<Rightarrow> gerr + rpc_node" where
  "get_healthy_node h =
     (case find http_health (rh_nodes h) of
        Some n \<Rightarrow> Inr n | None \<Rightarrow> Inl ''no healthy HTTP RPC node found'')"

definition get_healthy_extra_write_node :: "'q rpc_handler \<Rightarrow> gerr + rpc_node" where
  "get_healthy_extra_write_node h =
     (case find extra_write_health (rh_nodes h) of
        Some n \<Rightarrow> Inr n | None \<Rightarrow> Inl ''no healthy extra write rpc node found'')"

definition get_healthy_ws_node :: "'q rpc_handler \<Rightarrow> gerr + rpc_node" where
  "get_healthy_ws_node h =
     (case find ws_health (rh_nodes h) of
        Some n \<Rightarrow> Inr n | None \<Rightarrow> Inl ''no healthy ws rpc node found'')"

text \<open>The three searches choose the first node of the list with their flag.\<close>

locale first_healthy =
  fixes healthy :: "rpc_node \<Rightarrow> bool"
    and pick :: "'q rpc_handler \<Rightarrow> gerr + rpc_node"
    and none :: gerr
  assumes pick_is_find:
    "pick h = (case find healthy (rh_nodes h) of Some n \<Rightarrow> Inr n | None \<Rightarrow> Inl none)"
begin

lemma chosen_iff:
  "pick h = Inr n \<longleftrightarrow>
     (\<exists>i < length (rh_nodes h). rh_nodes h ! i = n \<and> healthy n \<and> (\<forall>j < i. \<not> healthy (rh_nodes h ! j)))"
proof -
  have "pick h = Inr n \<longleftrightarrow> find healthy (rh_nodes h) = Some n"
    by (simp add: pick_is_find split: option.split)
  then show ?thesis by (auto simp: find_Some_iff)
qed

lemma none_iff: "pick h = Inl e \<longleftrightarrow> e = none \<and> (\<forall>n \<in> set (rh_nodes h). \<not> healthy n)"
proof -
  have "pick h = Inl e \<longleftrightarrow> e = none \<and> find healthy (rh_nodes h) = None"
    by (auto simp: pick_is_find split: option.split)
  then show ?thesis by (auto simp: find_None_iff)
qed

lemma chosen_healthy: "pick h = Inr n \<Longrightarrow> healthy n \<and> n \<in> set (rh_nodes h)"
  by (auto simp: chosen_iff)

end

interpretation http_choice: first_healthy http_health get_healthy_node "''no healthy HTTP RPC node found''"
  by unfold_locales (rule get_healthy_node_def)

interpretation ws_choice: first_healthy ws_health get_healthy_ws_node "''no healthy ws rpc node found''"
  by unfold_locales (rule get_healthy_ws_node_def)

interpretation extra_write_choice: first_healthy extra_write_health get_healthy_extra_write_node
    "''no healthy extra write rpc node found''"
  by unfold_locales (rule get_healthy_extra_write_node_def)

section \<open>Reading a height\<close>

fun num_error_text :: "num_error \<Rightarrow> gerr" where
  "num_error_text ErrSyntax = ''invalid syntax''"
| "num_error_text ErrRange = ''value out of range''"
| "num_error_text ErrOverflow = ''overflow''"

text \<open>What a reply says, by the jq query and \<^verbatim>\<open>ToUint64\<close>.\<close>

definition height_of :: "('q, 'w, 'x) probe_env_scheme \<Rightarrow> 'q \<Rightarrow> bytes \<Rightarrow> gerr + nat" where
  "height_of E q body =
     (case jq_query_first (jq_first E) body q of
        Inl e \<Rightarrow> Inl e
      | Inr result \<Rightarrow>
          (case to_uint64 (float_u64 E) result of
             Inl e \<Rightarrow> Inl (num_error_text e)
           | Inr n \<Rightarrow> Inr n))"

definition get_block_number_from_http ::
  "('q, 'w, 'x) probe_env_scheme \<Rightarrow> http_call \<Rightarrow> 'q \<Rightarrow> 'w \<Rightarrow> (gerr + nat) \<times> 'w" where
  "get_block_number_from_http E req q w =
     (case http_do E req w of
        (Inl e, w1) \<Rightarrow> (Inl e, w1)
      | (Inr None, w1) \<Rightarrow> (Inl ''response is nil'', w1)
      | (Inr (Some a), w1) \<Rightarrow>
          (case ha_body a of
             None \<Rightarrow> (Inl ''response is nil'', w1)
           | Some (Inl e) \<Rightarrow> (Inl e, w1)
           | Some (Inr body) \<Rightarrow> (height_of E q body, w1)))"

definition get_block_number_from_http_json_rpc ::
  "('q, 'w, 'x) probe_env_scheme \<Rightarrow> string \<Rightarrow> bytes \<Rightarrow> 'q \<Rightarrow> 'w \<Rightarrow> (gerr + nat) \<times> 'w" where
  "get_block_number_from_http_json_rpc E url content q w =
     (case new_request E ''POST'' url of
        Some e \<Rightarrow> (Inl e, w)
      | None \<Rightarrow>
          get_block_number_from_http E
            \<lparr>hc_method = ''POST'', hc_url = url, hc_header = json_header, hc_body = Some content\<rparr> q w)"

definition get_block_number_from_aptos_http ::
  "('q, 'w, 'x) probe_env_scheme \<Rightarrow> string \<Rightarrow> 'q \<Rightarrow> 'w \<Rightarrow> (gerr + nat) \<times> 'w" where
  "get_block_number_from_aptos_http E url q w =
     (case new_request E ''GET'' url of
        Some e \<Rightarrow> (Inl e, w)
      | None \<Rightarrow>
          get_block_number_from_http E
            \<lparr>hc_method = ''GET'', hc_url = url, hc_header = Map.empty, hc_body = None\<rparr> q w)"

definition dial_ws :: "('q, 'w, 'x) probe_env_scheme \<Rightarrow> string \<Rightarrow> 'w \<Rightarrow> (gerr + nat) \<times> 'w" where
  "dial_ws E url w =
     (case ws_dial E url w of
        (Inr conn, w1) \<Rightarrow> (Inr conn, w1)
      | (Inl (err, resp), w1) \<Rightarrow>
          (let respText =
             (case resp of
                None \<Rightarrow> ''<nil>''
              | Some a \<Rightarrow> show_nat (ha_status a) @
                  (case ha_body a of
                     None \<Rightarrow> '' body: <nil>''
                   | Some (Inr body) \<Rightarrow> '' body: '' @ body
                   | Some (Inl e) \<Rightarrow> '' body: <nil>: read resp body error: '' @ e))
           in (Inl (''failed to dial websocket: '' @ err @ [char_of (10::nat)] @ ''response: '' @ respText), w1)))"

definition ws_height_of :: "('q, 'w, 'x) probe_env_scheme \<Rightarrow> 'q \<Rightarrow> bytes \<Rightarrow> gerr + nat" where
  "ws_height_of E q message =
     (case height_of E q message of
        Inl e \<Rightarrow> Inl e
      | Inr n \<Rightarrow> if n = 0 then Inl ''main WS blockNumber is 0'' else Inr n)"

text \<open>The read loop of both WebSocket probes; it may wait for ever.\<close>

partial_function (option) await_height ::
  "('q, 'w, 'x) probe_env_scheme \<Rightarrow> nat \<Rightarrow> 'q \<Rightarrow> 'w \<Rightarrow> ((gerr + nat) \<times> 'w) option" where
  "await_height E conn q w =
     (case ws_read E conn w of
        (Inl e, w1) \<Rightarrow> Some (Inl e, w1)
      | (Inr (ty, message), w1) \<Rightarrow>
          if ty \<noteq> TextMessage then await_height E conn q w1
          else Some (ws_height_of E q message, w1))"

declare await_height.simps [code]

definition get_block_number_from_evm_ws ::
  "('q, 'w, 'x) probe_env_scheme \<Rightarrow> string \<Rightarrow> bytes \<Rightarrow> 'q \<Rightarrow> 'w \<Rightarrow> ((gerr + nat) \<times> 'w) option" where
  "get_block_number_from_evm_ws E url content q w =
     (case dial_ws E url w of
        (Inl e, w1) \<Rightarrow> Some (Inl e, w1)
      | (Inr conn, w1) \<Rightarrow>
          (case ws_write E conn content w1 of
             (Some e, w2) \<Rightarrow> Some (Inl e, ws_close E conn w2)
           | (None, w2) \<Rightarrow> map_option (\<lambda>(r, w3). (r, ws_close E conn w3)) (await_height E conn q w2)))"

definition f_to_i64 :: "int \<Rightarrow> f64 \<Rightarrow> int" where
  "f_to_i64 impl f =
     (let n = (if f_neg f then - int (f_trunc f) else int (f_trunc f))
      in if - (2 ^ 63) \<le> n \<and> n < 2 ^ 63 then n else impl)"

definition slot_subscribe :: bytes where
  \<open>slot_subscribe = ''{"jsonrpc": "2.0","id": 1,"method": "slotSubscribe"}''\<close>

definition slot_unsubscribe :: "int \<Rightarrow> bytes" where
  \<open>slot_unsubscribe n = ''{"jsonrpc": "2.0","id": 2,"method": "slotUnsubscribe", "params": ['' @ show_int n @ '']}''\<close>

text \<open>The deferred function of the Solana probe.\<close>

definition svm_leave :: "('q, 'w, 'x) probe_env_scheme \<Rightarrow> nat \<Rightarrow> int \<Rightarrow> 'w \<Rightarrow> 'w" where
  "svm_leave E conn n w = ws_close E conn (snd (ws_write E conn (slot_unsubscribe n) w))"

text \<open>
  The reply to the subscription is decoded into a map, and its member result must be a number:
  the type assertion has no second result, so anything else panics, after the deferred function.
\<close>

definition get_block_number_from_svm_ws ::
  "('q, 'w, 'x) probe_env_scheme \<Rightarrow> string \<Rightarrow> 'q \<Rightarrow> 'w \<Rightarrow> ((gerr + nat) outcome \<times> 'w) option" where
  "get_block_number_from_svm_ws E url q w =
     (case dial_ws E url w of
        (Inl e, w1) \<Rightarrow> Some (Ret (Inl e), w1)
      | (Inr conn, w1) \<Rightarrow>
      (case ws_write E conn slot_subscribe w1 of
         (Some e, w2) \<Rightarrow> Some (Ret (Inl e), svm_leave E conn 0 w2)
       | (None, w2) \<Rightarrow>
      (case ws_read E conn w2 of
         (Inl e, w3) \<Rightarrow> Some (Ret (Inl e), svm_leave E conn 0 w3)
       | (Inr (ty, message), w3) \<Rightarrow>
      (case (case unmarshal_any message of Some (AObj kvs) \<Rightarrow> Some (map_of kvs ''result'')
             | Some ANil \<Rightarrow> Some None | _ \<Rightarrow> None) of
         None \<Rightarrow> Some (Ret (Inl ''json: cannot unmarshal''), svm_leave E conn 0 w3)
       | Some (Some (AFloat f)) \<Rightarrow>
           map_option (\<lambda>(r, w4). (Ret r, svm_leave E conn (f_to_i64 (float_i64 E) f) w4)) (await_height E conn q w3)
       | Some _ \<Rightarrow> Some (Panic ''interface conversion'', svm_leave E conn 0 w3)))))"

section \<open>A round of checks\<close>

definition block_content :: "string \<Rightarrow> bytes" where
  \<open>block_content meth = ''{"jsonrpc":"2.0","method":"'' @ meth @ ''","params":[],"id":1}''\<close>

text \<open>Only these chain types are asked over HTTP; for any other the height is 0.\<close>

definition probe_http ::
  "('q, 'w, 'x) probe_env_scheme \<Rightarrow> 'q rpc_handler \<Rightarrow> rpc_node \<Rightarrow> 'w \<Rightarrow> (gerr + nat) \<times> 'w" where
  "probe_http E h node w =
     (let cfg = rh_config h in
      if chain_type cfg = ''evm'' \<or> chain_type cfg = ''svm'' then
        get_block_number_from_http_json_rpc E (node_http node) (block_content (block_number_method cfg)) (rh_query h) w
      else if chain_type cfg = ''aptos'' then
        get_block_number_from_aptos_http E (node_http node @ ''/v1'') (rh_query h) w
      else (Inr 0, w))"

definition probe_ws ::
  "('q, 'w, 'x) probe_env_scheme \<Rightarrow> 'q rpc_handler \<Rightarrow> rpc_node \<Rightarrow> 'w \<Rightarrow> ((gerr + nat) outcome \<times> 'w) option" where
  "probe_ws E h node w =
     (let cfg = rh_config h in
      if chain_type cfg = ''evm'' then
        map_option (\<lambda>(r, w1). (Ret r, w1))
          (get_block_number_from_evm_ws E (node_ws node) (block_content (block_number_method cfg)) (rh_query h) w)
      else if chain_type cfg = ''svm'' then
        (case jq_parse E ''.params.result.slot'' of
           Inl e \<Rightarrow> Some (Ret (Inl e), w)
         | Inr query \<Rightarrow> get_block_number_from_svm_ws E (node_ws node) query w)
      else Some (Ret (Inr 0), w))"

text \<open>
  The heights a node gets in the two arrays.  An error leaves the zero they were made with, and
  an HTTP error skips the WebSocket; so does a WebSocket behind its own HTTP endpoint.
\<close>

definition probe_node ::
  "('q, 'w, 'x) probe_env_scheme \<Rightarrow> 'q rpc_handler \<Rightarrow> rpc_node \<Rightarrow> 'w \<Rightarrow> ((int \<times> int) outcome \<times> 'w) option" where
  "probe_node E h node w =
     (case probe_http E h node w of
        (Inl e, w1) \<Rightarrow> Some (Ret (0, 0), w1)
      | (Inr http, w1) \<Rightarrow>
          if node_ws node = [] then Some (Ret (i64 (int http), 0), w1)
          else (case probe_ws E h node w1 of
            None \<Rightarrow> None
          | Some (Panic p, w2) \<Rightarrow> Some (Panic p, w2)
          | Some (Ret (Inl e), w2) \<Rightarrow> Some (Ret (i64 (int http), 0), w2)
          | Some (Ret (Inr ws), w2) \<Rightarrow>
              Some (Ret (i64 (int http), if ws < http then 0 else i64 (int ws)), w2)))"

text \<open>Tron: an HTTP error skips the second API.  Its query is set on every handler of a Tron chain.\<close>

definition probe_extra_write ::
  "('q, 'w, 'x) probe_env_scheme \<Rightarrow> 'q rpc_handler \<Rightarrow> rpc_node \<Rightarrow> int \<Rightarrow> 'w \<Rightarrow> ((int \<times> int) outcome \<times> 'w) option" where
  "probe_extra_write E h node http w =
     (if node_extra_write node = [] then Some (Ret (http, 0), w)
      else
        (let url = node_extra_write node @ ''/getnowblock'' in
         case new_request E ''POST'' url of
           Some e \<Rightarrow> Some (Ret (http, 0), w)
         | None \<Rightarrow>
             (case rh_tron_query h of
                None \<Rightarrow> Some (Panic ''nil pointer dereference'', w)
              | Some q \<Rightarrow>
                  (case get_block_number_from_http E
                      \<lparr>hc_method = ''POST'', hc_url = url, hc_header = Map.empty, hc_body = None\<rparr> q w of
                     (Inl e, w1) \<Rightarrow> Some (Ret (http, 0), w1)
                   | (Inr n, w1) \<Rightarrow> Some (Ret (http, i64 (int n)), w1)))))"

definition probe_tron_node ::
  "('q, 'w, 'x) probe_env_scheme \<Rightarrow> 'q rpc_handler \<Rightarrow> rpc_node \<Rightarrow> 'w \<Rightarrow> ((int \<times> int) outcome \<times> 'w) option" where
  "probe_tron_node E h node w =
     (if node_http node = [] then probe_extra_write E h node 0 w
      else case get_block_number_from_http_json_rpc E (node_http node) (block_content ''eth_blockNumber'')
                  (rh_query h) w of
        (Inl e, w1) \<Rightarrow> Some (Ret (0, 0), w1)
      | (Inr n, w1) \<Rightarrow> probe_extra_write E h node (i64 (int n)) w1)"

text \<open>The first loop of a check, over all nodes.\<close>

fun sweep ::
  "(rpc_node \<Rightarrow> 'w \<Rightarrow> ((int \<times> int) outcome \<times> 'w) option) \<Rightarrow> rpc_node list \<Rightarrow> 'w \<Rightarrow>
   ((int \<times> int) list outcome \<times> 'w) option" where
  "sweep probe [] w = Some (Ret [], w)"
| "sweep probe (n # ns) w =
     (case probe n w of
        None \<Rightarrow> None
      | Some (Panic p, w1) \<Rightarrow> Some (Panic p, w1)
      | Some (Ret x, w1) \<Rightarrow>
          (case sweep probe ns w1 of
             None \<Rightarrow> None
           | Some (Panic p, w2) \<Rightarrow> Some (Panic p, w2)
           | Some (Ret xs, w2) \<Rightarrow> Some (Ret (x # xs), w2)))"

text \<open>The least height that is healthy; the subtraction is one of 64-bit integers.\<close>

definition height_limit :: "('q, 'w, 'x) probe_env_scheme \<Rightarrow> 'q rpc_handler \<Rightarrow> (int \<times> int) list \<Rightarrow> int" where
  "height_limit E h hs =
     i64 (lo_max E (map fst hs @ map snd hs) - max_behind_blocks (rh_config h))"

definition mark_http_ws :: "int \<Rightarrow> rpc_node \<Rightarrow> int \<times> int \<Rightarrow> rpc_node" where
  "mark_http_ws limit node hs = node\<lparr>http_health := limit \<le> fst hs, ws_health := limit \<le> snd hs\<rparr>"

definition mark_tron :: "int \<Rightarrow> rpc_node \<Rightarrow> int \<times> int \<Rightarrow> rpc_node" where
  "mark_tron limit node hs = node\<lparr>http_health := limit \<le> fst hs, extra_write_health := limit \<le> snd hs\<rparr>"

definition faulty_http_ws :: "int \<Rightarrow> rpc_node \<Rightarrow> int \<times> int \<Rightarrow> bool" where
  "faulty_http_ws limit node hs \<longleftrightarrow>
     node_http node \<noteq> [] \<and> \<not> limit \<le> fst hs \<or> node_ws node \<noteq> [] \<and> \<not> limit \<le> snd hs"

definition faulty_tron :: "int \<Rightarrow> rpc_node \<Rightarrow> int \<times> int \<Rightarrow> bool" where
  "faulty_tron limit node hs \<longleftrightarrow>
     node_http node \<noteq> [] \<and> \<not> limit \<le> fst hs \<or> node_extra_write node \<noteq> [] \<and> \<not> limit \<le> snd hs"

text \<open>The second loop: flags and error counts.\<close>

definition judge ::
  "('q, 'w, 'x) probe_env_scheme \<Rightarrow> (int \<Rightarrow> rpc_node \<Rightarrow> int \<times> int \<Rightarrow> rpc_node) \<Rightarrow>
   (int \<Rightarrow> rpc_node \<Rightarrow> int \<times> int \<Rightarrow> bool) \<Rightarrow> 'q rpc_handler \<Rightarrow> (int \<times> int) list \<Rightarrow> 'q rpc_handler" where
  "judge E mark faulty h hs =
     (let limit = height_limit E h hs in
      h\<lparr>rh_nodes := map2 (mark limit) (rh_nodes h) hs,
        rh_error_counts := map2 (\<lambda>bad c. if bad then i64 (c + 1) else c)
          (map2 (faulty limit) (rh_nodes h) hs) (rh_error_counts h)\<rparr>)"

definition check_with ::
  "('q, 'w, 'x) probe_env_scheme \<Rightarrow> ('q rpc_handler \<Rightarrow> rpc_node \<Rightarrow> 'w \<Rightarrow> ((int \<times> int) outcome \<times> 'w) option) \<Rightarrow>
   (int \<Rightarrow> rpc_node \<Rightarrow> int \<times> int \<Rightarrow> rpc_node) \<Rightarrow> (int \<Rightarrow> rpc_node \<Rightarrow> int \<times> int \<Rightarrow> bool) \<Rightarrow>
   'q rpc_handler \<Rightarrow> 'w \<Rightarrow> ('q rpc_handler outcome \<times> 'w) option" where
  "check_with E probe mark faulty h w =
     (case sweep (probe h) (rh_nodes h) w of
        None \<Rightarrow> None
      | Some (Panic p, w1) \<Rightarrow> Some (Panic p, w1)
      | Some (Ret hs, w1) \<Rightarrow> Some (Ret (judge E mark faulty h hs), w1))"

definition check_tron_nodes_healthy ::
  "('q, 'w, 'x) probe_env_scheme \<Rightarrow> 'q rpc_handler \<Rightarrow> 'w \<Rightarrow> ('q rpc_handler outcome \<times> 'w) option" where
  "check_tron_nodes_healthy E = check_with E (probe_tron_node E) mark_tron faulty_tron"

definition check_http_and_ws_nodes_healthy ::
  "('q, 'w, 'x) probe_env_scheme \<Rightarrow> 'q rpc_handler \<Rightarrow> 'w \<Rightarrow> ('q rpc_handler outcome \<times> 'w) option" where
  "check_http_and_ws_nodes_healthy E = check_with E (probe_node E) mark_http_ws faulty_http_ws"

definition check_nodes_healthy ::
  "('q, 'w, 'x) probe_env_scheme \<Rightarrow> 'q rpc_handler \<Rightarrow> 'w \<Rightarrow> ('q rpc_handler outcome \<times> 'w) option" where
  "check_nodes_healthy E h w =
     (if chain_type (rh_config h) = ''tron'' then check_tron_nodes_healthy E h w
      else check_http_and_ws_nodes_healthy E h w)"

section \<open>Reporting and the loop\<close>

fun error_metrics :: "nat \<Rightarrow> rpc_node list \<Rightarrow> int list \<Rightarrow> error_num_metric list" where
  "error_metrics i (n # ns) (c # cs) =
     (if 0 < c
      then \<lparr>mt_node_name = (if node_name n = [] then ''index_'' @ show_nat i else node_name n), mt_error_num = c\<rparr>
             # error_metrics (Suc i) ns cs
      else error_metrics (Suc i) ns cs)"
| "error_metrics i _ _ = []"

text \<open>\<open>base\<close> is the package variable \<^verbatim>\<open>PushgatewayBase\<close>.\<close>

definition report_node_errors ::
  "('q, 'w, 'x) probe_env_scheme \<Rightarrow> string \<Rightarrow> 'q rpc_handler \<Rightarrow> 'w \<Rightarrow> 'w" where
  "report_node_errors E base h w =
     (let ms = error_metrics 0 (rh_nodes h) (rh_error_counts h) in
      if base = [] \<or> ms = [] then w
      else push_metrics E base (chain_name (rh_config h)) ms w)"

text \<open>One turn of the goroutine that \<^verbatim>\<open>NewRpcHandler\<close> starts, which never ends.\<close>

definition health_round ::
  "('q, 'w, 'x) probe_env_scheme \<Rightarrow> string \<Rightarrow> 'q rpc_handler \<Rightarrow> 'w \<Rightarrow> ('q rpc_handler outcome \<times> 'w) option" where
  "health_round E base h w =
     (case check_nodes_healthy E h w of
        None \<Rightarrow> None
      | Some (Panic p, w1) \<Rightarrow> Some (Panic p, w1)
      | Some (Ret h1, w1) \<Rightarrow> Some (Ret h1, report_node_errors E base h1 w1))"

text \<open>Between two rounds anything else may happen in the world.\<close>

inductive health_run ::
  "('q, 'w, 'x) probe_env_scheme \<Rightarrow> string \<Rightarrow> 'q rpc_handler \<Rightarrow> nat \<Rightarrow> 'q rpc_handler \<Rightarrow> bool"
  for E base h0 where
  start: "health_run E base h0 0 h0"
| turn: "health_run E base h0 n h \<Longrightarrow> health_round E base h w = Some (Ret h1, w1) \<Longrightarrow> health_run E base h0 (Suc n) h1"

section \<open>The read loop\<close>

text \<open>The world after \<open>n\<close> reads, and the reads that end the loop.\<close>

definition after_reads :: "('q, 'w, 'x) probe_env_scheme \<Rightarrow> nat \<Rightarrow> nat \<Rightarrow> 'w \<Rightarrow> 'w" where
  "after_reads E conn n w = ((\<lambda>v. snd (ws_read E conn v)) ^^ n) w"

fun final_read :: "gerr + nat \<times> bytes \<Rightarrow> bool" where
  "final_read (Inl e) = True"
| "final_read (Inr (ty, m)) = (ty = TextMessage)"

definition comes_to_end :: "('q, 'w, 'x) probe_env_scheme \<Rightarrow> nat \<Rightarrow> 'w \<Rightarrow> bool" where
  "comes_to_end E conn w \<longleftrightarrow> (\<exists>n. final_read (fst (ws_read E conn (after_reads E conn n w))))"

lemma after_reads_Suc: "after_reads E conn (Suc n) w = after_reads E conn n (snd (ws_read E conn w))"
  by (simp add: after_reads_def funpow_Suc_right del: funpow.simps)

lemma await_height_final:
  "final_read (fst (ws_read E conn w)) \<Longrightarrow> \<exists>r. await_height E conn q w = Some r"
  by (subst await_height.simps) (auto split: prod.split sum.split)

lemma await_height_again:
  "\<not> final_read (fst (ws_read E conn w)) \<Longrightarrow>
   await_height E conn q w = await_height E conn q (snd (ws_read E conn w))"
  by (subst await_height.simps) (auto split: prod.split sum.split)

lemma await_height_returns:
  "final_read (fst (ws_read E conn (after_reads E conn n w))) \<Longrightarrow> \<exists>r. await_height E conn q w = Some r"
proof (induction n arbitrary: w)
  case 0
  then show ?case using await_height_final by (simp add: after_reads_def)
next
  case (Suc n)
  then show ?case
    using await_height_final await_height_again by (metis after_reads_Suc)
qed

lemma await_height_needs_end:
  fixes E :: "('q, 'w, 'x) probe_env_scheme"
  assumes "await_height E conn q w = Some r"
  shows "comes_to_end E conn w"
proof (rule await_height.raw_induct [OF _ assms])
  fix loop :: "('q, 'w, 'x) probe_env_scheme \<Rightarrow> nat \<Rightarrow> 'q \<Rightarrow> 'w \<Rightarrow> ((gerr + nat) \<times> 'w) option"
    and E :: "('q, 'w, 'x) probe_env_scheme" and conn q w y
  assume IH: "\<And>E conn q w y. loop E conn q w = Some y \<Longrightarrow> comes_to_end E conn w"
    and run: "(case ws_read E conn w of (Inl e, w1) \<Rightarrow> Some (Inl e, w1)
      | (Inr (ty, message), w1) \<Rightarrow> if ty \<noteq> TextMessage then loop E conn q w1
          else Some (ws_height_of E q message, w1)) = Some y"
  show "comes_to_end E conn w"
  proof (cases "final_read (fst (ws_read E conn w))")
    case True
    then show ?thesis by (auto simp: comes_to_end_def after_reads_def intro: exI [of _ 0])
  next
    case False
    then have "loop E conn q (snd (ws_read E conn w)) = Some y"
      using run by (auto split: prod.splits sum.splits if_splits)
    then have "comes_to_end E conn (snd (ws_read E conn w))" by (rule IH)
    then show ?thesis unfolding comes_to_end_def by (metis after_reads_Suc)
  qed
qed

section \<open>Judging\<close>

text \<open>Both kinds of check judge two endpoints of a node: HTTP and a second one.\<close>

locale endpoint_check =
  fixes mark :: "int \<Rightarrow> rpc_node \<Rightarrow> int \<times> int \<Rightarrow> rpc_node"
    and faulty :: "int \<Rightarrow> rpc_node \<Rightarrow> int \<times> int \<Rightarrow> bool"
    and second_health :: "rpc_node \<Rightarrow> bool"
    and second_url :: "rpc_node \<Rightarrow> string"
  assumes mark_http: "http_health (mark l n p) \<longleftrightarrow> l \<le> fst p"
    and mark_second: "second_health (mark l n p) \<longleftrightarrow> l \<le> snd p"
    and mark_config: "rpc_node_config.truncate (mark l n p) = rpc_node_config.truncate n"
    and faulty_has_url: "faulty l n p \<Longrightarrow> node_http n \<noteq> [] \<and> fst p < l \<or> second_url n \<noteq> [] \<and> snd p < l"
begin

lemma judged_node:
  assumes "length hs = length (rh_nodes h)" "i < length hs"
  shows "http_health (rh_nodes (judge E mark faulty h hs) ! i) \<longleftrightarrow> height_limit E h hs \<le> fst (hs ! i)"
    and "second_health (rh_nodes (judge E mark faulty h hs) ! i) \<longleftrightarrow> height_limit E h hs \<le> snd (hs ! i)"
  using assms by (simp_all add: judge_def mark_http mark_second Let_def)

lemma judged_config:
  assumes "length hs = length (rh_nodes h)"
  shows "map rpc_node_config.truncate (rh_nodes (judge E mark faulty h hs)) =
      map rpc_node_config.truncate (rh_nodes h)"
    and "rh_config (judge E mark faulty h hs) = rh_config h"
  using assms by (auto simp: judge_def mark_config Let_def intro!: nth_equalityI)

lemma judged_counts:
  assumes "length hs = length (rh_nodes h)" "length (rh_error_counts h) = length (rh_nodes h)"
  shows "length (rh_error_counts (judge E mark faulty h hs)) = length (rh_nodes h)"
    and "i < length (rh_nodes h) \<Longrightarrow> rh_error_counts (judge E mark faulty h hs) ! i \<in>
      {rh_error_counts h ! i, i64 (rh_error_counts h ! i + 1)}"
    and "i < length (rh_nodes h) \<Longrightarrow> node_http (rh_nodes h ! i) = [] \<Longrightarrow> second_url (rh_nodes h ! i) = [] \<Longrightarrow>
      rh_error_counts (judge E mark faulty h hs) ! i = rh_error_counts h ! i"
  using assms faulty_has_url [of "height_limit E h hs" "rh_nodes h ! i" "hs ! i"]
  by (auto simp: judge_def Let_def)

end

interpretation http_ws_check: endpoint_check mark_http_ws faulty_http_ws ws_health node_ws
  by unfold_locales (auto simp: mark_http_ws_def faulty_http_ws_def rpc_node_config.defs rpc_node.defs)

interpretation tron_check: endpoint_check mark_tron faulty_tron extra_write_health node_extra_write
  by unfold_locales (auto simp: mark_tron_def faulty_tron_def rpc_node_config.defs rpc_node.defs)

lemma sweep_length: "sweep probe ns w = Some (Ret hs, w1) \<Longrightarrow> length hs = length ns"
  by (induction ns arbitrary: w hs) (auto split: option.splits outcome.splits prod.splits)

text \<open>The two endpoints of a node on a chain, and the probe of its check.\<close>

definition second_health :: "chain_config \<Rightarrow> rpc_node \<Rightarrow> bool" where
  "second_health cfg n = (if chain_type cfg = ''tron'' then extra_write_health n else ws_health n)"

definition second_url :: "chain_config \<Rightarrow> ('a) rpc_node_config_scheme \<Rightarrow> string" where
  "second_url cfg n = (if chain_type cfg = ''tron'' then node_extra_write n else node_ws n)"

definition probe_of ::
  "('q, 'w, 'x) probe_env_scheme \<Rightarrow> 'q rpc_handler \<Rightarrow> rpc_node \<Rightarrow> 'w \<Rightarrow> ((int \<times> int) outcome \<times> 'w) option" where
  "probe_of E h = (if chain_type (rh_config h) = ''tron'' then probe_tron_node E h else probe_node E h)"

text \<open>A check as one sweep and one judgement.\<close>

lemma check_nodes_healthy_judges:
  "check_nodes_healthy E h w =
    (case sweep (probe_of E h) (rh_nodes h) w of
       None \<Rightarrow> None
     | Some (Panic p, w1) \<Rightarrow> Some (Panic p, w1)
     | Some (Ret hs, w1) \<Rightarrow>
         Some (Ret (if chain_type (rh_config h) = ''tron'' then judge E mark_tron faulty_tron h hs
                    else judge E mark_http_ws faulty_http_ws h hs), w1))"
  by (auto simp: check_nodes_healthy_def check_tron_nodes_healthy_def check_http_and_ws_nodes_healthy_def
      check_with_def probe_of_def split: option.split prod.split outcome.split)

lemma checked:
  assumes "check_nodes_healthy E h w = Some (Ret h1, w1)"
  obtains hs where "sweep (probe_of E h) (rh_nodes h) w = Some (Ret hs, w1)"
    "length hs = length (rh_nodes h)" "rh_config h1 = rh_config h"
    "map rpc_node_config.truncate (rh_nodes h1) = map rpc_node_config.truncate (rh_nodes h)"
    "\<And>i. i < length hs \<Longrightarrow> http_health (rh_nodes h1 ! i) \<longleftrightarrow> height_limit E h hs \<le> fst (hs ! i)"
    "\<And>i. i < length hs \<Longrightarrow> second_health (rh_config h) (rh_nodes h1 ! i) \<longleftrightarrow> height_limit E h hs \<le> snd (hs ! i)"
proof -
  obtain hs where hs: "sweep (probe_of E h) (rh_nodes h) w = Some (Ret hs, w1)"
    and h1: "h1 = (if chain_type (rh_config h) = ''tron'' then judge E mark_tron faulty_tron h hs
                   else judge E mark_http_ws faulty_http_ws h hs)"
    using assms by (auto simp: check_nodes_healthy_judges split: option.splits prod.splits outcome.splits)
  note len = sweep_length [OF hs]
  show thesis
    by (rule that [OF hs len])
       (use h1 len in \<open>auto simp: second_health_def http_ws_check.judged_node tron_check.judged_node
          http_ws_check.judged_config tron_check.judged_config split: if_splits\<close>)
qed

lemma checked_counts:
  assumes "check_nodes_healthy E h w = Some (Ret h1, w1)" "length (rh_error_counts h) = length (rh_nodes h)"
  shows "length (rh_error_counts h1) = length (rh_nodes h)"
    and "i < length (rh_nodes h) \<Longrightarrow>
      rh_error_counts h1 ! i \<in> {rh_error_counts h ! i, i64 (rh_error_counts h ! i + 1)}"
    and "i < length (rh_nodes h) \<Longrightarrow> node_http (rh_nodes h ! i) = [] \<Longrightarrow>
      second_url (rh_config h) (rh_nodes h ! i) = [] \<Longrightarrow> rh_error_counts h1 ! i = rh_error_counts h ! i"
proof -
  obtain hs where hs: "sweep (probe_of E h) (rh_nodes h) w = Some (Ret hs, w1)"
    and h1: "h1 = (if chain_type (rh_config h) = ''tron'' then judge E mark_tron faulty_tron h hs
                   else judge E mark_http_ws faulty_http_ws h hs)"
    using assms(1) by (auto simp: check_nodes_healthy_judges split: option.splits prod.splits outcome.splits)
  note len = sweep_length [OF hs]
  show "length (rh_error_counts h1) = length (rh_nodes h)"
    using h1 len assms(2) by (auto simp: http_ws_check.judged_counts tron_check.judged_counts)
  show "rh_error_counts h1 ! i \<in> {rh_error_counts h ! i, i64 (rh_error_counts h ! i + 1)}"
    if "i < length (rh_nodes h)"
    using h1 http_ws_check.judged_counts(2) [OF len assms(2) that, of E]
      tron_check.judged_counts(2) [OF len assms(2) that, of E] by presburger
  show "rh_error_counts h1 ! i = rh_error_counts h ! i"
    if "i < length (rh_nodes h)" "node_http (rh_nodes h ! i) = []" "second_url (rh_config h) (rh_nodes h ! i) = []"
    using h1 that http_ws_check.judged_counts(3) [OF len assms(2) that(1,2), of E]
      tron_check.judged_counts(3) [OF len assms(2) that(1,2), of E]
    by (auto simp: second_url_def split: if_splits)
qed

lemma sweep_returns:
  assumes "\<And>n w. probe n w \<noteq> None"
  shows "sweep probe ns w \<noteq> None"
proof (induction ns arbitrary: w)
  case (Cons n ns)
  obtain x w1 where "probe n w = Some (x, w1)" using assms [of n w] by auto
  then show ?case using Cons [of w1] by (auto split: outcome.split)
qed simp

text \<open>What the highest height and the limit are, without overflow.\<close>

definition heights :: "(int \<times> int) list \<Rightarrow> int set" where
  "heights hs = fst ` set hs \<union> snd ` set hs"

lemma height_limit_max:
  assumes "\<And>xs. xs \<noteq> [] \<Longrightarrow> lo_max E xs = Max (set xs)" "hs \<noteq> []"
    and "0 \<le> max_behind_blocks (rh_config h)" "max_behind_blocks (rh_config h) < 2 ^ 63"
    and "\<And>x. x \<in> heights hs \<Longrightarrow> 0 \<le> x \<and> x < 2 ^ 63"
  shows "height_limit E h hs = Max (heights hs) - max_behind_blocks (rh_config h)"
proof -
  let ?M = "Max (heights hs)" and ?b = "max_behind_blocks (rh_config h)"
  have "?M \<in> heights hs" using assms(2) by (intro Max_in) (auto simp: heights_def)
  then have M: "0 \<le> ?M" "?M < 2 ^ 63" using assms(5) by blast+
  have "lo_max E (map fst hs @ map snd hs) = ?M"
    using assms(1) [of "map fst hs @ map snd hs"] assms(2) by (simp add: heights_def)
  moreover have "i64 (?M - ?b) = ?M - ?b" by (rule i64_id) (use M assms(3,4) in linarith)+
  ultimately show ?thesis by (simp only: height_limit_def)
qed

text \<open>What every round keeps.\<close>

definition well_kept :: "chain_config \<Rightarrow> nat \<Rightarrow> 'q rpc_handler \<Rightarrow> bool" where
  "well_kept cfg n h \<longleftrightarrow>
     rh_config h = cfg \<and> map rpc_node_config.truncate (rh_nodes h) = chain_nodes cfg \<and>
     length (rh_error_counts h) = length (chain_nodes cfg) \<and>
     (\<forall>i < length (chain_nodes cfg). 0 \<le> rh_error_counts h ! i \<and> rh_error_counts h ! i \<le> int n \<and>
        (node_http (chain_nodes cfg ! i) = [] \<and> second_url cfg (chain_nodes cfg ! i) = [] \<longrightarrow>
         rh_error_counts h ! i = 0))"

lemma new_handler_well_kept: "new_rpc_handler E cfg key = Inr h \<Longrightarrow> well_kept cfg 0 h"
  by (auto simp: new_rpc_handler_def well_kept_def new_rpc_node_def rpc_node_config.defs Let_def
      intro!: nth_equalityI split: if_splits sum.splits)

lemma truncate_urls:
  "rpc_node_config.truncate n = c \<Longrightarrow> node_http c = node_http n \<and> second_url cfg c = second_url cfg n"
  by (auto simp: rpc_node_config.defs second_url_def)

lemma check_keeps:
  assumes "well_kept cfg n h" "check_nodes_healthy E h w = Some (Ret h1, w1)" "n < 2 ^ 63 - 1"
  shows "well_kept cfg (Suc n) h1"
proof -
  have c: "rh_config h1 = rh_config h"
      "map rpc_node_config.truncate (rh_nodes h1) = map rpc_node_config.truncate (rh_nodes h)"
    using checked [OF assms(2)] by blast+
  have k: "rh_config h = cfg" "map rpc_node_config.truncate (rh_nodes h) = chain_nodes cfg"
    using assms(1) by (auto simp: well_kept_def)
  then have len: "length (rh_nodes h) = length (chain_nodes cfg)" by (metis length_map)
  have lc: "length (rh_error_counts h) = length (rh_nodes h)" using assms(1) len by (simp add: well_kept_def)
  have "0 \<le> rh_error_counts h1 ! i \<and> rh_error_counts h1 ! i \<le> int (Suc n) \<and>
        (node_http (chain_nodes cfg ! i) = [] \<and> second_url cfg (chain_nodes cfg ! i) = [] \<longrightarrow>
         rh_error_counts h1 ! i = 0)" if i: "i < length (chain_nodes cfg)" for i
  proof -
    let ?c = "rh_error_counts h ! i"
    have old: "0 \<le> ?c" "?c \<le> int n"
      "node_http (chain_nodes cfg ! i) = [] \<and> second_url cfg (chain_nodes cfg ! i) = [] \<longrightarrow> ?c = 0"
      using assms(1) i by (auto simp: well_kept_def)
    have "i64 (?c + 1) = ?c + 1" by (rule i64_id) (use old assms(3) in auto)
    then have new: "rh_error_counts h1 ! i \<in> {?c, ?c + 1}"
      using checked_counts(2) [OF assms(2) lc] i len by metis
    have "rpc_node_config.truncate (rh_nodes h ! i) = chain_nodes cfg ! i"
      using k(2) i len by (metis nth_map)
    then have urls: "node_http (chain_nodes cfg ! i) = node_http (rh_nodes h ! i)"
      "second_url cfg (chain_nodes cfg ! i) = second_url cfg (rh_nodes h ! i)"
      using truncate_urls by blast+
    show ?thesis
      using new old checked_counts(3) [OF assms(2) lc, of i] i len urls k(1) by auto
  qed
  then show ?thesis
    using c k len checked_counts(1) [OF assms(2) lc] by (simp add: well_kept_def)
qed

lemma round_checks:
  "health_round E base h w = Some (Ret h1, w1) \<Longrightarrow> \<exists>w2. check_nodes_healthy E h w = Some (Ret h1, w2)"
  by (auto simp: health_round_def split: option.splits prod.splits outcome.splits)

section \<open>Properties\<close>

text \<open>A world for the witnesses: a node answers every call with the text its URL has in \<open>f\<close>.\<close>

definition demo_probe :: "(string \<Rightarrow> gerr + bytes) \<Rightarrow> bytes \<Rightarrow> (string list, unit) probe_env" where
  "demo_probe f message =
     \<lparr>new_request = (\<lambda>m url. None),
      http_do = (\<lambda>c w. (map_sum id (\<lambda>b. Some \<lparr>ha_status = 200, ha_header = [], ha_body = Some (Inr b)\<rparr>) (f (hc_url c)), w)),
      ws_dial = (\<lambda>url w. (Inr 7, w)), ws_write = (\<lambda>c m w. (None, w)),
      ws_read = (\<lambda>c w. (Inr (1, message), w)), ws_close = (\<lambda>c w. w),
      jq_parse = (\<lambda>s. Inr (str_split (CHR ''.'') (drop 1 s))), jq_first = member_path,
      float_u64 = 0, float_i64 = 0, lo_max = (\<lambda>xs. if xs = [] then 0 else Max (set xs))\<rparr>"

definition demo_node :: "string \<Rightarrow> string \<Rightarrow> rpc_node_config" where
  "demo_node http ws = \<lparr>node_name = [], node_http = http, node_ws = ws, node_extra_write = []\<rparr>"

definition demo_chain :: "string \<Rightarrow> rpc_node_config list \<Rightarrow> chain_config" where
  "demo_chain type nodes =
     \<lparr>chain_name = ''demo'', chain_type = type, max_behind_blocks = 10, block_number_method = ''eth_blockNumber'',
      block_number_result_extractor = ''jq'', block_number_result_expression = ''.result'', chain_nodes = nodes\<rparr>"

definition demo_rpc :: "string \<Rightarrow> rpc_node_config list \<Rightarrow> string list rpc_handler" where
  "demo_rpc type nodes =
     \<lparr>rh_config = demo_chain type nodes, rh_nodes = map new_rpc_node nodes,
      rh_error_counts = replicate (length nodes) 0, rh_query = [''result''], rh_tron_query = None, rh_api_key = ''k''\<rparr>"

lemma demo_rpc_is_new:
  "type \<noteq> ''tron'' \<Longrightarrow> new_rpc_handler (demo_probe f message) (demo_chain type nodes) ''k'' = Inr (demo_rpc type nodes)"
  by (simp add: new_rpc_handler_def demo_probe_def demo_chain_def demo_rpc_def)

lemma demo_lo_max: "xs \<noteq> [] \<Longrightarrow> lo_max (demo_probe f message) xs = Max (set xs)"
  by (simp add: demo_probe_def)

definition demo_height :: "string \<Rightarrow> gerr + bytes" where
  \<open>demo_height url = (if url = ''http://a'' then Inr ''{"result":"0x10"}''
     else if url = ''http://b'' then Inr ''{"result":"0x20"}'' else Inl ''no such host'')\<close>

lemma demo_height_read:
  \<open>jq_query_first member_path ''{"result":"0x10"}'' [''result''] = Inr ''0x10''\<close>
  \<open>jq_query_first member_path ''{"result":"0x20"}'' [''result''] = Inr ''0x20''\<close>
  by code_simp+

lemma demo_height_value: "to_uint64 0 ''0x10'' = Inr 16" "to_uint64 0 ''0x20'' = Inr 32"
  by (simp_all add: to_uint64_def has_prefix_def parse_uint_def digit_val_def ascii_lower_def max_u64_def Let_def)

lemma demo_sweep:
  "sweep (probe_of (demo_probe demo_height []) (demo_rpc ''evm'' [demo_node ''http://a'' [], demo_node ''http://b'' []]))
     (rh_nodes (demo_rpc ''evm'' [demo_node ''http://a'' [], demo_node ''http://b'' []])) () =
   Some (Ret [(16, 0), (32, 0)], ())"
  by (simp add: probe_of_def probe_node_def probe_http_def demo_rpc_def demo_chain_def demo_node_def new_rpc_node_def
      get_block_number_from_http_json_rpc_def get_block_number_from_http_def demo_probe_def demo_height_def
      height_of_def demo_height_read demo_height_value i64_id)

text \<open>
  C9. A request goes to a node near the top.  After a check of a chain that has nodes (with heights of
  63 bits and a limit that is not negative) an endpoint is healthy exactly when its height is at most
  \<open>max_behind_blocks\<close> behind every height that was seen; so the node chosen for HTTP is, and some endpoint is always healthy.
\<close>

theorem selected_node_is_near_the_top:
  assumes "\<And>xs. xs \<noteq> [] \<Longrightarrow> lo_max E xs = Max (set xs)"
    and "0 \<le> max_behind_blocks (rh_config h)" "max_behind_blocks (rh_config h) < 2 ^ 63"
    and "sweep (probe_of E h) (rh_nodes h) w = Some (Ret hs, w1)"
    and "\<And>x. x \<in> heights hs \<Longrightarrow> 0 \<le> x \<and> x < 2 ^ 63" "rh_nodes h \<noteq> []"
  shows "\<exists>h1. check_nodes_healthy E h w = Some (Ret h1, w1) \<and> length (rh_nodes h1) = length hs \<and>
    (\<forall>i < length hs.
       (http_health (rh_nodes h1 ! i) \<longleftrightarrow> (\<forall>x \<in> heights hs. x - max_behind_blocks (rh_config h) \<le> fst (hs ! i))) \<and>
       (second_health (rh_config h) (rh_nodes h1 ! i) \<longleftrightarrow>
          (\<forall>x \<in> heights hs. x - max_behind_blocks (rh_config h) \<le> snd (hs ! i)))) \<and>
    (\<forall>n. get_healthy_node h1 = Inr n \<longrightarrow>
       (\<exists>i < length hs. n = rh_nodes h1 ! i \<and> (\<forall>x \<in> heights hs. x - max_behind_blocks (rh_config h) \<le> fst (hs ! i)))) \<and>
    ((\<exists>n. get_healthy_node h1 = Inr n) \<or> (\<exists>n \<in> set (rh_nodes h1). second_health (rh_config h) n))"
proof -
  let ?b = "max_behind_blocks (rh_config h)" and ?M = "Max (heights hs)"
  obtain h1 where h1: "check_nodes_healthy E h w = Some (Ret h1, w1)"
    using assms(4) by (auto simp: check_nodes_healthy_judges)
  from h1 obtain hs' where hs': "sweep (probe_of E h) (rh_nodes h) w = Some (Ret hs', w1)"
      "length hs' = length (rh_nodes h)"
      "map rpc_node_config.truncate (rh_nodes h1) = map rpc_node_config.truncate (rh_nodes h)"
      "\<And>i. i < length hs' \<Longrightarrow> http_health (rh_nodes h1 ! i) \<longleftrightarrow> height_limit E h hs' \<le> fst (hs' ! i)"
      "\<And>i. i < length hs' \<Longrightarrow> second_health (rh_config h) (rh_nodes h1 ! i) \<longleftrightarrow> height_limit E h hs' \<le> snd (hs' ! i)"
    by (rule checked) blast
  then have "hs' = hs" using assms(4) by simp
  note hs = hs' [unfolded this]
  have len: "length (rh_nodes h1) = length hs" using hs(2,3) by (metis length_map)
  have ne: "hs \<noteq> []" using hs(2) assms(6) by auto
  have fin: "finite (heights hs)" "heights hs \<noteq> {}" using ne by (auto simp: heights_def)
  have "height_limit E h hs = ?M - ?b"
    using assms(1) ne assms(2,3,5) by (rule height_limit_max)
  then have lim: "height_limit E h hs \<le> y \<longleftrightarrow> (\<forall>x \<in> heights hs. x - ?b \<le> y)" for y
    using fin by (simp add: diff_le_eq)
  have flags: "http_health (rh_nodes h1 ! i) \<longleftrightarrow> (\<forall>x \<in> heights hs. x - ?b \<le> fst (hs ! i))"
    "second_health (rh_config h) (rh_nodes h1 ! i) \<longleftrightarrow> (\<forall>x \<in> heights hs. x - ?b \<le> snd (hs ! i))"
    if "i < length hs" for i
    using hs(4,5) [OF that] lim by simp_all
  have "\<exists>i < length hs. http_health (rh_nodes h1 ! i) \<or> second_health (rh_config h) (rh_nodes h1 ! i)"
  proof -
    have "?M \<in> heights hs" using fin by (rule Max_in)
    then obtain i where i: "i < length hs" "?M = fst (hs ! i) \<or> ?M = snd (hs ! i)"
      by (auto simp: heights_def in_set_conv_nth)
    have top: "x - ?b \<le> ?M" if "x \<in> heights hs" for x
      using Max_ge [OF fin(1) that] assms(2) by linarith
    show ?thesis
      using i top flags [OF i(1)] by (intro exI [of _ i]) auto
  qed
  then have "(\<exists>n. get_healthy_node h1 = Inr n) \<or> (\<exists>n \<in> set (rh_nodes h1). second_health (rh_config h) n)"
    using http_choice.none_iff [of h1] len by (metis nth_mem obj_sumE)
  then show ?thesis using h1 len flags http_choice.chosen_iff [of h1] by (intro exI [of _ h1]) auto
qed

theorem selected_node_is_near_the_top_witness:
  "\<exists>h1. check_nodes_healthy (demo_probe demo_height [])
       (demo_rpc ''evm'' [demo_node ''http://a'' [], demo_node ''http://b'' []]) () = Some (Ret h1, ()) \<and>
     \<not> http_health (rh_nodes h1 ! 0) \<and> get_healthy_node h1 = Inr (rh_nodes h1 ! 1)"
proof -
  let ?h = "demo_rpc ''evm'' [demo_node ''http://a'' [], demo_node ''http://b'' []]"
  let ?hs = "[(16::int, 0::int), (32, 0)]"
  have b: "max_behind_blocks (rh_config ?h) = 10" "rh_nodes ?h \<noteq> []" by (simp_all add: demo_rpc_def demo_chain_def)
  have hts: "heights ?hs = {0, 16, 32}" by (auto simp: heights_def)
  have pre: "0 \<le> max_behind_blocks (rh_config ?h)" "max_behind_blocks (rh_config ?h) < 2 ^ 63"
    "\<And>x. x \<in> heights ?hs \<Longrightarrow> 0 \<le> x \<and> x < 2 ^ 63"
    by (auto simp: b hts)
  obtain h1 where h1: "check_nodes_healthy (demo_probe demo_height []) ?h () = Some (Ret h1, ())"
    "length (rh_nodes h1) = 2"
    and flags: "\<forall>i < length ?hs. http_health (rh_nodes h1 ! i) \<longleftrightarrow> (\<forall>x \<in> heights ?hs. x - 10 \<le> fst (?hs ! i))"
    using selected_node_is_near_the_top [OF demo_lo_max pre(1,2) demo_sweep pre(3) b(2)] unfolding b(1) by auto
  have "\<not> http_health (rh_nodes h1 ! 0)" "http_health (rh_nodes h1 ! 1)"
    using flags [rule_format, of 0] flags [rule_format, of 1] by (auto simp: hts)
  moreover from this have "get_healthy_node h1 = Inr (rh_nodes h1 ! 1)"
    using h1(2) by (auto simp: http_choice.chosen_iff intro!: exI [of _ 1])
  ultimately show ?thesis using h1(1) by blast
qed

text \<open>
  C29. A blind check marks everything healthy.  When no node of a chain that has nodes and is not
  Tron (which has live extra endpoints of its own) answers over HTTP, all heights are zero and the highest of them is
  zero: with a limit on the distance that is not negative, every node of the chain is marked healthy,
  over HTTP and over the WebSocket, even one that has no such URL, no error is counted, and requests go
  to the first node.
\<close>

theorem blind_check_marks_all_healthy:
  assumes "\<And>xs. xs \<noteq> [] \<Longrightarrow> lo_max E xs = Max (set xs)"
    and "0 \<le> max_behind_blocks (rh_config h)" "max_behind_blocks (rh_config h) < 2 ^ 63"
    and "chain_type (rh_config h) \<noteq> ''tron''"
    and "\<And>n v. n \<in> set (rh_nodes h) \<Longrightarrow> \<exists>e v1. probe_http E h n v = (Inl e, v1)"
    and "rh_nodes h \<noteq> []" "length (rh_error_counts h) = length (rh_nodes h)"
  shows "\<exists>h1 w1. check_nodes_healthy E h w = Some (Ret h1, w1) \<and>
    (\<forall>n \<in> set (rh_nodes h1). http_health n \<and> ws_health n) \<and>
    get_healthy_node h1 = Inr (hd (rh_nodes h1)) \<and> rh_error_counts h1 = rh_error_counts h"
proof -
  have zeros: "\<exists>w1. sweep (probe_of E h) ns v = Some (Ret (replicate (length ns) (0, 0)), w1)"
    if "set ns \<subseteq> set (rh_nodes h)" for ns v
    using that
  proof (induction ns arbitrary: v)
    case (Cons n ns)
    then obtain e v1 where "probe_http E h n v = (Inl e, v1)" using assms(5) [of n v] by auto
    moreover obtain w1 where "sweep (probe_of E h) ns v1 = Some (Ret (replicate (length ns) (0, 0)), w1)"
      using Cons by auto
    moreover from calculation(1) have "probe_node E h n v = Some (Ret (0, 0), v1)" by (simp add: probe_node_def)
    ultimately show ?case using assms(4) by (simp add: probe_of_def)
  qed simp
  let ?hs = "replicate (length (rh_nodes h)) (0, 0) :: (int \<times> int) list"
  obtain w1 where sw: "sweep (probe_of E h) (rh_nodes h) w = Some (Ret ?hs, w1)"
    using zeros [of "rh_nodes h"] by auto
  let ?h1 = "judge E mark_http_ws faulty_http_ws h ?hs"
  have h1: "check_nodes_healthy E h w = Some (Ret ?h1, w1)"
    using sw assms(4) by (simp add: check_nodes_healthy_judges)
  have hts: "heights ?hs = {0}" using assms(6) by (auto simp: heights_def)
  have "height_limit E h ?hs = Max (heights ?hs) - max_behind_blocks (rh_config h)"
    by (rule height_limit_max [OF assms(1) _ assms(2,3)]) (use assms(6) in \<open>auto simp: hts\<close>)
  then have lim: "height_limit E h ?hs \<le> 0" using assms(2) by (simp add: hts)
  then have all: "\<forall>n \<in> set (rh_nodes ?h1). http_health n \<and> ws_health n"
    by (auto simp: judge_def mark_http_ws_def Let_def in_set_conv_nth)
  moreover have "rh_nodes ?h1 \<noteq> []" using assms(6) by (simp add: judge_def Let_def)
  then have "get_healthy_node ?h1 = Inr (hd (rh_nodes ?h1))"
    using all by (cases "rh_nodes ?h1") (auto simp: get_healthy_node_def)
  moreover have "rh_error_counts ?h1 = rh_error_counts h"
    using assms(7) lim by (auto simp: judge_def faulty_http_ws_def Let_def intro!: nth_equalityI)
  ultimately show ?thesis using h1 by blast
qed

theorem blind_check_marks_all_healthy_witness:
  "\<exists>h1 w1. check_nodes_healthy (demo_probe demo_height [])
       (demo_rpc ''evm'' [demo_node ''http://down'' [], demo_node [] ''ws://c'']) () = Some (Ret h1, w1) \<and>
     (\<forall>n \<in> set (rh_nodes h1). http_health n \<and> ws_health n) \<and> get_healthy_node h1 = Inr (hd (rh_nodes h1))"
proof -
  let ?h = "demo_rpc ''evm'' [demo_node ''http://down'' [], demo_node [] ''ws://c'']"
  have b: "max_behind_blocks (rh_config ?h) = 10" by (simp add: demo_rpc_def demo_chain_def)
  have fails: "\<exists>e v1. probe_http (demo_probe demo_height []) ?h n v = (Inl e, v1)" if "n \<in> set (rh_nodes ?h)" for n v
    using that by (auto simp: probe_http_def demo_rpc_def demo_chain_def demo_node_def new_rpc_node_def
        get_block_number_from_http_json_rpc_def get_block_number_from_http_def demo_probe_def demo_height_def)
  have "\<exists>h1 w1. check_nodes_healthy (demo_probe demo_height []) ?h () = Some (Ret h1, w1) \<and>
    (\<forall>n \<in> set (rh_nodes h1). http_health n \<and> ws_health n) \<and>
    get_healthy_node h1 = Inr (hd (rh_nodes h1)) \<and> rh_error_counts h1 = rh_error_counts ?h"
    by (rule blind_check_marks_all_healthy [OF demo_lo_max _ _ _ fails])
       (simp_all add: b, simp_all add: demo_rpc_def demo_chain_def)
  then show ?thesis by blast
qed

text \<open>
  C17. Error counts are kept through every number of rounds below \<open>2 ^ 63\<close>: one count for each
  configured node, none greater than the number of rounds, none for a node without URLs, and the
  rounds change neither the chain's configuration nor the nodes'.
\<close>

theorem rounds_keep_the_handler:
  assumes "new_rpc_handler E cfg key = Inr h0" "health_run E base h0 n h" "n < 2 ^ 63"
  shows "well_kept cfg n h"
  using assms(2,3)
proof (induction rule: health_run.induct)
  case start
  show ?case using assms(1) by (rule new_handler_well_kept)
next
  case (turn n h w h1 w1)
  then show ?case using round_checks [of E base h w h1 w1] check_keeps [of cfg n h E w h1] by auto
qed

theorem rounds_keep_the_handler_witness:
  "\<exists>h1. health_run (demo_probe demo_height []) [] (demo_rpc ''evm'' [demo_node ''http://a'' [], demo_node ''http://b'' []]) 1 h1 \<and>
     well_kept (demo_chain ''evm'' [demo_node ''http://a'' [], demo_node ''http://b'' []]) 1 h1"
proof -
  let ?E = "demo_probe demo_height []" and ?ns = "[demo_node ''http://a'' [], demo_node ''http://b'' []]"
  obtain h1 where "check_nodes_healthy ?E (demo_rpc ''evm'' ?ns) () = Some (Ret h1, ())"
    using demo_sweep by (auto simp: check_nodes_healthy_judges)
  then have "health_round ?E [] (demo_rpc ''evm'' ?ns) () = Some (Ret h1, ())"
    by (simp add: health_round_def report_node_errors_def)
  then have run: "health_run ?E [] (demo_rpc ''evm'' ?ns) (Suc 0) h1"
    by (rule health_run.turn [OF health_run.start])
  have "well_kept (demo_chain ''evm'' ?ns) (Suc 0) h1"
    by (rule rounds_keep_the_handler [OF demo_rpc_is_new run]) simp_all
  then show ?thesis using run by auto
qed

text \<open>
  C28. Waiting for a block.  The read loop of a WebSocket probe returns exactly when the connection
  sooner or later gives an error or a text message; other messages are skipped for as long as
  they come.
\<close>

theorem ws_wait_ends_iff:
  "(\<exists>r. await_height E conn q w = Some r) \<longleftrightarrow>
   (\<exists>n. final_read (fst (ws_read E conn (after_reads E conn n w))))"
  using await_height_returns await_height_needs_end by (metis comes_to_end_def)

text \<open>
  C27. A round of checks returns, or panics, when no connection stays silent; the chain's other
  nodes, the replies and the errors do not matter.
\<close>

theorem health_round_returns:
  assumes "\<And>conn w. \<exists>n. final_read (fst (ws_read E conn (after_reads E conn n w)))"
  shows "\<exists>r. health_round E base h w = Some r"
proof -
  have wait: "await_height E conn q w \<noteq> None" for conn q w
    using assms await_height_returns by (metis option.distinct(1))
  have evm: "get_block_number_from_evm_ws E url content q w \<noteq> None" for url content q w
    using wait by (auto simp: get_block_number_from_evm_ws_def split: sum.split prod.split option.split)
  have svm: "get_block_number_from_svm_ws E url q w \<noteq> None" for url q w
    using wait by (auto simp: get_block_number_from_svm_ws_def split: sum.split prod.split option.split any.split)
  have ws: "probe_ws E h n w \<noteq> None" for n w
    using evm svm by (simp add: probe_ws_def Let_def del: not_None_eq split: sum.split)
  have node: "probe_node E h n w \<noteq> None" for n w
    using ws by (simp add: probe_node_def del: not_None_eq split: sum.split prod.split option.split outcome.split)
  have tron: "probe_tron_node E h n w \<noteq> None" for n w
    by (auto simp: probe_tron_node_def probe_extra_write_def Let_def split: sum.split prod.split option.split)
  have "probe_of E h n w \<noteq> None" for n w
    using node tron by (simp only: probe_of_def split: if_split) blast
  then have "sweep (probe_of E h) ns w \<noteq> None" for ns w by (rule sweep_returns)
  then show ?thesis
    by (auto simp: health_round_def check_nodes_healthy_judges split: option.split prod.split outcome.split)
qed

theorem health_round_returns_witness:
  "\<exists>r. health_round (demo_probe demo_height []) [] (demo_rpc ''evm'' [demo_node ''http://a'' ''ws://a'']) () = Some r"
  by (rule health_round_returns) (simp add: demo_probe_def TextMessage_def)

text \<open>
  A Solana node can stop the checks.  When it answers the subscription with an object that has
  no number as its result, such as a JSON-RPC error, the probe panics in its goroutine, after
  unsubscribing from 0 and closing the connection.
\<close>

theorem svm_subscription_panics:
  assumes "dial_ws E url w = (Inr conn, w1)" "ws_write E conn slot_subscribe w1 = (None, w2)"
    and "ws_read E conn w2 = (Inr (ty, message), w3)" "unmarshal_any message = Some (AObj kvs)"
    and "\<And>f. map_of kvs ''result'' \<noteq> Some (AFloat f)"
  shows "get_block_number_from_svm_ws E url q w = Some (Panic ''interface conversion'', svm_leave E conn 0 w3)"
  using assms by (auto simp: get_block_number_from_svm_ws_def split: option.split any.split)

definition demo_refusal :: bytes where
  \<open>demo_refusal = ''{"error":{"message":"too many subscriptions"},"id":"1"}''\<close>

theorem svm_subscription_panics_witness:
  "get_block_number_from_svm_ws (demo_probe demo_height demo_refusal) ''ws://s'' [''params''] () =
     Some (Panic ''interface conversion'', ())"
proof -
  let ?E = "demo_probe demo_height demo_refusal"
  have d: "dial_ws ?E ''ws://s'' () = (Inr 7, ())" "ws_write ?E 7 slot_subscribe () = (None, ())"
    "ws_read ?E 7 () = (Inr (1, demo_refusal), ())" "svm_leave ?E 7 0 () = ()"
    by (simp_all add: dial_ws_def demo_probe_def svm_leave_def)
  have m: "unmarshal_any demo_refusal =
      Some (AObj [(''error'', AObj [(''message'', AStr ''too many subscriptions'')]), (''id'', AStr ''1'')])"
    by code_simp
  show ?thesis using svm_subscription_panics [OF d(1-3) m] d(4) by simp
qed

end
