(* ===== verification/Forward.thy ===== *)
theory Forward
  imports Health
begin

text \<open>
  Serving a request of the RPC endpoints of \<^verbatim>\<open>pkg/handler/rpcHandler.go\<close>: the URL of
  the healthy node, the headers the node gets, and its reply; and the WebSocket endpoint, which
  only connects the two byte streams.
\<close>

section \<open>Requests and replies\<close>

text \<open>
  What the code reads of the request, and the headers already set on the response.  The query of
  the URL is there, though the code does not read it.
\<close>

record raw_request =
  raw_method :: string
  raw_path :: string
  raw_query :: string
  raw_header :: header
  raw_body :: "bytes option"
  raw_remote_addr :: string
  raw_request_id :: "string option"
  raw_out_header :: header

text \<open>A reply with the body as far as it could be copied, or an error left to echo.\<close>

datatype rpc_reply = NodeReply nat header "gerr + bytes" | RpcFailed gerr

definition internal_server_error :: gerr where
  "internal_server_error = ''Internal Server Error''"

section \<open>Headers\<close>

definition hop_by_hop_headers :: "string list" where
  "hop_by_hop_headers =
     [''Connection'', ''Keep-Alive'', ''Proxy-Authenticate'', ''Proxy-Authorization'', ''TE'', ''Trailer'', ''Upgrade'']"

definition del_all :: "string list \<Rightarrow> header \<Rightarrow> header" where
  "del_all ks h = fold header_del ks h"

definition end_to_end_header :: "header \<Rightarrow> header" where
  "end_to_end_header h =
     (let conn = header_get ''Connection'' h;
          h1 = (if conn \<noteq> [] then del_all (map trim_space (str_split (CHR '','') conn)) h else h)
      in del_all hop_by_hop_headers h1)"

definition forwarded_header :: "header \<Rightarrow> string \<Rightarrow> header" where
  "forwarded_header h clientIP =
     (let h1 = header_set ''X-Real-IP'' clientIP (end_to_end_header h) in
      case h ''X-Forwarded-For'' of
        Some prior \<Rightarrow>
          if prior \<noteq> [] then header_set ''X-Forwarded-For'' (str_join '', '' prior @ '', '' @ clientIP) h1
          else header_set ''X-Forwarded-For'' clientIP h1
      | None \<Rightarrow> header_set ''X-Forwarded-For'' clientIP h1)"

section \<open>Forwarding\<close>

definition response_header :: "(string \<times> string list) list \<Rightarrow> header \<Rightarrow> header" where
  "response_header kvs h = fold (\<lambda>(k, v). header_set k (str_join '','' v)) kvs h"

definition forward_http_request ::
  "('q, 'w, 'x) probe_env_scheme \<Rightarrow> raw_request \<Rightarrow> string \<Rightarrow> 'w \<Rightarrow> rpc_reply \<times> 'w" where
  "forward_http_request E r url w =
     (case new_request E (raw_method r) url of
        Some e \<Rightarrow> (RpcFailed internal_server_error, w)
      | None \<Rightarrow>
      (case split_host_port (raw_remote_addr r) of
         Inl e \<Rightarrow> (RpcFailed e, w)
       | Inr (clientIP, _) \<Rightarrow>
      (case http_do E \<lparr>hc_method = raw_method r, hc_url = url,
               hc_header = forwarded_header (raw_header r) clientIP, hc_body = raw_body r\<rparr> w of
         (Inl e, w1) \<Rightarrow> (RpcFailed internal_server_error, w1)
       | (Inr None, w1) \<Rightarrow> (RpcFailed internal_server_error, w1)
       | (Inr (Some a), w1) \<Rightarrow>
           (case ha_body a of
              None \<Rightarrow> (RpcFailed internal_server_error, w1)
            | Some body \<Rightarrow>
                (NodeReply (ha_status a) (response_header (ha_header a) (raw_out_header r)) body, w1)))))"

definition node_url :: "string \<Rightarrow> string \<Rightarrow> string" where
  "node_url base path = (if path \<noteq> [] then trim_right (CHR ''/'') base @ ''/'' @ path else base)"

definition rest_of_path :: "string \<Rightarrow> 'q rpc_handler \<Rightarrow> string \<Rightarrow> string" where
  "rest_of_path root h path =
     trim_left (CHR ''/'') (trim_prefix (root @ chain_name (rh_config h) @ ''/'' @ rh_api_key h) path)"

definition rpc_http ::
  "('q, 'w, 'x) probe_env_scheme \<Rightarrow> 'q rpc_handler \<Rightarrow> raw_request \<Rightarrow> 'w \<Rightarrow> rpc_reply outcome \<times> 'w" where
  "rpc_http E h r w =
     (let path = rest_of_path ''/rpc/'' h (raw_path r) in
      case raw_request_id r of
        None \<Rightarrow> (Panic ''interface conversion'', w)
      | Some _ \<Rightarrow>
          (case get_healthy_node h of
             Inl e \<Rightarrow> (Ret (RpcFailed internal_server_error), w)
           | Inr node \<Rightarrow>
               (let (reply, w1) = forward_http_request E r (node_url (node_http node) path) w in (Ret reply, w1))))"

definition extra_write_http ::
  "('q, 'w, 'x) probe_env_scheme \<Rightarrow> 'q rpc_handler \<Rightarrow> raw_request \<Rightarrow> 'w \<Rightarrow> rpc_reply outcome \<times> 'w" where
  "extra_write_http E h r w =
     (let path = rest_of_path ''/ew_rpc/'' h (raw_path r) in
      case raw_request_id r of
        None \<Rightarrow> (Panic ''interface conversion'', w)
      | Some _ \<Rightarrow>
          (case get_healthy_extra_write_node h of
             Inl e \<Rightarrow> (Ret (RpcFailed internal_server_error), w)
           | Inr node \<Rightarrow>
               (let (reply, w1) = forward_http_request E r (node_url (node_extra_write node) path) w in (Ret reply, w1))))"

text \<open>
  The WebSocket endpoint.  Parameters: upgrading the request to a connection, and copying in both
  directions until the client's side ends.  The result is the error returned, if any.
\<close>

definition rpc_ws ::
  "('q, 'w, 'x) probe_env_scheme \<Rightarrow> ('w \<Rightarrow> (gerr + nat) \<times> 'w) \<Rightarrow> (nat \<Rightarrow> nat \<Rightarrow> 'w \<Rightarrow> 'w) \<Rightarrow>
   'q rpc_handler \<Rightarrow> raw_request \<Rightarrow> 'w \<Rightarrow> gerr option outcome \<times> 'w" where
  "rpc_ws E upgrade copy_both h r w =
     (case raw_request_id r of
        None \<Rightarrow> (Panic ''interface conversion'', w)
      | Some _ \<Rightarrow>
      (case get_healthy_ws_node h of
         Inl e \<Rightarrow> (Ret (Some internal_server_error), w)
       | Inr node \<Rightarrow>
      (case upgrade w of
         (Inl e, w1) \<Rightarrow> (Ret (Some internal_server_error), w1)
       | (Inr ws, w1) \<Rightarrow>
      (case dial_ws E (node_ws node) w1 of
         (Inl e, w2) \<Rightarrow> (Ret (Some internal_server_error), ws_close E ws w2)
       | (Inr upstream, w2) \<Rightarrow>
           (Ret None, ws_close E ws (ws_close E upstream (copy_both ws upstream w2)))))))"

section \<open>Which headers a node gets\<close>

lemma del_all_apply: "del_all ks h j = (if j \<in> canonical_key ` set ks then None else h j)"
  by (induction ks arbitrary: h) (auto simp: del_all_def header_ops_apply)

lemma forwarded_keys:
  "canonical_key ''X-Real-IP'' = ''X-Real-Ip''" "canonical_key ''X-Forwarded-For'' = ''X-Forwarded-For''"
  "canonical_key ''Connection'' = ''Connection''"
  "map canonical_key hop_by_hop_headers =
     [''Connection'', ''Keep-Alive'', ''Proxy-Authenticate'', ''Proxy-Authorization'', ''Te'', ''Trailer'', ''Upgrade'']"
  by code_simp+

lemma end_to_end_header_apply:
  "end_to_end_header h j =
     (if j \<in> {''Connection'', ''Keep-Alive'', ''Proxy-Authenticate'', ''Proxy-Authorization'', ''Te'', ''Trailer'', ''Upgrade''} \<or>
         (header_get ''Connection'' h \<noteq> [] \<and>
          (\<exists>t \<in> set (str_split (CHR '','') (header_get ''Connection'' h)). j = canonical_key (trim_space t)))
      then None else h j)"
proof -
  have "canonical_key ` set hop_by_hop_headers = set (map canonical_key hop_by_hop_headers)" by simp
  then have hop: "canonical_key ` set hop_by_hop_headers =
    {''Connection'', ''Keep-Alive'', ''Proxy-Authenticate'', ''Proxy-Authorization'', ''Te'', ''Trailer'', ''Upgrade''}"
    by (simp only: forwarded_keys) simp
  show ?thesis
    by (simp only: end_to_end_header_def Let_def del_all_apply hop) (auto simp: del_all_apply)
qed

section \<open>Properties\<close>

lemma forwarded_header_apply:
  "forwarded_header h ip j =
     (if j = ''X-Forwarded-For'' then
        Some [if h j = None \<or> h j = Some [] then ip else str_join '', '' (the (h j)) @ '', '' @ ip]
      else if j = ''X-Real-Ip'' then Some [ip]
      else if j \<in> {''Connection'', ''Keep-Alive'', ''Proxy-Authenticate'', ''Proxy-Authorization'', ''Te'', ''Trailer'',
              ''Upgrade''} then None
      else if header_get ''Connection'' h \<noteq> [] \<and>
          (\<exists>t \<in> set (str_split (CHR '','') (header_get ''Connection'' h)). j = canonical_key (trim_space t)) then None
      else h j)"
  by (cases "h ''X-Forwarded-For''")
     (simp_all add: forwarded_header_def header_ops_apply forwarded_keys end_to_end_header_apply del: insert_iff)

text \<open>
  C18. What a node learns of the client.  When a request comes from the address \<open>ip\<close> (the host part of
  the connection's remote address, IPv4 or IPv6 in brackets), and \<^verbatim>\<open>http.NewRequest\<close> accepts its method
  and the URL, forwarding it is one HTTP request with that method, that URL and the client's body.  Its X-Real-Ip is \<open>ip\<close>, whatever the
  client sent under that name, and \<open>ip\<close> is appended to X-Forwarded-For; the hop-by-hop headers and
  those that Connection names are gone, and every other header is as the client sent it.  The reply
  has the node's status, headers and body; every failure is an error of the gateway's own.
\<close>

theorem node_learns_the_client:
  assumes "new_request E (raw_method r) url = None" "address_of (raw_remote_addr r) ip"
  shows "forward_http_request E r url w =
    (case http_do E
        \<lparr>hc_method = raw_method r, hc_url = url,
         hc_header = (\<lambda>j.
           if j = ''X-Forwarded-For'' then
             Some [if raw_header r j = None \<or> raw_header r j = Some [] then ip
                   else str_join '', '' (the (raw_header r j)) @ '', '' @ ip]
           else if j = ''X-Real-Ip'' then Some [ip]
           else if j \<in> {''Connection'', ''Keep-Alive'', ''Proxy-Authenticate'', ''Proxy-Authorization'', ''Te'', ''Trailer'',
                   ''Upgrade''} then None
           else if header_get ''Connection'' (raw_header r) \<noteq> [] \<and>
               (\<exists>t \<in> set (str_split (CHR '','') (header_get ''Connection'' (raw_header r))).
                  j = canonical_key (trim_space t)) then None
           else raw_header r j),
         hc_body = raw_body r\<rparr> w of
       (Inr (Some a), w1) \<Rightarrow>
         (case ha_body a of
            Some body \<Rightarrow> (NodeReply (ha_status a) (response_header (ha_header a) (raw_out_header r)) body, w1)
          | None \<Rightarrow> (RpcFailed ''Internal Server Error'', w1))
     | (_, w1) \<Rightarrow> (RpcFailed ''Internal Server Error'', w1))"
proof -
  obtain port where "split_host_port (raw_remote_addr r) = Inr (ip, port)"
    using split_address [OF assms(2)] by blast
  then show ?thesis
    by (simp add: forward_http_request_def assms(1) internal_server_error_def forwarded_header_apply [abs_def]
        del: insert_iff split: sum.split prod.split option.split)
qed

text \<open>
  C19. Where a request goes.  The path below the chain's own is appended to the URL of the first
  healthy node, with one slash between them; the query of the request has no effect, so the node
  never gets it.  With no healthy node the call fails and nothing is sent.
\<close>

theorem request_reaches_the_healthy_node:
  assumes "raw_path r = ''/rpc/'' @ chain_name (rh_config h) @ ''/'' @ rh_api_key h @ rest"
    and "raw_request_id r = Some i"
  shows "rpc_http E h (r\<lparr>raw_query := query\<rparr>) w =
    (case find http_health (rh_nodes h) of
       None \<Rightarrow> (Ret (RpcFailed ''Internal Server Error''), w)
     | Some n \<Rightarrow>
         (let p = dropWhile (\<lambda>c. c = CHR ''/'') rest;
              (reply, w1) = forward_http_request E r
                (if p = [] then node_http n else trim_right (CHR ''/'') (node_http n) @ ''/'' @ p) w
          in (Ret reply, w1)))"
proof -
  have "rest_of_path ''/rpc/'' h (raw_path r) = dropWhile (\<lambda>c. c = CHR ''/'') rest"
    using assms(1) trim_prefix_append [of "''/rpc/'' @ chain_name (rh_config h) @ ''/'' @ rh_api_key h" rest]
    by (simp add: rest_of_path_def trim_left_def)
  moreover have "forward_http_request E (r\<lparr>raw_query := query\<rparr>) url w = forward_http_request E r url w" for url
    by (simp add: forward_http_request_def split: option.split sum.split prod.split)
  ultimately show ?thesis
    using assms(2)
    by (simp add: rpc_http_def get_healthy_node_def node_url_def internal_server_error_def Let_def split: option.split)
qed

definition demo_get :: "string \<Rightarrow> raw_request" where
  "demo_get path =
     \<lparr>raw_method = ''GET'', raw_path = path, raw_query = ''limit=1'', raw_header = Map.empty, raw_body = None,
      raw_remote_addr = ''1.2.3.4:5'', raw_request_id = Some ''r'', raw_out_header = Map.empty\<rparr>"

theorem request_reaches_the_healthy_node_witness:
  "rpc_http (demo_probe (\<lambda>url. Inr url) []) (demo_rpc ''aptos'' [demo_node ''http://a/'' []])
     (demo_get ''/rpc/demo/k/v1/blocks'') () = (Ret (NodeReply 200 Map.empty (Inr ''http://a/v1/blocks'')), ())"
proof -
  let ?E = "demo_probe (\<lambda>url. Inr url) []" and ?h = "demo_rpc ''aptos'' [demo_node ''http://a/'' []]"
  let ?r = "demo_get ''/rpc/demo/k/v1/blocks''"
  have path: "raw_path ?r = ''/rpc/'' @ chain_name (rh_config ?h) @ ''/'' @ rh_api_key ?h @ ''/v1/blocks''"
    "raw_request_id ?r = Some ''r''"
    by (simp_all add: demo_get_def demo_rpc_def demo_chain_def)
  have node: "find http_health (rh_nodes ?h) = Some (new_rpc_node (demo_node ''http://a/'' []))"
    "node_http (new_rpc_node (demo_node ''http://a/'' [])) = ''http://a/''"
    by (simp_all add: demo_rpc_def new_rpc_node_def demo_node_def)
  have addr: "split_host_port ''1.2.3.4:5'' = Inr (''1.2.3.4'', ''5'')"
    using split_host_port_plain [of "''1.2.3.4''" "''5''"] by simp
  have "rpc_http ?E ?h (?r\<lparr>raw_query := ''limit=1''\<rparr>) () =
    (Ret (NodeReply 200 Map.empty (Inr ''http://a/v1/blocks'')), ())"
    unfolding request_reaches_the_healthy_node [OF path] node
    by (simp add: forward_http_request_def demo_get_def addr demo_probe_def trim_right_def response_header_def node)
  moreover have "?r\<lparr>raw_query := ''limit=1''\<rparr> = ?r" by (simp add: demo_get_def)
  ultimately show ?thesis by simp
qed

text \<open>A client that names another address and asks to keep the connection.\<close>

definition demo_spoof :: raw_request where
  "demo_spoof = (demo_get ''/rpc/demo/k/v1'')
     \<lparr>raw_header := [''X-Real-Ip'' \<mapsto> [''9.9.9.9''], ''X-Forwarded-For'' \<mapsto> [''8.8.8.8''], ''Keep-Alive'' \<mapsto> [''5'']]\<rparr>"

text \<open>An environment whose node answers with the headers it got.\<close>

definition demo_echo_env :: "(string list, unit) probe_env" where
  "demo_echo_env = (demo_probe (\<lambda>url. Inr url) [])
     \<lparr>http_do := (\<lambda>q w. (Inr (Some \<lparr>ha_status = 200,
        ha_header = map (\<lambda>k. (k, the (hc_header q k))) (filter (\<lambda>k. hc_header q k \<noteq> None)
          [''X-Real-Ip'', ''X-Forwarded-For'', ''Keep-Alive'']), ha_body = Some (Inr (hc_url q))\<rparr>), w))\<rparr>"

theorem node_learns_the_client_witness:
  "\<exists>h. forward_http_request demo_echo_env demo_spoof ''http://a/v1'' () = (NodeReply 200 h (Inr ''http://a/v1''), ()) \<and>
     h ''X-Real-Ip'' = Some [''1.2.3.4''] \<and> h ''X-Forwarded-For'' = Some [''8.8.8.8, 1.2.3.4''] \<and> h ''Keep-Alive'' = None"
proof -
  have "address_of (raw_remote_addr demo_spoof) ''1.2.3.4''"
    unfolding address_of_def by (rule exI [of _ "''5''"]) (simp add: demo_spoof_def demo_get_def)
  moreover have "new_request demo_echo_env (raw_method demo_spoof) ''http://a/v1'' = None"
    by (simp add: demo_echo_env_def demo_probe_def)
  moreover have "canonical_key ''X-Real-Ip'' = ''X-Real-Ip''" by code_simp
  ultimately show ?thesis
    by (subst node_learns_the_client [of demo_echo_env demo_spoof "''http://a/v1''" "''1.2.3.4''" "()"])
      (simp_all add: demo_echo_env_def demo_spoof_def demo_get_def response_header_def header_ops_apply
         forwarded_keys header_get_def)
qed

end
