(* ===== verification/Router.thy ===== *)
theory Router
  imports Chains Forward
begin

text \<open>
  \<^verbatim>\<open>router/router.go\<close>: the table of routes.  Echo itself, its matching and the
  middleware, is not modelled.
\<close>

datatype verb = POST | GET | Any

datatype 'q endpoint =
    HttpEndpoint json_handler
  | TendermintEndpoint json_handler
  | WsEndpoint json_handler
  | IpfsEndpoint
  | RpcHttpEndpoint "'q rpc_handler"
  | RpcExtraWriteEndpoint "'q rpc_handler"
  | RpcWsEndpoint "'q rpc_handler"

type_synonym 'q route = "verb \<times> string \<times> 'q endpoint"

text \<open>A method of a handler field that is not set panics.\<close>

definition method_of :: "(json_handler \<Rightarrow> 'q endpoint) \<Rightarrow> json_handler option \<Rightarrow> 'q endpoint outcome" where
  "method_of f h = (case h of None \<Rightarrow> Panic ''nil pointer dereference'' | Some x \<Rightarrow> Ret (f x))"

fun add_routes :: "(verb \<times> string \<times> 'q endpoint outcome) list \<Rightarrow> 'q route list outcome" where
  "add_routes [] = Ret []"
| "add_routes ((v, path, e) # rest) =
     (case e of
        Panic p \<Rightarrow> Panic p
      | Ret x \<Rightarrow>
          (case add_routes rest of
             Panic p \<Rightarrow> Panic p
           | Ret rs \<Rightarrow> Ret ((v, path, x) # rs)))"

definition json_rpc_routes :: "app \<Rightarrow> chain \<Rightarrow> string \<Rightarrow> (verb \<times> string \<times> 'q endpoint outcome) list" where
  "json_rpc_routes a c path =
     [(POST, path @ ''/v1/:apiKey'', method_of HttpEndpoint (app_http a c)),
      (GET, ''/ws'' @ path @ ''/v1/:apiKey'', method_of WsEndpoint (app_ws a c))]"

definition tendermint_routes :: "app \<Rightarrow> chain \<Rightarrow> string \<Rightarrow> (verb \<times> string \<times> 'q endpoint outcome) list" where
  "tendermint_routes a c path =
     [(POST, path @ ''/v1/:apiKey'', method_of HttpEndpoint (app_http a c)),
      (GET, path @ ''/v1/:apiKey'', method_of TendermintEndpoint (app_http a c)),
      (GET, ''/ws'' @ path @ ''/v1/:apiKey'', method_of WsEndpoint (app_ws a c))]"

text \<open>The routes of Solana are commented out.\<close>

definition fixed_routes :: "app \<Rightarrow> (verb \<times> string \<times> 'q endpoint outcome) list" where
  "fixed_routes a =
     json_rpc_routes a Eth ''/eth'' @ json_rpc_routes a Polygon ''/polygon'' @
     json_rpc_routes a Arbitrum ''/arbitrum'' @ json_rpc_routes a Hsc ''/hsc'' @
     tendermint_routes a Cosmos ''/cosmos/tendermint'' @ tendermint_routes a Evmos ''/evmos/tendermint'' @
     tendermint_routes a Kava ''/kava/tendermint'' @ tendermint_routes a Juno ''/juno/tendermint'' @
     tendermint_routes a Umee ''/umee/tendermint'' @ tendermint_routes a Gravity ''/gravity/tendermint'' @
     tendermint_routes a OKC ''/okc/tendermint'' @ tendermint_routes a IRISnet ''/irisnet/tendermint'' @
     [(Any, ''/ipfs/*'', Ret IpfsEndpoint)]"

definition with_rest :: "string \<Rightarrow> 'q endpoint \<Rightarrow> 'q route list" where
  "with_rest path e = [(Any, path, e), (Any, path @ ''/*'', e)]"

definition rpc_routes_of :: "string \<Rightarrow> chain_config \<Rightarrow> 'q rpc_handler \<Rightarrow> 'q route list" where
  "rpc_routes_of key c h =
     (let tail = chain_name c @ ''/'' @ key in
      if chain_type c = ''tron'' then
        with_rest (''/rpc/'' @ tail) (RpcHttpEndpoint h) @ with_rest (''/ew_rpc/'' @ tail) (RpcExtraWriteEndpoint h)
      else with_rest (''/ws/rpc/'' @ tail) (RpcWsEndpoint h) @ with_rest (''/rpc/'' @ tail) (RpcHttpEndpoint h))"

fun rpc_routes :: "('q, 'w, 'x) probe_env_scheme \<Rightarrow> string \<Rightarrow> chain_config list \<Rightarrow> 'q route list outcome" where
  "rpc_routes E key [] = Ret []"
| "rpc_routes E key (c # cs) =
     (case new_rpc_handler E c key of
        Inl e \<Rightarrow> Panic e
      | Inr h \<Rightarrow>
          (case rpc_routes E key cs of
             Panic p \<Rightarrow> Panic p
           | Ret rs \<Rightarrow> Ret (rpc_routes_of key c h @ rs)))"

definition new_router :: "('q, 'w, 'x) probe_env_scheme \<Rightarrow> app \<Rightarrow> 'q route list outcome" where
  "new_router E a =
     (case add_routes (fixed_routes a) of
        Panic p \<Rightarrow> Panic p
      | Ret rs \<Rightarrow>
          (case app_rpc_config a of
             None \<Rightarrow> Ret rs
           | Some c \<Rightarrow>
               (case rpc_routes E (api_key c) (chains c) of
                  Panic p \<Rightarrow> Panic p
                | Ret extra \<Rightarrow> Ret (rs @ extra))))"

section \<open>The table\<close>

lemma add_routes_ok:
  "(\<forall>(v, p, e) \<in> set es. \<exists>x. e = Ret x) \<Longrightarrow> \<exists>rs. add_routes es = Ret rs"
  by (induction es) (auto split: outcome.split)

lemma add_routes_mem: "add_routes es = Ret rs \<Longrightarrow> (v, p, x) \<in> set rs \<longleftrightarrow> (v, p, Ret x) \<in> set es"
  by (induction es arbitrary: rs) (auto split: outcome.splits)

lemma add_routes_paths:
  "add_routes es = Ret rs \<Longrightarrow> map (\<lambda>(v, p, x). (v, p)) rs = map (\<lambda>(v, p, e). (v, p)) es"
  by (induction es arbitrary: rs) (auto split: outcome.splits)

text \<open>The path of a chain's routes, and below it the API key.\<close>

fun route_path :: "chain \<Rightarrow> string" where
  "route_path Eth = ''/eth''"
| "route_path Polygon = ''/polygon''"
| "route_path Arbitrum = ''/arbitrum''"
| "route_path Solana = ''/solana''"
| "route_path Hsc = ''/hsc''"
| "route_path Cosmos = ''/cosmos/tendermint''"
| "route_path Evmos = ''/evmos/tendermint''"
| "route_path Kava = ''/kava/tendermint''"
| "route_path Juno = ''/juno/tendermint''"
| "route_path Umee = ''/umee/tendermint''"
| "route_path Gravity = ''/gravity/tendermint''"
| "route_path OKC = ''/okc/tendermint''"
| "route_path IRISnet = ''/irisnet/tendermint''"

lemmas route_defs = fixed_routes_def json_rpc_routes_def tendermint_routes_def

lemma fixed_paths_distinct: "distinct (map (\<lambda>(v, p, e). (v, p)) (fixed_routes a))"
  by (simp add: route_defs)

lemma fixed_routes_built:
  fixes a :: app
  assumes "app_ws a = app_http a" "\<And>c. app_http a c = Some (H c)"
  shows "\<exists>rs :: 'q route list. add_routes (fixed_routes a) = Ret rs"
proof -
  have "\<forall>(v, p, e) \<in> set (fixed_routes a :: (verb \<times> string \<times> 'q endpoint outcome) list). \<exists>x. e = Ret x"
    by (auto simp: route_defs method_of_def assms)
  then show ?thesis by (rule add_routes_ok)
qed

lemma chain_routes:
  assumes "add_routes (fixed_routes a) = Ret rs" "app_ws a = app_http a" "app_http a c = Some h" "c \<noteq> Solana"
  shows "(POST, route_path c @ ''/v1/:apiKey'', HttpEndpoint h) \<in> set rs"
    "(GET, ''/ws'' @ route_path c @ ''/v1/:apiKey'', WsEndpoint h) \<in> set rs"
    "tendermint_chain c \<Longrightarrow> (GET, route_path c @ ''/v1/:apiKey'', TendermintEndpoint h) \<in> set rs"
  using assms(2-4) unfolding add_routes_mem [OF assms(1)]
  by (cases c; simp add: route_defs method_of_def tendermint_chain_def)+

lemma fixed_endpoints:
  fixes a :: app
  assumes "app_ws a = app_http a" "\<And>c. app_http a c = Some (H c)"
    and "(v, p, Ret e) \<in> set (fixed_routes a)" "e \<in> {HttpEndpoint h, WsEndpoint h, TendermintEndpoint h}"
  shows "\<exists>c. c \<noteq> Solana \<and> app_http a c = Some h \<and>
    (v, p, e) \<in> {(POST, route_path c @ ''/v1/:apiKey'', HttpEndpoint h),
      (GET, ''/ws'' @ route_path c @ ''/v1/:apiKey'', WsEndpoint h),
      (GET, route_path c @ ''/v1/:apiKey'', TendermintEndpoint h)} \<and>
    (e = TendermintEndpoint h \<longrightarrow> tendermint_chain c)"
proof -
  have es: "set (fixed_routes a) =
      (\<Union>c \<in> {Eth, Polygon, Arbitrum, Hsc}. set (json_rpc_routes a c (route_path c))) \<union>
      (\<Union>c \<in> {Cosmos, Evmos, Kava, Juno, Umee, Gravity, OKC, IRISnet}. set (tendermint_routes a c (route_path c))) \<union>
      {(Any, ''/ipfs/*'', Ret IpfsEndpoint)}"
    by (simp add: fixed_routes_def Un_assoc)
  from assms(3,4) obtain c where "c \<noteq> Solana"
    "(v, p, Ret e) \<in> set (json_rpc_routes a c (route_path c)) \<or>
     tendermint_chain c \<and> (v, p, Ret e) \<in> set (tendermint_routes a c (route_path c))"
    unfolding es tendermint_chain_def by fastforce
  then show ?thesis
    using assms(4) by (intro exI [of _ c])
      (auto simp: json_rpc_routes_def tendermint_routes_def method_of_def assms(1,2))
qed

lemma rpc_routes_cover:
  "rpc_routes E key cs = Ret rs \<Longrightarrow> c \<in> set cs \<Longrightarrow>
   \<exists>h. new_rpc_handler E c key = Inr h \<and> set (rpc_routes_of key c h) \<subseteq> set rs"
  by (induction cs arbitrary: rs) (fastforce split: sum.splits outcome.splits)+

lemma new_handler_fields:
  "new_rpc_handler E c key = Inr h \<Longrightarrow> rh_config h = c \<and> rh_api_key h = key"
  by (auto simp: new_rpc_handler_def Let_def split: if_splits sum.splits)

text \<open>The routes of the RPC configuration: when they are built, and that their paths differ.\<close>

lemma rpc_routes_built: "(\<exists>rs. rpc_routes E key cs = Ret rs) \<longleftrightarrow> (\<forall>c \<in> set cs. \<exists>h. new_rpc_handler E c key = Inr h)"
  by (induction cs) (auto split: sum.splits outcome.splits)

lemma rpc_endpoints:
  "rpc_routes E key cs = Ret rs \<Longrightarrow> (v, p, e) \<in> set rs \<Longrightarrow> e \<notin> {HttpEndpoint h, WsEndpoint h, TendermintEndpoint h}"
  by (induction cs arbitrary: rs)
     (auto simp: rpc_routes_of_def with_rest_def Let_def split: sum.splits outcome.splits if_splits)

definition rpc_paths :: "string \<Rightarrow> chain_config \<Rightarrow> string list" where
  "rpc_paths key c =
     (let tail = chain_name c @ ''/'' @ key in
      if chain_type c = ''tron'' then [''/rpc/'' @ tail, ''/rpc/'' @ tail @ ''/*'', ''/ew_rpc/'' @ tail, ''/ew_rpc/'' @ tail @ ''/*'']
      else [''/ws/rpc/'' @ tail, ''/ws/rpc/'' @ tail @ ''/*'', ''/rpc/'' @ tail, ''/rpc/'' @ tail @ ''/*''])"

lemma rpc_routes_paths:
  "rpc_routes E key cs = Ret rs \<Longrightarrow> map (\<lambda>(v, p, e). (v, p)) rs = map (Pair Any) (concat (map (rpc_paths key) cs))"
  by (induction cs arbitrary: rs)
     (auto simp: rpc_routes_of_def with_rest_def rpc_paths_def Let_def split: sum.splits outcome.splits)

lemma first_segment_unique:
  "sep \<notin> set n \<Longrightarrow> sep \<notin> set m \<Longrightarrow> n @ sep # x = m @ sep # y \<longleftrightarrow> n = m \<and> x = y"
proof (induction n arbitrary: m)
  case Nil
  then show ?case by (cases m) auto
next
  case (Cons a n)
  then show ?case by (cases m) auto
qed

lemma rpc_paths_apart:
  assumes "CHR ''/'' \<notin> set (chain_name c)" "CHR ''/'' \<notin> set (chain_name d)" "chain_name c \<noteq> chain_name d"
  shows "set (rpc_paths key c) \<inter> set (rpc_paths key d) = {}"
  using assms by (auto simp: rpc_paths_def Let_def first_segment_unique)

lemma rpc_paths_distinct:
  "distinct (map chain_name cs) \<Longrightarrow> \<forall>c \<in> set cs. CHR ''/'' \<notin> set (chain_name c) \<Longrightarrow>
   distinct (concat (map (rpc_paths key) cs))"
proof (induction cs)
  case (Cons c cs)
  have "distinct (rpc_paths key c)" by (simp add: rpc_paths_def Let_def)
  moreover have "set (rpc_paths key c) \<inter> set (rpc_paths key d) = {}" if "d \<in> set cs" for d
  proof (rule rpc_paths_apart)
    show "chain_name c \<noteq> chain_name d" using Cons.prems(1) that by force
  qed (use Cons.prems(2) that in auto)
  ultimately show ?case using Cons by auto
qed simp

lemma rpc_paths_not_fixed: "p \<in> set (rpc_paths key c) \<Longrightarrow> (Any, p, e) \<notin> set (fixed_routes a)"
  by (auto simp: rpc_paths_def route_defs Let_def split: if_splits)

lemma router_paths_distinct:
  fixes rs :: "'q route list"
  assumes "new_router E a = Ret rs"
    and "\<forall>rc. app_rpc_config a = Some rc \<longrightarrow>
      distinct (map chain_name (chains rc)) \<and> (\<forall>ch \<in> set (chains rc). CHR ''/'' \<notin> set (chain_name ch))"
  shows "distinct (map (\<lambda>(v, p, e). (v, p)) rs)"
proof -
  obtain fixed :: "'q route list" where fixed: "add_routes (fixed_routes a) = Ret fixed"
    using assms(1) by (auto simp: new_router_def split: outcome.splits)
  note paths = add_routes_paths [OF fixed]
  show ?thesis
  proof (cases "app_rpc_config a")
    case None
    then show ?thesis using assms(1) fixed paths fixed_paths_distinct [of a] by (simp add: new_router_def)
  next
    case (Some rc)
    then obtain extra where extra: "rpc_routes E (api_key rc) (chains rc) = Ret extra" "rs = fixed @ extra"
      using assms(1) fixed by (auto simp: new_router_def split: outcome.splits)
    have "distinct (concat (map (rpc_paths (api_key rc)) (chains rc)))"
      using assms(2) Some by (intro rpc_paths_distinct) auto
    then have "distinct (map (\<lambda>(v, p, e). (v, p)) extra)"
      unfolding rpc_routes_paths [OF extra(1)] by (simp add: distinct_map inj_on_def)
    moreover have "distinct (map (\<lambda>(v, p, e). (v, p)) fixed)" unfolding paths by (rule fixed_paths_distinct)
    moreover have "set (map (\<lambda>(v, p, e). (v, p)) fixed) \<inter> set (map (\<lambda>(v, p, e). (v, p)) extra) = {}"
      unfolding paths rpc_routes_paths [OF extra(1)] by (auto dest: rpc_paths_not_fixed [of _ "api_key rc" _ _ a])
    ultimately show ?thesis unfolding extra(2) map_append distinct_append by blast
  qed
qed

section \<open>Properties\<close>

text \<open>
  C23. The application's routes, with or without an RPC configuration.  The table is built, without
  a panic, exactly when every chain of the RPC configuration gets its handler.  Every chain but Solana
  has its HTTP and its WebSocket route (and a Tendermint chain its path route), each with that chain's
  handler, and no other route leads to a handler of the fixed chains, so none to Solana's.  No two
  routes have the same verb and path if the chains of the RPC configuration have different names,
  none with a slash.
\<close>

theorem routes_of_the_application:
  assumes "app_http a0 = Map.empty" "app_ws a0 = Map.empty"
  shows "((\<exists>rs. new_router E (init_handlers K a0) = Ret rs) \<longleftrightarrow>
      (\<forall>rc ch. app_rpc_config a0 = Some rc \<and> ch \<in> set (chains rc) \<longrightarrow> (\<exists>h. new_rpc_handler E ch (api_key rc) = Inr h))) \<and>
    (\<forall>rs. new_router E (init_handlers K a0) = Ret rs \<longrightarrow>
       ((\<forall>rc. app_rpc_config a0 = Some rc \<longrightarrow>
           distinct (map chain_name (chains rc)) \<and> (\<forall>ch \<in> set (chains rc). CHR ''/'' \<notin> set (chain_name ch))) \<longrightarrow>
         distinct (map (\<lambda>(v, p, e). (v, p)) rs)) \<and>
       (\<forall>c. c \<noteq> Solana \<longrightarrow>
          (\<exists>h. app_http (init_handlers K a0) c = Some h \<and>
             (POST, route_path c @ ''/v1/:apiKey'', HttpEndpoint h) \<in> set rs \<and>
             (GET, ''/ws'' @ route_path c @ ''/v1/:apiKey'', WsEndpoint h) \<in> set rs \<and>
             (tendermint_chain c \<longrightarrow> (GET, route_path c @ ''/v1/:apiKey'', TendermintEndpoint h) \<in> set rs))) \<and>
       (\<forall>v p e h. (v, p, e) \<in> set rs \<and> e \<in> {HttpEndpoint h, WsEndpoint h, TendermintEndpoint h} \<longrightarrow>
          (\<exists>c. c \<noteq> Solana \<and> app_http (init_handlers K a0) c = Some h \<and>
             (v, p, e) \<in> {(POST, route_path c @ ''/v1/:apiKey'', HttpEndpoint h),
               (GET, ''/ws'' @ route_path c @ ''/v1/:apiKey'', WsEndpoint h),
               (GET, route_path c @ ''/v1/:apiKey'', TendermintEndpoint h)} \<and>
             (e = TendermintEndpoint h \<longrightarrow> tendermint_chain c))))"
proof -
  let ?a = "init_handlers K a0"
  have same: "app_ws ?a = app_http ?a" using assms init_handlers_same [of a0 K] by simp
  have kept: "app_rpc_config ?a = app_rpc_config a0" by (simp add: init_handlers_kept)
  obtain H where H: "app_http ?a c = Some (H c)" for c
    using init_handlers_total by blast
  obtain fixed :: "'a route list" where fixed: "add_routes (fixed_routes ?a) = Ret fixed"
    using fixed_routes_built [OF same H] by blast
  have built: "(\<exists>rs. new_router E ?a = Ret rs) \<longleftrightarrow>
      (\<forall>rc ch. app_rpc_config a0 = Some rc \<and> ch \<in> set (chains rc) \<longrightarrow> (\<exists>h. new_rpc_handler E ch (api_key rc) = Inr h))"
  proof (cases "app_rpc_config a0")
    case (Some rc)
    have "(\<exists>rs. new_router E ?a = Ret rs) \<longleftrightarrow> (\<exists>rs. rpc_routes E (api_key rc) (chains rc) = Ret rs)"
      by (auto simp: new_router_def fixed kept Some split: outcome.splits)
    then show ?thesis using rpc_routes_built [of E "api_key rc" "chains rc"] Some by auto
  qed (simp add: new_router_def fixed kept)
  have chain: "\<exists>h. app_http ?a c = Some h \<and>
          (POST, route_path c @ ''/v1/:apiKey'', HttpEndpoint h) \<in> set rs \<and>
          (GET, ''/ws'' @ route_path c @ ''/v1/:apiKey'', WsEndpoint h) \<in> set rs \<and>
          (tendermint_chain c \<longrightarrow> (GET, route_path c @ ''/v1/:apiKey'', TendermintEndpoint h) \<in> set rs)"
    if "c \<noteq> Solana" "set fixed \<subseteq> set rs" for c rs
    using chain_routes [OF fixed same H that(1)] H that(2) by blast
  have only: "\<exists>c. c \<noteq> Solana \<and> app_http ?a c = Some h \<and>
             (v, p, e) \<in> {(POST, route_path c @ ''/v1/:apiKey'', HttpEndpoint h),
               (GET, ''/ws'' @ route_path c @ ''/v1/:apiKey'', WsEndpoint h),
               (GET, route_path c @ ''/v1/:apiKey'', TendermintEndpoint h)} \<and>
             (e = TendermintEndpoint h \<longrightarrow> tendermint_chain c)"
    if "(v, p, e) \<in> set fixed" "e \<in> {HttpEndpoint h, WsEndpoint h, TendermintEndpoint h}" for v p e h
    using fixed_endpoints [OF same H] that by (simp only: add_routes_mem [OF fixed])
  have parts: "set fixed \<subseteq> set rs \<and> (\<forall>v p e h. (v, p, e) \<in> set rs \<and> e \<in> {HttpEndpoint h, WsEndpoint h, TendermintEndpoint h} \<longrightarrow>
      (v, p, e) \<in> set fixed)" if "new_router E ?a = Ret rs" for rs
    using that rpc_endpoints by (auto simp: new_router_def fixed split: option.splits outcome.splits) blast+
  have all: "((\<forall>rc. app_rpc_config a0 = Some rc \<longrightarrow>
           distinct (map chain_name (chains rc)) \<and> (\<forall>ch \<in> set (chains rc). CHR ''/'' \<notin> set (chain_name ch))) \<longrightarrow>
         distinct (map (\<lambda>(v, p, e). (v, p)) rs))" if "new_router E ?a = Ret rs" for rs
    using router_paths_distinct [OF that] by (simp add: kept)
  show ?thesis using built chain only parts all by meson
qed

theorem routes_of_the_application_witness:
  "\<exists>rs h. new_router (demo_probe demo_height [])
       (init_handlers demo_constant (demo_app\<lparr>app_rpc_config :=
          Some \<lparr>api_key = ''k'', health_pushgateway = [], chains = [demo_chain ''aptos'' []]\<rparr>\<rparr>)) = Ret rs \<and>
     app_http (init_handlers demo_constant (demo_app\<lparr>app_rpc_config :=
          Some \<lparr>api_key = ''k'', health_pushgateway = [], chains = [demo_chain ''aptos'' []]\<rparr>\<rparr>)) Kava = Some h \<and>
     (GET, ''/kava/tendermint/v1/:apiKey'', TendermintEndpoint h) \<in> set rs \<and> distinct (map (\<lambda>(v, p, e). (v, p)) rs)"
proof -
  let ?a = "demo_app\<lparr>app_rpc_config := Some \<lparr>api_key = ''k'', health_pushgateway = [], chains = [demo_chain ''aptos'' []]\<rparr>\<rparr>"
  have "app_http ?a = Map.empty" "app_ws ?a = Map.empty" by (simp_all add: demo_app_def)
  note routes = routes_of_the_application [OF this, of "demo_probe demo_height []" demo_constant]
  then obtain rs where rs: "new_router (demo_probe demo_height []) (init_handlers demo_constant ?a) = Ret rs"
    by (auto simp: demo_rpc_is_new)
  with routes have "distinct (map (\<lambda>(v, p, e). (v, p)) rs)" "\<forall>c. c \<noteq> Solana \<longrightarrow>
          (\<exists>h. app_http (init_handlers demo_constant ?a) c = Some h \<and>
             (tendermint_chain c \<longrightarrow> (GET, route_path c @ ''/v1/:apiKey'', TendermintEndpoint h) \<in> set rs))"
    by (auto simp: demo_chain_def)
  then show ?thesis using rs by (auto simp: tendermint_chain_def dest: spec [of _ Kava])
qed

text \<open>
  C24. Routes of the RPC configuration.  When the table is built, every configured chain has its own
  handler, reached over HTTP below the chain's name and the API key, and over a WebSocket or, for
  Tron, the second API; the handler takes exactly the rest of the path for the node's.
\<close>

theorem rpc_chains_have_routes:
  assumes "new_router E a = Ret rs" "app_rpc_config a = Some rc" "c \<in> set (chains rc)"
  shows "\<exists>h. new_rpc_handler E c (api_key rc) = Inr h \<and>
    (Any, ''/rpc/'' @ chain_name c @ ''/'' @ api_key rc @ ''/*'', RpcHttpEndpoint h) \<in> set rs \<and>
    (if chain_type c = ''tron''
     then (Any, ''/ew_rpc/'' @ chain_name c @ ''/'' @ api_key rc @ ''/*'', RpcExtraWriteEndpoint h) \<in> set rs
     else (Any, ''/ws/rpc/'' @ chain_name c @ ''/'' @ api_key rc @ ''/*'', RpcWsEndpoint h) \<in> set rs) \<and>
    (\<forall>rest. rest_of_path ''/rpc/'' h (''/rpc/'' @ chain_name c @ ''/'' @ api_key rc @ ''/'' @ rest) =
       trim_left (CHR ''/'') rest)"
proof -
  obtain rs1 rs2 where r: "rpc_routes E (api_key rc) (chains rc) = Ret rs2" "rs = rs1 @ rs2"
    using assms(1,2) by (auto simp: new_router_def split: outcome.splits)
  then obtain h where h: "new_rpc_handler E c (api_key rc) = Inr h"
    and routes: "set (rpc_routes_of (api_key rc) c h) \<subseteq> set rs"
    using rpc_routes_cover [OF r(1) assms(3)] by auto
  have "rest_of_path ''/rpc/'' h (''/rpc/'' @ chain_name c @ ''/'' @ api_key rc @ ''/'' @ rest) =
       trim_left (CHR ''/'') rest" for rest
    using trim_prefix_append [of "''/rpc/'' @ chain_name c @ ''/'' @ api_key rc" "''/'' @ rest"]
    by (simp add: rest_of_path_def new_handler_fields [OF h] trim_left_def)
  then show ?thesis
    using h routes by (auto simp: rpc_routes_of_def with_rest_def Let_def split: if_splits)
qed

theorem rpc_chains_have_routes_witness:
  "\<exists>rs h. new_router (demo_probe demo_height [])
       (init_handlers demo_constant (demo_app\<lparr>app_rpc_config :=
          Some \<lparr>api_key = ''k'', health_pushgateway = [], chains = [demo_chain ''aptos'' []]\<rparr>\<rparr>)) = Ret rs \<and>
     (Any, ''/rpc/demo/k/*'', RpcHttpEndpoint h) \<in> set rs"
proof -
  let ?rc = "\<lparr>api_key = ''k'', health_pushgateway = [], chains = [demo_chain ''aptos'' []]\<rparr> :: rpc_config"
  let ?E = "demo_probe demo_height []" and ?a = "demo_app\<lparr>app_rpc_config := Some ?rc\<rparr>"
  have rc: "app_rpc_config (init_handlers demo_constant ?a) = Some ?rc" by (simp add: init_handlers_kept)
  have same: "app_ws (init_handlers demo_constant ?a) = app_http (init_handlers demo_constant ?a)"
    by (rule init_handlers_same) (simp add: demo_app_def)
  obtain H where H: "app_http (init_handlers demo_constant ?a) c = Some (H c)" for c
    using init_handlers_total by blast
  obtain fixed :: "string list route list" where "add_routes (fixed_routes (init_handlers demo_constant ?a)) = Ret fixed"
    using fixed_routes_built [OF same H] by blast
  then obtain rs where rs: "new_router ?E (init_handlers demo_constant ?a) = Ret rs"
    by (auto simp: new_router_def rc demo_rpc_is_new)
  have "demo_chain ''aptos'' [] \<in> set (chains ?rc)" by simp
  from rpc_chains_have_routes [OF rs rc this] show ?thesis using rs by (auto simp: demo_chain_def)
qed

end
