(* ===== verification/Query.thy ===== *)
theory Query
  imports Json
begin

text \<open>
  The query of a URL as \<^verbatim>\<open>net/url\<close> reads and writes it: \<^verbatim>\<open>ParseQuery\<close>,
  \<^verbatim>\<open>Values.Get\<close> and \<^verbatim>\<open>Values.Encode\<close>.  The IPFS gateway sends the node
  the query it has parsed, written out again.
\<close>

section \<open>Escaping\<close>

definition unreserved :: "char \<Rightarrow> bool" where
  "unreserved c \<longleftrightarrow>
     (let n = byte c in (48 \<le> n \<and> n \<le> 57) \<or> (65 \<le> n \<and> n \<le> 90) \<or> (97 \<le> n \<and> n \<le> 122) \<or> n \<in> {45, 46, 95, 126})"

definition upper_hex :: "nat \<Rightarrow> char" where
  "upper_hex d = (if d < 10 then char_of (48 + d) else char_of (55 + d))"

fun query_escape :: "string \<Rightarrow> string" where
  "query_escape [] = []"
| "query_escape (c # cs) =
     (if unreserved c then [c]
      else if c = CHR '' '' then ''+''
      else [CHR ''%'', upper_hex (byte c div 16), upper_hex (byte c mod 16)]) @ query_escape cs"

text \<open>\<^verbatim>\<open>QueryUnescape\<close>; no value is an error.\<close>

fun query_unescape :: "string \<Rightarrow> string option" where
  "query_unescape [] = Some []"
| "query_unescape (c # cs) =
     (if c = CHR ''%'' then
        (case cs of
           h # l # r \<Rightarrow>
             if is_hex h \<and> is_hex l
             then map_option (\<lambda>t. char_of (positional 16 0 [h, l]) # t) (query_unescape r) else None
         | _ \<Rightarrow> None)
      else map_option (\<lambda>t. (if c = CHR ''+'' then CHR '' '' else c) # t) (query_unescape cs))"

section \<open>Values\<close>

text \<open>A map from names to the values given for them, in the order they were given.\<close>

type_synonym url_values = "(string \<times> string list) list"

fun add_value :: "string \<Rightarrow> string \<Rightarrow> url_values \<Rightarrow> url_values" where
  "add_value k v [] = [(k, [v])]"
| "add_value k v ((j, vs) # m) = (if j = k then (j, vs @ [v]) # m else (j, vs) # add_value k v m)"

text \<open>\<^verbatim>\<open>strings.Cut\<close>: what is before and after the first separator.\<close>

fun cut :: "char \<Rightarrow> string \<Rightarrow> string \<times> string" where
  "cut c [] = ([], [])"
| "cut c (x # xs) = (if x = c then ([], xs) else (let (a, b) = cut c xs in (x # a, b)))"

text \<open>A setting that cannot be read, or has a semicolon, is left out.\<close>

definition parse_setting :: "string \<Rightarrow> (string \<times> string) option" where
  "parse_setting s =
     (if CHR '';'' \<in> set s \<or> s = [] then None
      else let (k, v) = cut (CHR ''='') s in
        Option.bind (query_unescape k) (\<lambda>k'. map_option (Pair k') (query_unescape v)))"

fun add_settings :: "string list \<Rightarrow> url_values \<Rightarrow> url_values" where
  "add_settings [] m = m"
| "add_settings (s # ss) m =
     add_settings ss (case parse_setting s of None \<Rightarrow> m | Some (k, v) \<Rightarrow> add_value k v m)"

definition parse_query :: "string \<Rightarrow> url_values" where
  "parse_query q = add_settings (str_split (CHR ''&'') q) []"

definition values_get :: "string \<Rightarrow> url_values \<Rightarrow> string" where
  "values_get k m = (case map_of m k of Some (v # _) \<Rightarrow> v | _ \<Rightarrow> [])"

definition setting :: "string \<Rightarrow> string \<Rightarrow> string" where
  "setting k v = query_escape k @ ''='' @ query_escape v"

definition settings_of :: "url_values \<Rightarrow> string list" where
  "settings_of m = concat (map (\<lambda>(k, vs). map (setting k) vs) (sort_key fst m))"

definition query_encode :: "url_values \<Rightarrow> string" where
  "query_encode m = str_join ''&'' (settings_of m)"

section \<open>Reading what was written\<close>

lemma byte_bound: "byte c < 256"
  using range_nat_of_char by (auto simp: byte_def)

lemma upper_hex_val: "n < 16 \<Longrightarrow> digit_val (upper_hex n) = Some n"
  by (auto simp: upper_hex_def digit_val_def ascii_lower_def Let_def of_char_of)

lemma hex_digits_read:
  assumes "n < 256"
  shows "is_hex (upper_hex (n div 16))" "is_hex (upper_hex (n mod 16))"
    "positional 16 0 [upper_hex (n div 16), upper_hex (n mod 16)] = n"
  using assms by (simp_all add: is_hex_def is_digit_of_def upper_hex_val)

lemma upper_hex_plain: "n < 16 \<Longrightarrow> unreserved (upper_hex n)"
  by (auto simp: unreserved_def byte_def upper_hex_def of_char_of)

lemma query_unescape_append:
  "query_unescape (query_escape [c] @ t) = map_option (\<lambda>u. c # u) (query_unescape t)"
proof (cases "unreserved c \<or> c = CHR '' ''")
  case True
  then have "c \<noteq> CHR ''%''" "c \<noteq> CHR ''+''" by (auto simp: unreserved_def byte_def)
  then show ?thesis using True by auto
next
  case False
  then show ?thesis
    using hex_digits_read [OF byte_bound [of c]] by (simp add: byte_def del: positional.simps)
qed

lemma query_unescape_escape [simp]: "query_unescape (query_escape s) = Some s"
proof (induction s)
  case (Cons c s)
  then show ?case using query_unescape_append [of c "query_escape s"] by simp
qed simp

text \<open>Escaped texts have none of the characters that separate.\<close>

lemma query_escape_chars: "c \<in> set (query_escape s) \<Longrightarrow> unreserved c \<or> c = CHR ''+'' \<or> c = CHR ''%''"
proof (induction s)
  case (Cons x s)
  have "unreserved (upper_hex (byte x div 16))" "unreserved (upper_hex (byte x mod 16))"
    using byte_bound [of x] by (auto intro: upper_hex_plain)
  then show ?case using Cons by (auto split: if_splits)
qed simp

lemma query_escape_free:
  "c \<in> {CHR ''&'', CHR '';'', CHR ''=''} \<Longrightarrow> c \<notin> set (query_escape s)"
  by (auto dest!: query_escape_chars simp: unreserved_def byte_def)

lemma cut_append: "c \<notin> set s \<Longrightarrow> cut c (s @ c # t) = (s, t)"
  by (induction s) auto

lemma parse_setting_setting: "parse_setting (setting k v) = Some (k, v)"
  using query_escape_free [of "CHR '';''"] cut_append [OF query_escape_free [of "CHR ''=''"], of k "query_escape v"]
  by (auto simp: parse_setting_def setting_def)

lemma str_split_join:
  assumes "\<forall>s \<in> set ss. c \<notin> set s" "ss \<noteq> []"
  shows "str_split c (str_join [c] ss) = ss"
  using assms
proof (induction ss)
  case (Cons s ss)
  then show ?case by (cases ss) (auto simp: str_split_no_sep str_split_append)
qed simp

text \<open>Adding the settings one by one builds the map again.\<close>

lemma add_settings_append: "add_settings (xs @ ys) m = add_settings ys (add_settings xs m)"
  by (induction xs arbitrary: m) auto

lemma add_value_end: "k \<notin> fst ` set m \<Longrightarrow> add_value k v (m @ [(k, vs)]) = m @ [(k, vs @ [v])]"
  by (induction m) auto

lemma add_value_new: "k \<notin> fst ` set m \<Longrightarrow> add_value k v m = m @ [(k, [v])]"
  by (induction m) auto

lemma add_settings_more:
  "k \<notin> fst ` set m \<Longrightarrow> add_settings (map (setting k) vs) (m @ [(k, us)]) = m @ [(k, us @ vs)]"
  by (induction vs arbitrary: us) (simp_all add: parse_setting_setting add_value_end)

lemma add_settings_key:
  assumes "k \<notin> fst ` set m" "vs \<noteq> []"
  shows "add_settings (map (setting k) vs) m = m @ [(k, vs)]"
proof (cases vs)
  case (Cons v vs')
  then show ?thesis using assms add_settings_more [OF assms(1), of vs' "[v]"]
    by (simp add: parse_setting_setting add_value_new)
qed (use assms in simp)

lemma add_settings_all:
  assumes "distinct (map fst m)" "\<forall>(k, vs) \<in> set m. vs \<noteq> []" "fst ` set acc \<inter> fst ` set m = {}"
  shows "add_settings (concat (map (\<lambda>(k, vs). map (setting k) vs) m)) acc = acc @ m"
  using assms
proof (induction m arbitrary: acc)
  case (Cons x m)
  obtain k vs where x: "x = (k, vs)" by (cases x)
  have "add_settings (map (setting k) vs) acc = acc @ [(k, vs)]"
    using Cons.prems x by (intro add_settings_key) auto
  then show ?case using Cons.prems x Cons.IH [of "acc @ [(k, vs)]"] by (auto simp: add_settings_append)
qed simp

text \<open>A well-formed map: no name twice, none without a value.  \<open>parse_query\<close> yields only those.\<close>

definition values_ok :: "url_values \<Rightarrow> bool" where
  "values_ok m \<longleftrightarrow> distinct (map fst m) \<and> (\<forall>(k, vs) \<in> set m. vs \<noteq> [])"

lemma add_value_keys: "fst ` set (add_value k v m) = insert k (fst ` set m)"
  by (induction k v m rule: add_value.induct) auto

lemma add_value_ok: "values_ok m \<Longrightarrow> values_ok (add_value k v m)"
proof (induction k v m rule: add_value.induct)
  case (2 k v j vs m)
  then show ?case using add_value_keys [of k v m] by (auto simp: values_ok_def split: if_splits)
qed (simp add: values_ok_def)

lemma add_settings_ok: "values_ok m \<Longrightarrow> values_ok (add_settings ss m)"
  by (induction ss arbitrary: m) (auto split: option.split intro: add_value_ok)

lemma parse_query_ok: "values_ok (parse_query q)"
  unfolding parse_query_def by (rule add_settings_ok) (simp add: values_ok_def)

lemma setting_free: "CHR ''&'' \<notin> set (setting k v)"
  using query_escape_free [of "CHR ''&''"] by (auto simp: setting_def)

lemma settings_of_Nil: "values_ok m \<Longrightarrow> settings_of m = [] \<Longrightarrow> sort_key fst m = []"
proof (rule ccontr)
  assume m: "values_ok m" "settings_of m = []" "sort_key fst m \<noteq> []"
  then obtain k vs where "(k, vs) \<in> set (sort_key fst m)" by (metis list.set_sel(1) prod.collapse)
  moreover from this have "vs \<noteq> []" using m(1) by (auto simp: values_ok_def)
  ultimately show False using m(2) by (force simp: settings_of_def)
qed

lemma values_ok_sort: "values_ok m \<Longrightarrow> values_ok (sort_key fst m)"
  unfolding values_ok_def distinct_map by simp

lemma parse_query_encode:
  assumes "values_ok m"
  shows "parse_query (query_encode m) = sort_key fst m"
proof (cases "settings_of m = []")
  case True
  then show ?thesis
    using settings_of_Nil [OF assms True] by (simp add: parse_query_def query_encode_def parse_setting_def)
next
  case False
  have "\<forall>s \<in> set (settings_of m). CHR ''&'' \<notin> set s"
    using setting_free by (auto simp: settings_of_def)
  then have "parse_query (query_encode m) = add_settings (settings_of m) []"
    using False by (simp add: parse_query_def query_encode_def str_split_join)
  also have "\<dots> = sort_key fst m"
    using values_ok_sort [OF assms] add_settings_all [of "sort_key fst m" "[]"]
    unfolding settings_of_def values_ok_def by simp
  finally show ?thesis .
qed

end
