(* ===== verification/IpfsService.thy ===== *)
theory IpfsService
  imports Handler Query
begin

text \<open>
  The IPFS service: \<^verbatim>\<open>service/ipfsService.go\<close>, and the records of
  \<^verbatim>\<open>pkg/request\<close> and \<^verbatim>\<open>pkg/response\<close> it works on.  The database, the
  cache with its keys, and the conversions of the cast package are other projects' and are
  parameters.  Sizes are unsigned 64-bit words.
\<close>

section \<open>Records\<close>

type_synonym u64 = "64 word"

record add_param =
  ap_stream_channels :: bool
  ap_recursive :: bool
  ap_progress :: bool
  ap_wrap_with_directory :: bool
  ap_hidden :: bool
  ap_pin :: bool
  ap_pin_status :: nat
  ap_nocopy :: bool
  ap_cid_version :: int
  ap_chunker :: string
  ap_raw_leaves :: bool
  ap_fscache :: bool
  ap_quieter :: bool
  ap_silent :: bool
  ap_trickle :: bool
  ap_only_hash :: bool
  ap_hash :: string
  ap_inline :: bool
  ap_quiet :: bool
  ap_inline_limit :: int
  ap_to_files :: string
  ap_wrap_dir_name :: string

definition zero_add_param :: add_param where
  "zero_add_param =
     \<lparr>ap_stream_channels = False, ap_recursive = False, ap_progress = False, ap_wrap_with_directory = False,
      ap_hidden = False, ap_pin = False, ap_pin_status = 0, ap_nocopy = False, ap_cid_version = 0, ap_chunker = [],
      ap_raw_leaves = False, ap_fscache = False, ap_quieter = False, ap_silent = False, ap_trickle = False,
      ap_only_hash = False, ap_hash = [], ap_inline = False, ap_quiet = False, ap_inline_limit = 0, ap_to_files = [],
      ap_wrap_dir_name = []\<rparr>"

record pin_param =
  pp_recursive :: bool
  pp_progress :: bool
  pp_arg :: string

record pin_ls_param =
  pl_stream :: bool
  pl_quiet :: bool
  pl_type :: string
  pl_arg :: string

record update_pin_param =
  pu_unpin :: bool
  pu_arg :: "string list"

record pin_rm_param =
  pr_recursive :: bool
  pr_arg :: string

text \<open>\<^verbatim>\<open>AddResp\<close>: a line of the node's reply; the last two fields are not read from it.\<close>

record add_resp =
  ar_name :: string
  ar_hash :: string
  ar_size :: string
  ar_wrap_with_dir_cid :: string
  ar_wrap_dir_name :: string

definition zero_add_resp :: add_resp where
  "zero_add_resp = \<lparr>ar_name = [], ar_hash = [], ar_size = [], ar_wrap_with_dir_cid = [], ar_wrap_dir_name = []\<rparr>"

text \<open>What the code reads and sets of the models of the other project.\<close>

record ipfs_file =
  fl_id :: nat
  fl_pin_status :: nat
  fl_user_id :: int
  fl_size :: u64
  fl_name :: string
  fl_cid :: string
  fl_wrap_dir_name :: string
  fl_wrap_dir_cid :: string

definition zero_ipfs_file :: ipfs_file where
  "zero_ipfs_file =
     \<lparr>fl_id = 0, fl_pin_status = 0, fl_user_id = 0, fl_size = 0, fl_name = [], fl_cid = [], fl_wrap_dir_name = [],
      fl_wrap_dir_cid = []\<rparr>"

record ipfs_user =
  iu_id :: int
  iu_active_gateway_id :: int
  iu_total_storage :: int
  iu_transfer_up :: int
  iu_transfer_down :: int

record ipfs_gateway =
  ig_id :: int
  ig_user_id :: int

section \<open>Environment\<close>

text \<open>
  A query of the database that fills a structure yields an error and what is then in the
  structure.  \<open>cache_text\<close> and its kin are \<^verbatim>\<open>CacheFn\<close> at a type of result: they get the
  key, the function that fills the variable, and the variable's value, and yield the error and the
  variable's value afterwards.
\<close>

record 'w ipfs_env = "'w gateway_env" +
  ipfs_chain_id :: nat
  pin_status_pin :: nat
  pin_status_unpin :: nat
  cache_text :: "string \<Rightarrow> ('w \<Rightarrow> (gerr option \<times> string) \<times> 'w) \<Rightarrow> string \<Rightarrow> 'w \<Rightarrow> (gerr option \<times> string) \<times> 'w"
  cache_int :: "string \<Rightarrow> ('w \<Rightarrow> (gerr option \<times> int) \<times> 'w) \<Rightarrow> int \<Rightarrow> 'w \<Rightarrow> (gerr option \<times> int) \<times> 'w"
  cache_bool :: "string \<Rightarrow> ('w \<Rightarrow> (gerr option \<times> bool) \<times> 'w) \<Rightarrow> bool \<Rightarrow> 'w \<Rightarrow> (gerr option \<times> bool) \<times> 'w"
  cache_file :: "string \<Rightarrow> ('w \<Rightarrow> (gerr option \<times> ipfs_file) \<times> 'w) \<Rightarrow> ipfs_file \<Rightarrow> 'w \<Rightarrow> (gerr option \<times> ipfs_file) \<times> 'w"
  cache_files :: "string \<Rightarrow> ('w \<Rightarrow> (gerr option \<times> ipfs_file list) \<times> 'w) \<Rightarrow> ipfs_file list \<Rightarrow> 'w \<Rightarrow>
    (gerr option \<times> ipfs_file list) \<times> 'w"
  cache_hincrby :: "string \<Rightarrow> string \<Rightarrow> int \<Rightarrow> 'w \<Rightarrow> gerr option \<times> 'w"
  ck_user_cid :: "string \<Rightarrow> string \<Rightarrow> string"
  ck_user_files :: "string \<Rightarrow> string"
  ck_gateway :: "string \<Rightarrow> string"
  ck_user_id :: "string \<Rightarrow> string"
  ck_usage_meta :: "string \<Rightarrow> nat \<Rightarrow> string"
  fld_storage :: string
  fld_transfer_up :: string
  fld_transfer_down :: string
  dao_user_file :: "int \<Rightarrow> string \<Rightarrow> 'w \<Rightarrow> (gerr option \<times> ipfs_file) \<times> 'w"
  dao_list_user_file :: "int \<Rightarrow> 'w \<Rightarrow> (gerr option \<times> ipfs_file list) \<times> 'w"
  dao_pin_file :: "string \<Rightarrow> nat \<Rightarrow> 'w \<Rightarrow> (gerr option \<times> ipfs_file) \<times> 'w"
  dao_set_pin_status :: "int \<Rightarrow> nat \<Rightarrow> string \<Rightarrow> 'w \<Rightarrow> gerr option \<times> 'w"
  dao_file_id :: "int \<Rightarrow> string \<Rightarrow> 'w \<Rightarrow> (gerr option \<times> nat) \<times> 'w"
  dao_incr_storage :: "int \<Rightarrow> u64 \<Rightarrow> 'w \<Rightarrow> gerr option \<times> 'w"
  dao_create_files :: "ipfs_file list \<Rightarrow> 'w \<Rightarrow> gerr option \<times> 'w"
  dao_ipfs_user :: "int \<Rightarrow> 'w \<Rightarrow> (gerr option \<times> ipfs_user) \<times> 'w"
  dao_gateway :: "string \<Rightarrow> 'w \<Rightarrow> (gerr + ipfs_gateway) \<times> 'w"
  dao_first_project :: "int \<Rightarrow> 'w \<Rightarrow> (gerr + string) \<times> 'w"
  dao_id_by_api_key :: "string \<Rightarrow> 'w \<Rightarrow> (gerr option \<times> int) \<times> 'w"
  cast_u64 :: "string \<Rightarrow> u64"
  cast_i64 :: "string \<Rightarrow> int"
  cast_text :: "int \<Rightarrow> string"

section \<open>The service\<close>

definition allow_method :: "string list" where
  "allow_method =
     [''/add'', ''/block/get'', ''/block/put'', ''/block/stat'', ''/cat'', ''/dag/get'', ''/dag/put'', ''/dag/resolve'',
      ''/get'', ''/pin/add'', ''/pin/ls'', ''/pin/rm'', ''/pin/update'', ''/version'']"

definition check_method :: "string \<Rightarrow> bool" where
  "check_method path = list_ex (\<lambda>v. v = path) allow_method"

definition get_user_id_by_api_key :: "('w, 'x) ipfs_env_scheme \<Rightarrow> string \<Rightarrow> 'w \<Rightarrow> int \<times> 'w" where
  "get_user_id_by_api_key E api_key w =
     (case cache_int E (ck_user_id E api_key) (dao_id_by_api_key E api_key) 0 w of ((_, user_id), w1) \<Rightarrow> (user_id, w1))"

definition check_user_cid :: "('w, 'x) ipfs_env_scheme \<Rightarrow> string \<Rightarrow> string \<Rightarrow> 'w \<Rightarrow> bool \<times> 'w" where
  "check_user_cid E api_key cid w =
     (let fill = (\<lambda>w. case get_user_id_by_api_key E api_key w of (user_id, w1) \<Rightarrow>
                     (case dao_user_file E user_id cid w1 of ((_, file), w2) \<Rightarrow> ((None, 0 < fl_id file), w2)))
      in case cache_bool E (ck_user_cid E api_key cid) fill False w of ((_, result), w1) \<Rightarrow> (result, w1))"

definition list_user_file ::
  "('w, 'x) ipfs_env_scheme \<Rightarrow> string \<Rightarrow> ipfs_file list \<Rightarrow> 'w \<Rightarrow> (gerr option \<times> ipfs_file list) \<times> 'w" where
  "list_user_file E api_key files w =
     cache_files E (ck_user_files E api_key)
       (\<lambda>w. case get_user_id_by_api_key E api_key w of (user_id, w1) \<Rightarrow> dao_list_user_file E user_id w1) files w"

definition get_user_ipfs_file ::
  "('w, 'x) ipfs_env_scheme \<Rightarrow> string \<Rightarrow> string \<Rightarrow> 'w \<Rightarrow> (ipfs_file \<times> gerr option) \<times> 'w" where
  "get_user_ipfs_file E api_key cid w =
     (case get_user_id_by_api_key E api_key w of (user_id, w1) \<Rightarrow>
        (case dao_user_file E user_id cid w1 of
           ((Some e, _), w2) \<Rightarrow> ((zero_ipfs_file, Some e), w2)
         | ((None, file), w2) \<Rightarrow> ((file, None), w2)))"

definition get_ipfs_pin_file :: "('w, 'x) ipfs_env_scheme \<Rightarrow> string \<Rightarrow> 'w \<Rightarrow> (ipfs_file \<times> gerr option) \<times> 'w" where
  "get_ipfs_pin_file E cid w =
     (case dao_pin_file E cid (pin_status_pin E) w of
        ((Some e, _), w1) \<Rightarrow> ((zero_ipfs_file, Some e), w1)
      | ((None, file), w1) \<Rightarrow> ((file, None), w1))"

definition pin_object :: "('w, 'x) ipfs_env_scheme \<Rightarrow> string \<Rightarrow> string \<Rightarrow> 'w \<Rightarrow> gerr option \<times> 'w" where
  "pin_object E api_key cid w =
     (case get_user_id_by_api_key E api_key w of (user_id, w1) \<Rightarrow> dao_set_pin_status E user_id (pin_status_pin E) cid w1)"

definition un_pin_object :: "('w, 'x) ipfs_env_scheme \<Rightarrow> string \<Rightarrow> string \<Rightarrow> 'w \<Rightarrow> gerr option \<times> 'w" where
  "un_pin_object E api_key cid w =
     (case get_user_id_by_api_key E api_key w of (user_id, w1) \<Rightarrow> dao_set_pin_status E user_id (pin_status_unpin E) cid w1)"

definition incr_ipfs_usage :: "('w, 'x) ipfs_env_scheme \<Rightarrow> string \<Rightarrow> string \<Rightarrow> nat \<Rightarrow> int \<Rightarrow> 'w \<Rightarrow> 'w" where
  "incr_ipfs_usage E api_key set_key c add_val w = snd (cache_hincrby E (ck_usage_meta E api_key c) set_key add_val w)"

text \<open>The record of one uploaded file; with a directory around them, it is the last of the list.\<close>

definition db_file :: "('w, 'x) ipfs_env_scheme \<Rightarrow> int \<Rightarrow> add_param \<Rightarrow> add_resp list \<Rightarrow> add_resp \<Rightarrow> ipfs_file" where
  "db_file E user_id ap files v =
     (let f = zero_ipfs_file\<lparr>fl_pin_status := ap_pin_status ap, fl_user_id := user_id, fl_size := cast_u64 E (ar_size v),
                fl_name := ar_name v, fl_cid := ar_hash v\<rparr>
      in if ap_wrap_with_directory ap
         then f\<lparr>fl_wrap_dir_name := ar_name (last files), fl_wrap_dir_cid := ar_hash (last files)\<rparr> else f)"

text \<open>The size of the files the user does not have yet; a failing query counts as it answers.\<close>

fun new_storage :: "('w, 'x) ipfs_env_scheme \<Rightarrow> int \<Rightarrow> ipfs_file list \<Rightarrow> u64 \<Rightarrow> 'w \<Rightarrow> u64 \<times> 'w" where
  "new_storage E user_id [] add w = (add, w)"
| "new_storage E user_id (f # fs) add w =
     (case dao_file_id E user_id (fl_cid f) w of
        ((_, file_id), w1) \<Rightarrow> new_storage E user_id fs (if file_id = 0 then add + fl_size f else add) w1)"

definition charge_storage :: "('w, 'x) ipfs_env_scheme \<Rightarrow> string \<Rightarrow> int \<Rightarrow> u64 \<Rightarrow> u64 \<Rightarrow> 'w \<Rightarrow> 'w" where
  "charge_storage E api_key user_id add dir_size w =
     (if 0 < add then
        (case dao_incr_storage E user_id (add - dir_size) w of
           (None, w1) \<Rightarrow> incr_ipfs_usage E api_key (fld_storage E) (ipfs_chain_id E) (sint (add - dir_size)) w1
         | (Some _, w1) \<Rightarrow> w1)
      else w)"

definition add_files ::
  "('w, 'x) ipfs_env_scheme \<Rightarrow> string \<Rightarrow> add_param \<Rightarrow> add_resp list \<Rightarrow> 'w \<Rightarrow> gerr option outcome \<times> 'w" where
  "add_files E api_key ap files w =
     (case get_user_id_by_api_key E api_key w of (user_id, w1) \<Rightarrow>
        if ap_wrap_with_directory ap \<and> files = [] then (Panic ''index out of range'', w1)
        else
          (let dir_size = (if ap_wrap_with_directory ap then cast_u64 E (ar_size (last files)) else 0);
               db_files = map (db_file E user_id ap files) files;
               (add, w2) = new_storage E user_id db_files 0 w1
           in case dao_create_files E db_files (charge_storage E api_key user_id add dir_size w2) of
                (e, w3) \<Rightarrow> (Ret e, w3)))"

definition get_ipfs_user_no_cache :: "('w, 'x) ipfs_env_scheme \<Rightarrow> string \<Rightarrow> 'w \<Rightarrow> (ipfs_user \<times> gerr option) \<times> 'w" where
  "get_ipfs_user_no_cache E api_key w =
     (case get_user_id_by_api_key E api_key w of (user_id, w1) \<Rightarrow>
        (case dao_ipfs_user E user_id w1 of ((e, user), w2) \<Rightarrow> ((user, e), w2)))"

definition active_gateway_key :: "('w, 'x) ipfs_env_scheme \<Rightarrow> string \<Rightarrow> 'w \<Rightarrow> (gerr option \<times> string) \<times> 'w" where
  "active_gateway_key E subdomain w =
     (case dao_gateway E subdomain w of
        (Inl e, w1) \<Rightarrow> ((Some e, []), w1)
      | (Inr gateway, w1) \<Rightarrow>
      (case dao_ipfs_user E (ig_user_id gateway) w1 of
         ((Some e, _), w2) \<Rightarrow> ((Some e, []), w2)
       | ((None, user), w2) \<Rightarrow>
           if iu_active_gateway_id user \<noteq> ig_id gateway then ((Some ''gateway not active'', []), w2)
           else
             (case dao_first_project E (iu_id user) w2 of
                (Inl e, w3) \<Rightarrow> ((Some e, []), w3)
              | (Inr api_key, w3) \<Rightarrow> ((None, api_key), w3))))"

definition get_api_key_by_active_gateway :: "('w, 'x) ipfs_env_scheme \<Rightarrow> string \<Rightarrow> 'w \<Rightarrow> string \<times> 'w" where
  "get_api_key_by_active_gateway E subdomain w =
     (case cache_text E (ck_gateway E subdomain) (active_gateway_key E subdomain) [] w of ((_, api_key), w1) \<Rightarrow> (api_key, w1))"

text \<open>This one, which nothing calls, has the key of \<open>list_user_file\<close>.\<close>

definition get_user_file :: "('w, 'x) ipfs_env_scheme \<Rightarrow> string \<Rightarrow> string \<Rightarrow> 'w \<Rightarrow> (gerr + ipfs_file) \<times> 'w" where
  "get_user_file E api_key cid w =
     (let fill = (\<lambda>w. case get_user_id_by_api_key E api_key w of (user_id, w1) \<Rightarrow> dao_user_file E user_id cid w1)
      in case cache_file E (ck_user_files E api_key) fill zero_ipfs_file w of
           ((Some e, _), w1) \<Rightarrow> (Inl e, w1)
         | ((None, file), w1) \<Rightarrow> (Inr file, w1))"

section \<open>What an upload is charged\<close>

text \<open>
  Whether the user has a file is what the database answers for its CID; \<open>known\<close> is that answer.
  The sum of the sizes of the new files, over the naturals.
\<close>

definition new_total :: "('w, 'x) ipfs_env_scheme \<Rightarrow> (string \<Rightarrow> nat) \<Rightarrow> add_resp list \<Rightarrow> nat" where
  "new_total E known files = (\<Sum>v \<leftarrow> files. if known (ar_hash v) = 0 then unat (cast_u64 E (ar_size v)) else 0)"

lemma db_file_fields [simp]:
  "fl_size (db_file E user_id ap files v) = cast_u64 E (ar_size v)" "fl_cid (db_file E user_id ap files v) = ar_hash v"
  by (simp_all add: db_file_def Let_def zero_ipfs_file_def)

lemma new_storage_sum:
  assumes "\<And>c w. snd (fst (dao_file_id E user_id c w)) = known c"
  shows "fst (new_storage E user_id (map (db_file E user_id ap fs) files) add w) = add + of_nat (new_total E known files)"
proof (induction files arbitrary: add w)
  case (Cons v files)
  obtain e n w1 where q: "dao_file_id E user_id (ar_hash v) w = ((e, n), w1)" by (metis prod.collapse)
  then have "n = known (ar_hash v)" using assms [of "ar_hash v" w] by simp
  then show ?case using q Cons by (simp add: new_total_def add.assoc)
qed (simp add: new_total_def)

lemma unat_of_nat_diff:
  assumes "m < 2 ^ 64"
  shows "unat (of_nat m - d :: u64) = (if unat d \<le> m then m - unat d else 2 ^ 64 + m - unat d)"
proof -
  have m: "unat (of_nat m :: u64) = m" using assms by (simp add: unat_of_nat take_bit_nat_eq_self)
  show ?thesis
  proof (cases "unat d \<le> m")
    case True
    then show ?thesis using m by (simp add: unat_sub word_le_nat_alt)
  next
    case False
    then have "\<not> d \<le> (of_nat m :: u64)" using m by (simp add: word_le_nat_alt)
    then show ?thesis using False m unat_sub_if' [of "of_nat m :: u64" d] by (simp add: word_le_nat_alt)
  qed
qed

section \<open>Properties\<close>

text \<open>
  C14. What an upload in a directory is charged.  The user's storage grows by the sizes of the files
  the database does not know yet, less the size of the directory, and by nothing when they add up to
  nothing.  A directory larger than its new files wraps around: the database is given a number
  near 2^64, and the usage in Redis is lowered.
\<close>

theorem storage_charged:
  assumes "get_user_id_by_api_key E api_key w = (user_id, w1)" "ap_wrap_with_directory ap" "files \<noteq> []"
    and "\<And>c w. snd (fst (dao_file_id E user_id c w)) = known c" "new_total E known files < 2 ^ 64"
  shows "\<exists>amount w2.
    unat amount = (let dir = unat (cast_u64 E (ar_size (last files))); new = new_total E known files
                   in if dir \<le> new then new - dir else 2 ^ 64 + new - dir) \<and>
    add_files E api_key ap files w =
      (let w3 = (if new_total E known files = 0 then w2
                 else case dao_incr_storage E user_id amount w2 of
                        (Some _, w') \<Rightarrow> w'
                      | (None, w') \<Rightarrow> snd (cache_hincrby E (ck_usage_meta E api_key (ipfs_chain_id E)) (fld_storage E) (sint amount) w'))
       in case dao_create_files E (map (db_file E user_id ap files) files) w3 of (e, w4) \<Rightarrow> (Ret e, w4))"
proof -
  let ?dir = "cast_u64 E (ar_size (last files))" and ?new = "new_total E known files"
  let ?amount = "of_nat ?new - ?dir"
  obtain add w2 where s: "new_storage E user_id (map (db_file E user_id ap files) files) 0 w1 = (add, w2)" by fastforce
  have add: "add = of_nat ?new" using new_storage_sum [OF assms(4), where files = files] s by (metis add_0 fst_conv)
  have "0 < add \<longleftrightarrow> ?new \<noteq> 0"
  proof -
    have "unat add = ?new" using assms(5) by (simp add: add unat_of_nat take_bit_nat_eq_self)
    then show ?thesis by (metis unat_0 unat_eq_zero word_gt_0)
  qed
  then have "add_files E api_key ap files w =
      (let w3 = (if ?new = 0 then w2
                 else case dao_incr_storage E user_id ?amount w2 of
                        (Some _, w') \<Rightarrow> w'
                      | (None, w') \<Rightarrow> snd (cache_hincrby E (ck_usage_meta E api_key (ipfs_chain_id E)) (fld_storage E) (sint ?amount) w'))
       in case dao_create_files E (map (db_file E user_id ap files) files) w3 of (e, w4) \<Rightarrow> (Ret e, w4))"
    using assms(1-3) s add
    by (simp add: add_files_def charge_storage_def incr_ipfs_usage_def Let_def split: option.split prod.split)
  then show ?thesis using unat_of_nat_diff [OF assms(5), of ?dir] by (auto simp: Let_def)
qed

text \<open>
  An example: the user 7 has the directory only; keys are their texts, nothing is cached, and the
  changes of the database and of the usage are written down.
\<close>

definition jot :: "string \<Rightarrow> string \<Rightarrow> demo_world \<Rightarrow> demo_world" where
  "jot k v w = w\<lparr>sent := (k, v) # sent w\<rparr>"

definition demo_ipfs_env :: "demo_world ipfs_env" where
  "demo_ipfs_env =
     gateway_env.extend (demo_env [])
       (ipfs_env.fields 1 2 3
          (\<lambda>k fill x w. fill w) (\<lambda>k fill x w. fill w) (\<lambda>k fill x w. fill w) (\<lambda>k fill x w. fill w) (\<lambda>k fill x w. fill w)
          (\<lambda>k f n w. (None, jot (k @ '':'' @ f) (show_int n) w))
          (\<lambda>k c. ''cid:'' @ k @ c) (\<lambda>k. ''files:'' @ k) (\<lambda>d. ''gateway:'' @ d) (\<lambda>k. ''user:'' @ k) (\<lambda>k c. ''usage:'' @ k)
          ''storage'' ''up'' ''down''
          (\<lambda>u c w. ((None, zero_ipfs_file\<lparr>fl_id := (if c = ''dir'' then 1 else 0)\<rparr>), w)) (\<lambda>u w. ((None, []), w))
          (\<lambda>c n w. ((None, zero_ipfs_file), w)) (\<lambda>u n c w. (None, jot ''pin'' c w))
          (\<lambda>u c w. ((None, if c = ''dir'' then 1 else 0), w))
          (\<lambda>u n w. (None, jot ''add'' (show_nat (unat n)) w))
          (\<lambda>fs w. (None, jot ''files'' (concat (map fl_cid fs)) w))
          (\<lambda>u w. ((None, \<lparr>iu_id = u, iu_active_gateway_id = 1, iu_total_storage = 0, iu_transfer_up = 0, iu_transfer_down = 0\<rparr>), w))
          (\<lambda>d w. (Inr \<lparr>ig_id = (if d = ''on'' then 1 else 2), ig_user_id = 7\<rparr>, w))
          (\<lambda>u w. (Inr ''0123456789abcdef0123456789abcdef'', w)) (\<lambda>k w. ((None, 7), w))
          (\<lambda>t. of_nat (read_digits t)) (\<lambda>t. int (read_digits t)) show_int)"

lemmas demo_ipfs_env_defs = demo_ipfs_env_def gateway_env.defs ipfs_env.defs

definition demo_entry :: "string \<Rightarrow> string \<Rightarrow> string \<Rightarrow> add_resp" where
  "demo_entry name hash sz = zero_add_resp\<lparr>ar_name := name, ar_hash := hash, ar_size := sz\<rparr>"

theorem storage_charged_witness:
  "\<exists>amount w2. unat (amount :: u64) = 2 ^ 64 - 3 \<and>
     add_files demo_ipfs_env ''k'' (zero_add_param\<lparr>ap_wrap_with_directory := True\<rparr>)
       [demo_entry ''a'' ''a'' ''5'', demo_entry ''d'' ''dir'' ''8''] demo_start =
     (let w3 = snd (cache_hincrby demo_ipfs_env ''usage:k'' ''storage'' (sint amount) (jot ''add'' (show_nat (unat amount)) w2))
      in (Ret None, jot ''files'' ''adir'' w3))"
proof -
  let ?fs = "[demo_entry ''a'' ''a'' ''5'', demo_entry ''d'' ''dir'' ''8'']" and ?known = "\<lambda>c. if c = ''dir'' then 1 else (0::nat)"
  have size: "cast_u64 demo_ipfs_env (ar_size (demo_entry a b [d])) = of_nat (of_char d - 48)" for a b d
    by (simp add: demo_ipfs_env_defs demo_entry_def read_digits_def)
  have new: "new_total demo_ipfs_env ?known ?fs = 5"
    by (simp add: new_total_def size) (simp add: demo_entry_def)
  have user: "get_user_id_by_api_key demo_ipfs_env ''k'' demo_start = (7, demo_start)"
    by (simp add: get_user_id_by_api_key_def demo_ipfs_env_defs)
  have known: "snd (fst (dao_file_id demo_ipfs_env 7 c w)) = ?known c" for c w by (simp add: demo_ipfs_env_defs)
  have "fl_cid (db_file demo_ipfs_env 7 ap ?fs (demo_entry a b c)) = b" for ap a b c by (simp add: demo_entry_def)
  then show ?thesis
    using storage_charged [OF user, of "zero_add_param\<lparr>ap_wrap_with_directory := True\<rparr>" ?fs ?known] known new size
    by (simp add: demo_ipfs_env_defs)
qed

end
