(* ===== verification/IpfsLimit.thy ===== *)
theory IpfsLimit
  imports IpfsService
begin

text \<open>
  The limits of the IPFS users: \<^verbatim>\<open>ratelimit/v1/ratelimit_ipfs.go\<close>.  Usage and limits
  are hashes in Redis, with a field for the storage and one for the transfer in each direction.
\<close>

section \<open>Environment\<close>

text \<open>
  A hash is a list of fields and texts.  \<open>rd_hset\<close> gets a number, which the client writes as text.
\<close>

record 'w ipfs_limit_env = "'w ipfs_env" +
  rd_hgetall :: "string \<Rightarrow> 'w \<Rightarrow> (gerr + (string \<times> string) list) \<times> 'w"
  rd_hset :: "string \<Rightarrow> string \<Rightarrow> int \<Rightarrow> 'w \<Rightarrow> gerr option \<times> 'w"
  is_not_found :: "gerr \<Rightarrow> bool"
  ck_usage :: "string \<Rightarrow> nat \<Rightarrow> string"
  ck_limit :: "string \<Rightarrow> nat \<Rightarrow> string"
  ck_bw_day_up :: "string \<Rightarrow> nat \<Rightarrow> go_time \<Rightarrow> string"
  ck_bw_day_down :: "string \<Rightarrow> nat \<Rightarrow> go_time \<Rightarrow> string"

definition BandWidthUpload :: nat where
  "BandWidthUpload = 1"

definition BandWidthDownload :: nat where
  "BandWidthDownload = 2"

section \<open>Counting the bandwidth\<close>

definition bandwidth_hook ::
  "('w, 'x) ipfs_limit_env_scheme \<Rightarrow> string list \<Rightarrow> nat \<Rightarrow> string \<Rightarrow> int \<Rightarrow> nat \<Rightarrow> 'w \<Rightarrow> gerr option \<times> 'w" where
  "bandwidth_hook E whitelist c api_key file_size bw_type w =
     (case allow_whitelist E whitelist c api_key 1 w of
        ((_, Some e), w1) \<Rightarrow> (Some e, w1)
      | ((True, None), w1) \<Rightarrow> (None, w1)
      | ((False, None), w1) \<Rightarrow>
          (let (t, w2) = now E w1 in
           if bw_type = BandWidthUpload then
             (None, incr_ipfs_usage E api_key (fld_transfer_up E) c file_size
                      (increase_and_set_expire E (ck_bw_day_up E api_key c t) file_size 129600 w2))
           else if bw_type = BandWidthDownload then
             (None, incr_ipfs_usage E api_key (fld_transfer_down E) c file_size
                      (increase_and_set_expire E (ck_bw_day_down E api_key c t) file_size 129600 w2))
           else (None, w2)))"

section \<open>Checking the limit\<close>

text \<open>
  The usage, an error, and whether to go on.  A user without a record gets one, but what was
  written is not read again.
\<close>

definition get_ipfs_user_usage ::
  "('w, 'x) ipfs_limit_env_scheme \<Rightarrow> string \<Rightarrow> nat \<Rightarrow> 'w \<Rightarrow> ((string \<times> u64) list \<times> gerr option \<times> bool) \<times> 'w" where
  "get_ipfs_user_usage E api_key c w =
     (case rd_hgetall E (ck_usage E api_key c) w of
        (Inl err, w1) \<Rightarrow>
          if is_not_found E err then
            (case get_ipfs_user_no_cache E api_key w1 of
               ((_, Some e), w2) \<Rightarrow> (([], Some ''get ipfs User form db failed'', True), w2)
             | ((user, None), w2) \<Rightarrow>
                 (let w3 = snd (rd_hset E (ck_usage E api_key c) (fld_storage E) (iu_total_storage user) w2);
                      w4 = snd (rd_hset E (ck_usage E api_key c) (fld_transfer_up E) (iu_transfer_up user) w3);
                      w5 = snd (rd_hset E (ck_usage E api_key c) (fld_transfer_down E) (iu_transfer_down user) w4)
                  in (([], None, True), w5)))
          else (([], Some err, False), w1)
      | (Inr record_texts, w1) \<Rightarrow> ((map (\<lambda>(k, v). (k, cast_u64 E v)) record_texts, None, True), w1))"

text \<open>A field that is missing in the limits reads as the empty text.\<close>

definition limit_text :: "(string \<times> string) list \<Rightarrow> string \<Rightarrow> string" where
  "limit_text user_limit k = (case map_of user_limit k of None \<Rightarrow> [] | Some v \<Rightarrow> v)"

definition out_of_limit ::
  "('w, 'x) ipfs_limit_env_scheme \<Rightarrow> (string \<times> string) list \<Rightarrow> int \<Rightarrow> nat \<Rightarrow> string \<times> u64 \<Rightarrow> bool" where
  "out_of_limit E user_limit file_size bw_type kv =
     (let (k, v) = kv;
          usage = (if (k = fld_storage E \<or> k = fld_transfer_up E) \<and> bw_type = BandWidthUpload
                   then v + word_of_int file_size else v);
          usage = (if k = fld_transfer_down E \<and> bw_type = BandWidthDownload
                   then usage + word_of_int file_size else usage)
      in cast_u64 E (limit_text user_limit k) \<le> usage)"

definition check_ipfs_limit ::
  "('w, 'x) ipfs_limit_env_scheme \<Rightarrow> string \<Rightarrow> nat \<Rightarrow> int \<Rightarrow> nat \<Rightarrow> 'w \<Rightarrow> (bool \<times> gerr option) \<times> 'w" where
  "check_ipfs_limit E api_key c file_size bw_type w =
     (case get_ipfs_user_usage E api_key c w of
        ((_, err, False), w1) \<Rightarrow> ((False, err), w1)
      | ((usage_record, _, True), w1) \<Rightarrow>
          (case rd_hgetall E (ck_limit E api_key c) w1 of
             (Inl e, w2) \<Rightarrow> ((False, Some ''can not read the plan limit''), w2)
           | (Inr user_limit, w2) \<Rightarrow>
               ((\<not> list_ex (out_of_limit E user_limit file_size bw_type) usage_record, None), w2)))"

section \<open>What the check means\<close>

text \<open>How much of a transfer counts against a field.\<close>

definition counted :: "('w, 'x) ipfs_limit_env_scheme \<Rightarrow> string \<Rightarrow> int \<Rightarrow> nat \<Rightarrow> nat" where
  "counted E k file_size bw_type =
     (if bw_type = BandWidthUpload \<and> k \<in> {fld_storage E, fld_transfer_up E} \<or>
         bw_type = BandWidthDownload \<and> k = fld_transfer_down E then nat file_size else 0)"

lemma unat_add_size:
  assumes "0 \<le> sz" "unat (v :: u64) + nat sz < 2 ^ 64"
  shows "unat (v + word_of_int sz) = unat v + nat sz"
proof -
  have s: "word_of_int sz = (of_nat (nat sz) :: u64)" using assms(1) by simp
  have n: "unat (of_nat (nat sz) :: u64) = nat sz"
    using assms(2) by (simp add: unat_of_nat take_bit_nat_eq_self)
  show ?thesis using assms(2) n unfolding s by (subst unat_add_lem [THEN iffD1]) simp_all
qed

lemma out_of_limit_iff:
  assumes "0 \<le> sz" "unat v + nat sz < 2 ^ 64"
  shows "out_of_limit E lim sz ty (k, v) \<longleftrightarrow> unat (cast_u64 E (limit_text lim k)) \<le> unat v + counted E k sz ty"
  using unat_add_size [OF assms]
  by (auto simp add: out_of_limit_def counted_def word_le_nat_alt BandWidthUpload_def BandWidthDownload_def Let_def)

text \<open>
  C13. The limit check is the comparison it stands for.  When usage and limits can be read and
  no sum reaches 2^64, the check succeeds exactly when every field of the usage stays below its limit
  with the transfer counted; so a user whose usage has no record yet is not limited at all.
\<close>

theorem limit_check_equals_spec:
  assumes "rd_hgetall E (ck_usage E api_key c) w = (Inr usage, w1)" "rd_hgetall E (ck_limit E api_key c) w1 = (Inr lim, w2)"
    and "0 \<le> sz" "\<forall>(k, t) \<in> set usage. unat (cast_u64 E t) + nat sz < 2 ^ 64"
  shows "check_ipfs_limit E api_key c sz ty w =
    ((\<forall>(k, t) \<in> set usage. unat (cast_u64 E t) + counted E k sz ty < unat (cast_u64 E (limit_text lim k)), None), w2)"
proof -
  have o: "out_of_limit E lim sz ty (fst x, cast_u64 E (snd x)) \<longleftrightarrow>
      unat (cast_u64 E (limit_text lim (fst x))) \<le> unat (cast_u64 E (snd x)) + counted E (fst x) sz ty"
    if "x \<in> set usage" for x
    using assms(4) that by (intro out_of_limit_iff [OF assms(3)]) (auto simp: case_prod_unfold)
  then have "\<not> list_ex (out_of_limit E lim sz ty) (map (\<lambda>(k, t). (k, cast_u64 E t)) usage) \<longleftrightarrow>
      (\<forall>(k, t) \<in> set usage. unat (cast_u64 E t) + counted E k sz ty < unat (cast_u64 E (limit_text lim k)))"
    by (simp add: list_ex_iff case_prod_unfold not_le)
  then show ?thesis by (simp add: check_ipfs_limit_def get_ipfs_user_usage_def assms(1,2))
qed

text \<open>A user that the database does not know is not limited either.\<close>

lemma unknown_user_is_not_limited:
  assumes "rd_hgetall E (ck_usage E api_key c) w = (Inl err, w1)" "is_not_found E err"
    and "get_ipfs_user_no_cache E api_key w1 = ((user, Some e), w2)" "rd_hgetall E (ck_limit E api_key c) w2 = (Inr lim, w3)"
  shows "check_ipfs_limit E api_key c sz ty w = ((True, None), w3)"
  using assms by (simp add: check_ipfs_limit_def get_ipfs_user_usage_def)

text \<open>The example user has used 90 of 100 bytes of storage and all of its transfer but one byte.\<close>

definition demo_usage :: "(string \<times> string) list" where
  "demo_usage = [(''storage'', ''90''), (''up'', ''99''), (''down'', ''5'')]"

definition demo_limit :: "(string \<times> string) list" where
  "demo_limit = [(''storage'', ''100''), (''up'', ''200''), (''down'', ''50'')]"

definition demo_limit_env :: "demo_world ipfs_limit_env" where
  "demo_limit_env =
     ipfs_env.extend demo_ipfs_env
       (ipfs_limit_env.fields
          (\<lambda>k w. (Inr (if k = ''usage:k'' then demo_usage else if k = ''limit:k'' then demo_limit else []), w))
          (\<lambda>k f n w. (None, jot (k @ f) (show_int n) w)) (\<lambda>e. e = ''redis: nil'')
          (\<lambda>k c. ''usage:'' @ k) (\<lambda>k c. ''limit:'' @ k) (\<lambda>k c t. ''bwup:'' @ k) (\<lambda>k c t. ''bwdown:'' @ k))"

lemmas demo_limit_env_defs = demo_limit_env_def ipfs_env.defs ipfs_limit_env.defs

theorem limit_check_equals_spec_witness:
  "check_ipfs_limit demo_limit_env ''k'' 1 9 BandWidthUpload demo_start = ((True, None), demo_start) \<and>
   check_ipfs_limit demo_limit_env ''k'' 1 10 BandWidthUpload demo_start = ((False, None), demo_start)"
proof -
  let ?E = demo_limit_env
  have r: "rd_hgetall ?E (ck_usage ?E ''k'' 1) demo_start = (Inr demo_usage, demo_start)" "rd_hgetall ?E (ck_limit ?E ''k'' 1) demo_start = (Inr demo_limit, demo_start)"
    by (simp_all add: demo_limit_env_defs)
  have c: "cast_u64 ?E t = of_nat (read_digits t)" for t
    by (simp add: demo_limit_env_defs demo_ipfs_env_defs)
  have f: "fld_storage ?E = ''storage''" "fld_transfer_up ?E = ''up''" "fld_transfer_down ?E = ''down''"
    by (simp_all add: demo_limit_env_defs demo_ipfs_env_defs)
  have "\<forall>(k, t) \<in> set demo_usage. unat (cast_u64 ?E t) + nat n < 2 ^ 64" if "n \<in> {9, 10}" for n :: int
    using that by (auto simp: demo_usage_def c read_digits_def)
  then show ?thesis
    using limit_check_equals_spec [OF r, of 9 BandWidthUpload] limit_check_equals_spec [OF r, of 10 BandWidthUpload]
    by (auto simp: demo_usage_def demo_limit_def limit_text_def counted_def f c read_digits_def BandWidthUpload_def)
qed

end
