(* ===== verification/Ipfs.thy ===== *)
theory Ipfs
  imports IpfsLimit Forward Chains PlainJson
begin

text \<open>
  The IPFS gateway: \<^verbatim>\<open>pkg/handler/ipfsHandler.go\<close> and \<^verbatim>\<open>pkg/handler/ipfs_proxy.go\<close>.
  A request is checked, prepared (limits and parameters), sent to the node, and recorded.  The
  libraries of IPFS and the parameter binder of echo are parameters; so is the node, a separate
  argument of the definitions that talk to it.
\<close>

section \<open>Environment\<close>

record node_stat =
  ns_hash :: string
  ns_cumulative_size :: int

text \<open>
  \<open>dag_get\<close> fetches an object and asks for its size, either of which may fail.  A binder yields
  its error and what is then in the structure.
\<close>

record 'w ipfs_gate_env = "'w ipfs_limit_env" +
  parse_cid :: "string \<Rightarrow> gerr + string"
  dag_get :: "string \<Rightarrow> 'w \<Rightarrow> (gerr + (gerr + node_stat)) \<times> 'w"
  new_path :: "string \<Rightarrow> gerr + string"
  pin_add :: "string \<Rightarrow> 'w \<Rightarrow> gerr option \<times> 'w"
  bind_add :: "url_values \<Rightarrow> gerr option \<times> add_param"
  bind_pin :: "url_values \<Rightarrow> gerr option \<times> pin_param"
  bind_pin_ls :: "url_values \<Rightarrow> gerr option \<times> pin_ls_param"
  bind_update_pin :: "url_values \<Rightarrow> gerr option \<times> update_pin_param"
  bind_pin_rm :: "url_values \<Rightarrow> gerr option \<times> pin_rm_param"
  client_write :: "bytes \<Rightarrow> 'w \<Rightarrow> gerr option \<times> 'w"

text \<open>The node: whether a request can be made, and its status, headers and body.\<close>

record 'w ipfs_node =
  node_request :: "string \<Rightarrow> string \<Rightarrow> gerr option"
  node_do :: "http_call \<Rightarrow> 'w \<Rightarrow> (gerr + nat \<times> (string \<times> string list) list \<times> (gerr + bytes)) \<times> 'w"

record ipfs_handler =
  ih_json :: json_handler
  ih_endpoint :: string

text \<open>
  The handler has the JSON-RPC handler of its chain without methods and without a proxy (nil, and
  never used); \<open>url_api\<close> is the error of the client library, if any, which is a panic.
\<close>

definition no_proxy :: proxy_config where
  "no_proxy = \<lparr>http_upstream = [], ws_upstream = [], http_erigon_stream = [], ws_erigon_upstream = [], cache_time = 0,
     chain_id = 0, cacheable_methods = []\<rparr>"

definition new_ipfs_handler :: "(string \<Rightarrow> gerr option) \<Rightarrow> chain_constant \<Rightarrow> app \<Rightarrow> ipfs_handler outcome" where
  "new_ipfs_handler url_api k a =
     (let endpoint = cf_ipfs_schemes (app_config a) @ ''://'' @ cf_ipfs_host (app_config a) @ '':'' @
                     show_int (cf_ipfs_port (app_config a))
      in case url_api endpoint of
           Some e \<Rightarrow> Panic e
         | None \<Rightarrow> Ret \<lparr>ih_json = new_json_rpc_handler k [] [] [] [] no_proxy a, ih_endpoint = endpoint\<rparr>)"

section \<open>Replies\<close>

text \<open>
  A JSON object of texts, the text pong, the empty list of pins, or the node's reply.  The headers
  of a JSON reply are left out.
\<close>

datatype ipfs_reply =
    IpfsJson nat "string \<Rightarrow> string option"
  | IpfsPong
  | IpfsNoPins
  | IpfsBlob nat header bytes

text \<open>
  \<open>fail_with\<close> sets the message of the reply.  \<^verbatim>\<open>echoReturnWithMsg\<close> has a parameter
  that hides the constant, so the text becomes a name as well.
\<close>

definition fail_with :: "nat \<Rightarrow> string \<Rightarrow> ipfs_reply" where
  "fail_with status t = IpfsJson status [''message'' \<mapsto> t]"

definition echo_return_with_msg :: "nat \<Rightarrow> string \<Rightarrow> ipfs_reply" where
  "echo_return_with_msg status t = IpfsJson status [''message'' \<mapsto> [], t \<mapsto> t]"

definition return_ipfs_result ::
  "('w, 'x) ipfs_gate_env_scheme \<Rightarrow> nat \<Rightarrow> header \<Rightarrow> bytes \<Rightarrow> 'w \<Rightarrow> ipfs_reply \<times> 'w" where
  "return_ipfs_result E status out body w =
     (case client_write E body w of
        (Some e, w1) \<Rightarrow> (fail_with 500 e, w1)
      | (None, w1) \<Rightarrow> (IpfsBlob status out body, w1))"

section \<open>Addresses\<close>

definition ipfs_bind_api_key :: "string \<Rightarrow> gerr + string" where
  "ipfs_bind_api_key path =
     (let path_list = str_split (CHR ''/'') path in
      if length path_list < 3 then Inl ''path error''
      else if length (path_list ! 2) \<noteq> 32 then Inl ''key error''
      else Inr (path_list ! 2))"

definition proxy_url :: "ipfs_handler \<Rightarrow> string \<Rightarrow> string \<Rightarrow> string" where
  "proxy_url h path query =
     (let url = ih_endpoint h @ ''/api/v0'' @ path in if query \<noteq> [] then url @ ''?'' @ query else url)"

definition ipfs_method :: "string \<Rightarrow> string \<Rightarrow> string" where
  "ipfs_method apiKey path = trim_prefix ''/api/v0'' (trim_prefix (''/'' @ apiKey) (trim_prefix ''/ipfs'' path))"

section \<open>Checks\<close>

definition check_ipfs_user_limit ::
  "('w, 'x) ipfs_limit_env_scheme \<Rightarrow> string \<Rightarrow> int \<Rightarrow> nat \<Rightarrow> 'w \<Rightarrow> ipfs_reply option \<times> 'w" where
  "check_ipfs_user_limit E apiKey bw_size bw_type w =
     (case check_ipfs_limit E apiKey (ipfs_chain_id E) bw_size bw_type w of
        ((_, Some e), w1) \<Rightarrow> (Some (fail_with 500 e), w1)
      | ((ok, None), w1) \<Rightarrow> (if \<not> ok then Some (fail_with 400 ''out of usage limit'') else None, w1))"

text \<open>The key and the method of the request, or the reply.\<close>

definition request_key ::
  "('w, 'x) ipfs_gate_env_scheme \<Rightarrow> raw_request \<Rightarrow> 'w \<Rightarrow> (gerr + string) \<times> 'w" where
  "request_key E r w =
     (let subdomain = hd (str_split (CHR ''.'') (header_get ''Domain'' (raw_header r))) in
      if subdomain = [] then (ipfs_bind_api_key (raw_path r), w)
      else
        (case get_api_key_by_active_gateway E subdomain w of
           (apiKey, w1) \<Rightarrow> (if apiKey = [] then Inl ''not found apiKey'' else Inr apiKey, w1)))"

definition request_check ::
  "('w, 'x) ipfs_gate_env_scheme \<Rightarrow> ipfs_handler \<Rightarrow> raw_request \<Rightarrow> 'w \<Rightarrow> (ipfs_reply + string \<times> string) \<times> 'w" where
  "request_check E h r w =
     (case request_key E r w of
        (Inl e, w1) \<Rightarrow> (Inl (fail_with 401 e), w1)
      | (Inr apiKey, w1) \<Rightarrow>
          (let path = ipfs_method apiKey (raw_path r) in
           if str_contains path ''ping'' then (Inl IpfsPong, w1)
           else if \<not> check_method path then (Inl (fail_with 405 ''not supported method''), w1)
           else
             (case rate_limit E (ih_json h) apiKey 1 w1 of
                (Some e, w2) \<Rightarrow> (Inl (fail_with 400 (error_text e)), w2)
              | (None, w2) \<Rightarrow> (Inr (apiKey, path), w2))))"

section \<open>Preparing\<close>

definition get_ipfs_objects_stats ::
  "('w, 'x) ipfs_gate_env_scheme \<Rightarrow> string \<Rightarrow> 'w \<Rightarrow> (gerr + node_stat) \<times> 'w" where
  "get_ipfs_objects_stats E cid_str w =
     (case parse_cid E cid_str of
        Inl e \<Rightarrow> (Inl e, w)
      | Inr cid \<Rightarrow>
          (case dag_get E cid w of
             (Inl e, w1) \<Rightarrow> (Inl e, w1)
           | (Inr stat, w1) \<Rightarrow> (stat, w1)))"

text \<open>
  What is known of the request when it goes to the node: the bandwidth to count, and for pins the
  file to record.  The size that \<^verbatim>\<open>pinAddFile\<close> declares inside hides the one it returns.
\<close>

record ipfs_call =
  ic_key :: string
  ic_path :: string
  ic_bw_type :: nat
  ic_bw_size :: int
  ic_pin_files :: "add_resp list"
  ic_pin :: pin_param
  ic_update :: update_pin_param

definition new_call :: "string \<Rightarrow> string \<Rightarrow> ipfs_call" where
  "new_call apiKey path =
     \<lparr>ic_key = apiKey, ic_path = path, ic_bw_type = 0, ic_bw_size = 0, ic_pin_files = [],
      ic_pin = \<lparr>pp_recursive = False, pp_progress = False, pp_arg = []\<rparr>, ic_update = \<lparr>pu_unpin = False, pu_arg = []\<rparr>\<rparr>"

definition pin_add_file ::
  "('w, 'x) ipfs_gate_env_scheme \<Rightarrow> string \<Rightarrow> string \<Rightarrow> 'w \<Rightarrow> (ipfs_reply + nat \<times> int \<times> add_resp list) \<times> 'w" where
  "pin_add_file E apiKey cid w =
     (case get_user_ipfs_file E apiKey cid w of ((file, _), w1) \<Rightarrow>
        if fl_id file = 0 then
          (case get_ipfs_objects_stats E cid w1 of
             (Inl e, w2) \<Rightarrow> (Inl (fail_with 500 ''pin files failed''), w2)
           | (Inr stats, w2) \<Rightarrow>
               (case check_ipfs_user_limit E apiKey (ns_cumulative_size stats) BandWidthUpload w2 of
                  (Some reply, w3) \<Rightarrow> (Inl reply, w3)
                | (None, w3) \<Rightarrow>
                    (Inr (BandWidthUpload, 0,
                       [zero_add_resp\<lparr>ar_hash := ns_hash stats, ar_size := cast_text E (ns_cumulative_size stats)\<rparr>]), w3)))
        else (Inr (0, 0, []), w1))"

text \<open>The size of an upload is what its header says; without the header, indexing panics.\<close>

definition upload_check ::
  "('w, 'x) ipfs_gate_env_scheme \<Rightarrow> raw_request \<Rightarrow> ipfs_call \<Rightarrow> 'w \<Rightarrow> (ipfs_reply + ipfs_call) outcome \<times> 'w" where
  "upload_check E r call w =
     (case raw_header r ''Content-Length'' of
        Some (v # _) \<Rightarrow>
          (case check_ipfs_user_limit E (ic_key call) (cast_i64 E v) BandWidthUpload w of
             (Some reply, w1) \<Rightarrow> (Ret (Inl reply), w1)
           | (None, w1) \<Rightarrow> (Ret (Inr (call\<lparr>ic_bw_type := BandWidthUpload, ic_bw_size := cast_i64 E v\<rparr>)), w1))
      | _ \<Rightarrow> (Panic ''index out of range'', w))"

definition download_check ::
  "('w, 'x) ipfs_gate_env_scheme \<Rightarrow> url_values \<Rightarrow> ipfs_call \<Rightarrow> 'w \<Rightarrow> (ipfs_reply + ipfs_call) outcome \<times> 'w" where
  "download_check E q call w =
     (case get_ipfs_objects_stats E (values_get ''arg'' q) w of
        (Inl e, w1) \<Rightarrow> (Ret (Inl (echo_return_with_msg 500 ''get ipfs object stats error'')), w1)
      | (Inr stats, w1) \<Rightarrow>
          (case check_ipfs_user_limit E (ic_key call) (ns_cumulative_size stats) BandWidthDownload w1 of
             (Some reply, w2) \<Rightarrow> (Ret (Inl reply), w2)
           | (None, w2) \<Rightarrow>
               (Ret (Inr (call\<lparr>ic_bw_type := BandWidthDownload, ic_bw_size := ns_cumulative_size stats\<rparr>)), w2)))"

definition pin_check ::
  "('w, 'x) ipfs_gate_env_scheme \<Rightarrow> string \<Rightarrow> ipfs_call \<Rightarrow> 'w \<Rightarrow> (ipfs_reply + ipfs_call) outcome \<times> 'w" where
  "pin_check E cid call w =
     (case pin_add_file E (ic_key call) cid w of
        (Inl reply, w1) \<Rightarrow> (Ret (Inl reply), w1)
      | (Inr (bw_type, bw_size, files), w1) \<Rightarrow>
          (Ret (Inr (call\<lparr>ic_bw_type := bw_type, ic_bw_size := bw_size, ic_pin_files := files\<rparr>)), w1))"

definition upload_paths :: "string list" where
  "upload_paths = [''/add'', ''/dag/put'', ''/block/put'']"

definition download_paths :: "string list" where
  "download_paths = [''/dag/get'', ''/get'', ''/cat'', ''/block/get'']"

definition prepare_call ::
  "('w, 'x) ipfs_gate_env_scheme \<Rightarrow> raw_request \<Rightarrow> string \<Rightarrow> string \<Rightarrow> 'w \<Rightarrow> (ipfs_reply + ipfs_call) outcome \<times> 'w" where
  "prepare_call E r apiKey path w =
     (let call = new_call apiKey path; q = parse_query (raw_query r) in
      if path \<in> set upload_paths then upload_check E r call w
      else if path \<in> set download_paths then download_check E q call w
      else if path = ''/pin/ls'' then
        (case bind_pin_ls E q of
           (Some e, _) \<Rightarrow> (Ret (Inl (echo_return_with_msg 400 ''read the pin ls param failed'')), w)
         | (None, p) \<Rightarrow> (Ret (if pl_arg p = [] then Inl IpfsNoPins else Inr call), w))
      else if path = ''/pin/add'' then
        (case bind_pin E q of (e, p) \<Rightarrow>
           if e \<noteq> None \<or> pp_arg p = [] then (Ret (Inl (echo_return_with_msg 400 ''read the pin add param failed'')), w)
           else pin_check E (pp_arg p) (call\<lparr>ic_pin := p\<rparr>) w)
      else if path = ''/pin/update'' then
        (case bind_update_pin E q of (e, p) \<Rightarrow>
           if e \<noteq> None \<or> length (pu_arg p) < 2 then (Ret (Inl (echo_return_with_msg 400 ''pin update param error'')), w)
           else pin_check E (pu_arg p ! 1) (call\<lparr>ic_update := p\<rparr>) w)
      else (Ret (Inr call), w))"

section \<open>The node's reply\<close>

definition node_header :: "header \<Rightarrow> header" where
  "node_header h = h(''User-Agent'' \<mapsto> [], ''Referer'' \<mapsto> [], ''Origin'' \<mapsto> [])"

definition proxy_to_ipfs ::
  "'w ipfs_node \<Rightarrow> ipfs_handler \<Rightarrow> raw_request \<Rightarrow> string \<Rightarrow> 'w \<Rightarrow>
   (ipfs_reply + nat \<times> (string \<times> string list) list \<times> (gerr + bytes)) \<times> 'w" where
  "proxy_to_ipfs N h r path w =
     (let url = proxy_url h path (query_encode (parse_query (raw_query r))) in
      case node_request N (raw_method r) url of
        Some e \<Rightarrow> (Inl (fail_with 500 e), w)
      | None \<Rightarrow>
          (case node_do N \<lparr>hc_method = raw_method r, hc_url = url, hc_header = node_header (raw_header r),
                          hc_body = raw_body r\<rparr> w of
             (Inl e, w1) \<Rightarrow> (Inl (fail_with 400 e), w1)
           | (Inr answer, w1) \<Rightarrow> (Inr answer, w1)))"

text \<open>
  \<^verbatim>\<open>json.Unmarshal\<close> into an \<^verbatim>\<open>AddResp\<close> that may hold an earlier line: a member of
  the wrong type is an error, and the others are read all the same.
\<close>

definition read_text :: "json \<Rightarrow> string \<Rightarrow> bool \<times> string" where
  "read_text j old = (case j of JStr s \<Rightarrow> (False, s) | JNull \<Rightarrow> (False, old) | _ \<Rightarrow> (True, old))"

definition read_add_member :: "string \<times> string \<times> json \<Rightarrow> bool \<times> add_resp \<Rightarrow> bool \<times> add_resp" where
  "read_add_member m s =
     (case (m, s) of ((k, _, j), (err, v)) \<Rightarrow>
        if field_matches ''Name'' k then
          (case read_text j (ar_name v) of (e, t) \<Rightarrow> (err \<or> e, v\<lparr>ar_name := t\<rparr>))
        else if field_matches ''Hash'' k then
          (case read_text j (ar_hash v) of (e, t) \<Rightarrow> (err \<or> e, v\<lparr>ar_hash := t\<rparr>))
        else if field_matches ''Size'' k then
          (case read_text j (ar_size v) of (e, t) \<Rightarrow> (err \<or> e, v\<lparr>ar_size := t\<rparr>))
        else (err, v))"

definition unmarshal_add_resp :: "bytes \<Rightarrow> add_resp \<Rightarrow> bool \<times> add_resp" where
  "unmarshal_add_resp raw v =
     (case json_parse raw of
        None \<Rightarrow> (True, v)
      | Some (JObj ms) \<Rightarrow> fold read_add_member ms (False, v)
      | Some JNull \<Rightarrow> (False, v)
      | Some _ \<Rightarrow> (True, v))"

fun read_pieces :: "bytes list \<Rightarrow> add_resp \<Rightarrow> add_resp list" where
  "read_pieces [] v = []"
| "read_pieces (p # ps) v =
     (if length p < 5 then read_pieces ps v
      else case unmarshal_add_resp (p @ ''}'') v of
             (True, v1) \<Rightarrow> read_pieces ps v1
           | (False, v1) \<Rightarrow> v1 # read_pieces ps v1)"

definition read_add_results :: "bytes \<Rightarrow> add_resp list" where
  "read_add_results body =
     (case unmarshal_add_resp body zero_add_resp of
        (True, v) \<Rightarrow> read_pieces (str_split (CHR ''}'') body) v
      | (False, v) \<Rightarrow> [v])"

definition get_add_file_list ::
  "('w, 'x) ipfs_gate_env_scheme \<Rightarrow> raw_request \<Rightarrow> bytes \<Rightarrow> add_resp list \<times> add_param" where
  "get_add_file_list E r body =
     (let q = parse_query (raw_query r) in
      (read_add_results body,
       (snd (bind_add E q))\<lparr>ap_pin_status := (if values_get ''pin'' q = ''false'' then pin_status_unpin E else pin_status_pin E)\<rparr>))"

section \<open>Recording\<close>

definition pin_add_object :: "('w, 'x) ipfs_gate_env_scheme \<Rightarrow> string \<Rightarrow> 'w \<Rightarrow> gerr option \<times> 'w" where
  "pin_add_object E cid w = (case new_path E cid of Inl e \<Rightarrow> (Some e, w) | Inr p \<Rightarrow> pin_add E p w)"

definition pin_hook :: "('w, 'x) ipfs_gate_env_scheme \<Rightarrow> string \<Rightarrow> string \<Rightarrow> add_resp list \<Rightarrow> 'w \<Rightarrow> 'w" where
  "pin_hook E apiKey pin_cid files w =
     (if files \<noteq> [] then snd (add_files E apiKey (zero_add_param\<lparr>ap_pin_status := pin_status_pin E\<rparr>) files w)
      else snd (pin_object E apiKey pin_cid w))"

definition un_pin_db_with_pined :: "('w, 'x) ipfs_gate_env_scheme \<Rightarrow> string \<Rightarrow> string \<Rightarrow> 'w \<Rightarrow> 'w" where
  "un_pin_db_with_pined E apiKey cid w =
     (let w1 = snd (un_pin_object E apiKey cid w) in
      case get_ipfs_pin_file E cid w1 of ((file, _), w2) \<Rightarrow>
        if 0 < fl_id file then snd (pin_add_object E cid w2) else w2)"

text \<open>The upload that a goroutine of its own records: key, parameters and files.\<close>

type_synonym add_task = "string \<times> add_param \<times> add_resp list"

definition run_task :: "('w, 'x) ipfs_env_scheme \<Rightarrow> add_task \<Rightarrow> 'w \<Rightarrow> gerr option outcome \<times> 'w" where
  "run_task E task w = (case task of (apiKey, p, files) \<Rightarrow> add_files E apiKey p files w)"

text \<open>The database after a successful call: the reply, when it ends there, and the goroutine.\<close>

definition record_call ::
  "('w, 'x) ipfs_gate_env_scheme \<Rightarrow> raw_request \<Rightarrow> ipfs_call \<Rightarrow> bytes \<Rightarrow> 'w \<Rightarrow> (ipfs_reply + add_task option) \<times> 'w" where
  "record_call E r call body w =
     (if ic_path call = ''/add'' then
        (case get_add_file_list E r body of (files, p) \<Rightarrow> (Inr (Some (ic_key call, p, files)), w))
      else if ic_path call = ''/pin/add'' then
        (Inr None, pin_hook E (ic_key call) (pp_arg (ic_pin call)) (ic_pin_files call) w)
      else if ic_path call = ''/pin/update'' then
        (let w1 = pin_hook E (ic_key call) (pu_arg (ic_update call) ! 1) (ic_pin_files call) w in
         (Inr None, if pu_unpin (ic_update call)
                    then un_pin_db_with_pined E (ic_key call) (pu_arg (ic_update call) ! 0) w1 else w1))
      else if ic_path call = ''/pin/rm'' then
        (case bind_pin_rm E (parse_query (raw_query r)) of (e, p) \<Rightarrow>
           if e \<noteq> None \<or> pr_arg p = [] then (Inl (echo_return_with_msg 400 ''pin rm param error''), w)
           else (Inr None, un_pin_db_with_pined E (ic_key call) (pr_arg p) w))
      else (Inr None, w))"

definition finish_call ::
  "('w, 'x) ipfs_gate_env_scheme \<Rightarrow> ipfs_handler \<Rightarrow> raw_request \<Rightarrow> ipfs_call \<Rightarrow>
   nat \<times> (string \<times> string list) list \<times> (gerr + bytes) \<Rightarrow> 'w \<Rightarrow> (ipfs_reply \<times> add_task option) \<times> 'w" where
  "finish_call E h r call answer w =
     (case answer of
        (status, headers, Inl e) \<Rightarrow> ((echo_return_with_msg 500 e, None), w)
      | (status, headers, Inr body) \<Rightarrow>
          (let out = fold (\<lambda>(k, v) g. g(k \<mapsto> v)) headers (raw_out_header r) in
           if status \<noteq> 200 then (case return_ipfs_result E status out body w of (reply, w1) \<Rightarrow> ((reply, None), w1))
           else
             (case record_call E r call body w of
                (Inl reply, w1) \<Rightarrow> ((reply, None), w1)
              | (Inr task, w1) \<Rightarrow>
                  (let w2 = (if 0 < ic_bw_type call
                             then snd (bandwidth_hook E (h_whitelist (ih_json h)) (h_chain_id (ih_json h)) (ic_key call)
                                         (ic_bw_size call) (ic_bw_type call) w1)
                             else w1)
                   in case return_ipfs_result E status out body w2 of (reply, w3) \<Rightarrow> ((reply, task), w3)))))"

definition ipfs_new_logger :: "raw_request \<Rightarrow> unit outcome" where
  "ipfs_new_logger r = (case raw_request_id r of None \<Rightarrow> Panic ''interface conversion'' | Some _ \<Rightarrow> Ret ())"

definition ipfs_proxy ::
  "('w, 'x) ipfs_gate_env_scheme \<Rightarrow> 'w ipfs_node \<Rightarrow> ipfs_handler \<Rightarrow> raw_request \<Rightarrow> 'w \<Rightarrow>
   (ipfs_reply \<times> add_task option) outcome \<times> 'w" where
  "ipfs_proxy E N h r w =
     (case ipfs_new_logger r of
        Panic p \<Rightarrow> (Panic p, w)
      | Ret _ \<Rightarrow>
      (case request_check E h r w of
         (Inl reply, w1) \<Rightarrow> (Ret (reply, None), w1)
       | (Inr (apiKey, path), w1) \<Rightarrow>
      (case prepare_call E r apiKey path w1 of
         (Panic p, w2) \<Rightarrow> (Panic p, w2)
       | (Ret (Inl reply), w2) \<Rightarrow> (Ret (reply, None), w2)
       | (Ret (Inr call), w2) \<Rightarrow>
      (case proxy_to_ipfs N h r path w2 of
         (Inl reply, w3) \<Rightarrow> (Ret (reply, None), w3)
       | (Inr answer, w3) \<Rightarrow>
           (case finish_call E h r call answer w3 of (x, w4) \<Rightarrow> (Ret x, w4))))))"

section \<open>What a request to the node has passed\<close>

lemma request_check_passed:
  assumes "request_check E h r w = (Inr (k, p), w2)"
  obtains w1 where "request_key E r w = (Inr k, w1)" "p = ipfs_method k (raw_path r)" "p \<in> set allow_method"
    "rate_limit E (ih_json h) k 1 w1 = (None, w2)"
proof -
  obtain x w1 where x: "request_key E r w = (x, w1)" by (cases "request_key E r w")
  show thesis
    using assms x that by (auto simp: request_check_def Let_def check_method_def list_ex_iff split: sum.splits if_splits prod.splits option.splits)
qed

lemma check_ipfs_user_limit_passed:
  "check_ipfs_user_limit E k n ty w = (None, w1) \<longleftrightarrow> check_ipfs_limit E k (ipfs_chain_id E) n ty w = ((True, None), w1)"
  by (auto simp: check_ipfs_user_limit_def split: prod.splits option.splits if_splits)

lemma paths_apart:
  "p \<in> set upload_paths \<Longrightarrow> p \<notin> set download_paths" "p \<in> {''/pin/add'', ''/pin/update'', ''/pin/ls''} \<Longrightarrow>
   p \<notin> set upload_paths \<and> p \<notin> set download_paths"
  by (auto simp: upload_paths_def download_paths_def)

lemma prepared_upload:
  assumes "prepare_call E r k p w = (Ret (Inr call), w1)" "p \<in> set upload_paths"
  shows "\<exists>v vs. raw_header r ''Content-Length'' = Some (v # vs) \<and>
    check_ipfs_limit E k (ipfs_chain_id E) (cast_i64 E v) BandWidthUpload w = ((True, None), w1) \<and>
    call = (new_call k p)\<lparr>ic_bw_type := BandWidthUpload, ic_bw_size := cast_i64 E v\<rparr>"
proof -
  have "upload_check E r (new_call k p) w = (Ret (Inr call), w1)" using assms by (simp add: prepare_call_def Let_def)
  moreover have "ic_key (new_call k p) = k" by (simp add: new_call_def)
  ultimately show ?thesis
    by (auto simp: upload_check_def check_ipfs_user_limit_passed split: option.splits list.splits prod.splits)
qed

lemma prepared_download:
  assumes "prepare_call E r k p w = (Ret (Inr call), w2)" "p \<in> set download_paths"
  shows "\<exists>stats w1. get_ipfs_objects_stats E (values_get ''arg'' (parse_query (raw_query r))) w = (Inr stats, w1) \<and>
    check_ipfs_limit E k (ipfs_chain_id E) (ns_cumulative_size stats) BandWidthDownload w1 = ((True, None), w2) \<and>
    call = (new_call k p)\<lparr>ic_bw_type := BandWidthDownload, ic_bw_size := ns_cumulative_size stats\<rparr>"
proof -
  have "p \<notin> set upload_paths" using assms(2) paths_apart by auto
  then have "download_check E (parse_query (raw_query r)) (new_call k p) w = (Ret (Inr call), w2)"
    using assms by (simp add: prepare_call_def Let_def)
  moreover have "ic_key (new_call k p) = k" by (simp add: new_call_def)
  ultimately show ?thesis
    by (auto simp: download_check_def check_ipfs_user_limit_passed split: sum.splits option.splits prod.splits)
qed

text \<open>The object a request pins, if it pins one that the user does not have.\<close>

definition pinned_object :: "('w, 'x) ipfs_gate_env_scheme \<Rightarrow> raw_request \<Rightarrow> string \<Rightarrow> string option" where
  "pinned_object E r p =
     (let q = parse_query (raw_query r) in
      if p = ''/pin/add'' then Some (pp_arg (snd (bind_pin E q)))
      else if p = ''/pin/update'' then Some (pu_arg (snd (bind_update_pin E q)) ! 1) else None)"

definition pins_new_object :: "('w, 'x) ipfs_gate_env_scheme \<Rightarrow> raw_request \<Rightarrow> string \<Rightarrow> string \<Rightarrow> 'w \<Rightarrow> bool" where
  "pins_new_object E r k p w \<longleftrightarrow>
     (case pinned_object E r p of
        None \<Rightarrow> False
      | Some cid \<Rightarrow> fl_id (fst (fst (get_user_ipfs_file E k cid w))) = 0)"

lemma pin_checked:
  assumes "pin_check E cid call w = (Ret (Inr call'), w1)"
  shows "ic_key call' = ic_key call \<and> ic_bw_size call' = 0 \<and>
    ic_bw_type call' = (if fl_id (fst (fst (get_user_ipfs_file E (ic_key call) cid w))) = 0 then BandWidthUpload else 0)"
  using assms by (auto simp: pin_check_def pin_add_file_def split: sum.splits option.splits prod.splits if_splits)

lemma prepared_other:
  assumes "prepare_call E r k p w = (Ret (Inr call), w1)" "p \<notin> set upload_paths" "p \<notin> set download_paths"
  shows "ic_key call = k \<and> ic_bw_size call = 0 \<and>
    ic_bw_type call = (if pins_new_object E r k p w then BandWidthUpload else 0)"
proof -
  have new: "ic_key (new_call k p) = k" "ic_bw_size (new_call k p) = 0" "ic_bw_type (new_call k p) = 0"
    by (simp_all add: new_call_def)
  consider "p = ''/pin/add''" | "p = ''/pin/update''" | "p \<notin> {''/pin/add'', ''/pin/update''}" by blast
  then show ?thesis
  proof cases
    case 1
    then obtain e q where q: "bind_pin E (parse_query (raw_query r)) = (e, q)"
      "pin_check E (pp_arg q) ((new_call k p)\<lparr>ic_pin := q\<rparr>) w = (Ret (Inr call), w1)"
      using assms by (auto simp: prepare_call_def Let_def split: prod.splits if_splits)
    then show ?thesis using pin_checked [OF q(2)] 1 new by (simp add: pins_new_object_def pinned_object_def Let_def)
  next
    case 2
    then obtain e q where q: "bind_update_pin E (parse_query (raw_query r)) = (e, q)"
      "pin_check E (pu_arg q ! 1) ((new_call k p)\<lparr>ic_update := q\<rparr>) w = (Ret (Inr call), w1)"
      using assms by (auto simp: prepare_call_def Let_def split: prod.splits if_splits)
    then show ?thesis using pin_checked [OF q(2)] 2 new by (simp add: pins_new_object_def pinned_object_def Let_def)
  next
    case 3
    then have "call = new_call k p"
      using assms by (auto simp: prepare_call_def Let_def split: prod.splits option.splits if_splits)
    then show ?thesis using 3 new by (auto simp: pins_new_object_def pinned_object_def Let_def)
  qed
qed

section \<open>Reading the node's lines\<close>

text \<open>The line the node writes for a file.\<close>

definition node_text :: "add_resp \<Rightarrow> bytes" where
  "node_text v =
     enc_object [enc_member ''Name'' (enc_string (ar_name v)), enc_member ''Hash'' (enc_string (ar_hash v)),
                 enc_member ''Size'' (enc_string (ar_size v))]"

definition newline :: char where
  "newline = char_of (10::nat)"

definition node_line :: "add_resp \<Rightarrow> bytes" where
  "node_line v = node_text v @ [newline]"

definition plain_entry :: "add_resp \<Rightarrow> bool" where
  "plain_entry v \<longleftrightarrow> plain_text (ar_name v) \<and> plain_text (ar_hash v) \<and> plain_text (ar_size v) \<and>
     ar_wrap_with_dir_cid v = [] \<and> ar_wrap_dir_name v = []"

definition entry_texts :: "add_resp \<Rightarrow> texts" where
  "entry_texts v = [(''Name'', ar_name v), (''Hash'', ar_hash v), (''Size'', ar_size v)]"

lemma entry_plain: "plain_entry v \<Longrightarrow> plain_texts (entry_texts v)"
proof -
  have "plain_text ''Name'' \<and> plain_text ''Hash'' \<and> plain_text ''Size''" by code_simp
  then show "plain_entry v \<Longrightarrow> plain_texts (entry_texts v)" by (simp add: plain_texts_def entry_texts_def plain_entry_def)
qed

lemma node_text_entry: "plain_entry v \<Longrightarrow> node_text v = object_text (entry_texts v)"
  using entry_plain [of v] by (simp add: node_text_def object_text_def entry_texts_def plain_texts_def enc_plain_member)

text \<open>A line without its closing brace.\<close>

definition node_open :: "add_resp \<Rightarrow> bytes" where
  "node_open v = CHR ''{'' # str_join '','' (map (\<lambda>(k, v). plain_member k v) (entry_texts v))"

lemma node_text_open: "plain_entry v \<Longrightarrow> node_text v = node_open v @ ''}''"
  by (simp add: node_text_entry object_text_def enc_object_def node_open_def)

lemma is_ws_newline: "is_ws newline" by code_simp

lemma json_parse_node:
  assumes "plain_entry v" "ws \<in> {[], [newline]}"
  shows "json_parse (ws @ node_text v @ r) = (if skip_ws r = [] then Some (JObj (json_members (entry_texts v))) else None)"
proof -
  have "skip_ws ws = []" using assms(2) is_ws_newline by (auto simp: skip_ws_def)
  then show ?thesis using json_parse_object [OF entry_plain [OF assms(1)]] by (simp add: node_text_entry [OF assms(1)])
qed

lemma read_node_members:
  assumes "plain_entry v" "ar_wrap_with_dir_cid old = []" "ar_wrap_dir_name old = []"
  shows "fold read_add_member (json_members (entry_texts v)) (False, old) = (False, v)"
proof -
  have "field_matches ''Name'' ''Name''" "field_matches ''Hash'' ''Hash''" "\<not> field_matches ''Name'' ''Hash''"
    "field_matches ''Size'' ''Size''" "\<not> field_matches ''Name'' ''Size''" "\<not> field_matches ''Hash'' ''Size''"
    by code_simp+
  then show ?thesis
    using assms by (simp add: json_members_def entry_texts_def read_add_member_def read_text_def plain_entry_def)
qed

lemma unmarshal_node:
  assumes "plain_entry v" "ws \<in> {[], [newline]}" "ar_wrap_with_dir_cid old = []" "ar_wrap_dir_name old = []"
  shows "unmarshal_add_resp (ws @ node_text v @ r) old = (if skip_ws r = [] then (False, v) else (True, old))"
  using json_parse_node [OF assms(1,2), of r] read_node_members [OF assms(1,3,4)] by (simp add: unmarshal_add_resp_def)

lemma plain_no_brace: "plain_text s \<Longrightarrow> CHR ''}'' \<notin> set s"
  by (auto simp: plain_text_def list_all_iff byte_def)

lemma node_open_no_brace: "plain_entry v \<Longrightarrow> CHR ''}'' \<notin> set (node_open v)"
  by (auto simp: node_open_def entry_texts_def plain_member_def plain_entry_def dest: plain_no_brace)

lemma split_node_lines:
  "\<forall>v \<in> set vs. plain_entry v \<Longrightarrow>
   str_split (CHR ''}'') (newline # concat (map node_line vs)) = map (\<lambda>v. newline # node_open v) vs @ [[newline]]"
proof (induction vs)
  case Nil
  then show ?case by code_simp
next
  case (Cons v vs)
  have "newline # concat (map node_line (v # vs)) = (newline # node_open v) @ CHR ''}'' # (newline # concat (map node_line vs))"
    using Cons.prems by (simp add: node_line_def node_text_open)
  moreover have "newline \<noteq> CHR ''}''" by code_simp
  ultimately show ?case
    using Cons str_split_append [of "CHR ''}''" "newline # node_open v"] node_open_no_brace [of v] by simp
qed

lemma node_open_length: "5 \<le> length (node_open v)"
  by (simp add: node_open_def entry_texts_def plain_member_def)

lemma read_node_pieces:
  assumes "\<forall>v \<in> set vs. plain_entry v" "ar_wrap_with_dir_cid old = []" "ar_wrap_dir_name old = []"
  shows "read_pieces (map (\<lambda>v. newline # node_open v) vs @ [[newline]]) old = vs"
  using assms
proof (induction vs arbitrary: old)
  case (Cons v vs)
  then have v: "plain_entry v" "ar_wrap_with_dir_cid v = []" "ar_wrap_dir_name v = []" by (auto simp: plain_entry_def)
  have "unmarshal_add_resp ((newline # node_open v) @ ''}'') old = (False, v)"
    using unmarshal_node [OF v(1), of "[newline]" old "[]"] Cons.prems by (simp add: node_text_open [OF v(1)] skip_ws_def)
  then show ?case using Cons.IH [of v] Cons.prems v node_open_length [of v] by simp
qed simp

section \<open>An example\<close>

text \<open>A key that is whitelisted, a node that answers every call with the same body.\<close>

definition demo_key :: string where
  "demo_key = ''0123456789abcdef0123456789abcdef''"

definition demo_gate_env :: "demo_world ipfs_gate_env" where
  "demo_gate_env =
     ipfs_limit_env.extend demo_limit_env
       (ipfs_gate_env.fields
          (\<lambda>c. Inr c) (\<lambda>c w. (Inr (Inr \<lparr>ns_hash = c, ns_cumulative_size = 12\<rparr>), w)) (\<lambda>c. Inr c) (\<lambda>p w. (None, jot ''repin'' p w))
          (\<lambda>q. (None, zero_add_param\<lparr>ap_wrap_with_directory := (values_get ''wrap-with-directory'' q = ''true'')\<rparr>))
          (\<lambda>q. (None, \<lparr>pp_recursive = False, pp_progress = False, pp_arg = values_get ''arg'' q\<rparr>))
          (\<lambda>q. (None, \<lparr>pl_stream = False, pl_quiet = False, pl_type = [], pl_arg = values_get ''arg'' q\<rparr>))
          (\<lambda>q. (None, \<lparr>pu_unpin = False, pu_arg = (case map_of q ''arg'' of None \<Rightarrow> [] | Some vs \<Rightarrow> vs)\<rparr>))
          (\<lambda>q. (None, \<lparr>pr_recursive = False, pr_arg = values_get ''arg'' q\<rparr>))
          (\<lambda>b w. (None, w)))"

definition demo_node_of :: "bytes \<Rightarrow> demo_world ipfs_node" where
  "demo_node_of body =
     \<lparr>node_request = (\<lambda>m u. None), node_do = (\<lambda>c w. (Inr (200, [], Inr body), jot ''node'' (hc_url c) w))\<rparr>"

definition demo_ipfs_handler :: ipfs_handler where
  "demo_ipfs_handler = \<lparr>ih_json = demo_handler\<lparr>h_whitelist := [demo_key]\<rparr>, ih_endpoint = ''http://ipfs:5001''\<rparr>"

definition demo_ipfs_request :: "string \<Rightarrow> string \<Rightarrow> header \<Rightarrow> raw_request" where
  "demo_ipfs_request path query hdr =
     \<lparr>raw_method = ''POST'', raw_path = ''/ipfs/'' @ demo_key @ ''/api/v0'' @ path, raw_query = query, raw_header = hdr,
      raw_body = None, raw_remote_addr = ''1.2.3.4:5'', raw_request_id = Some ''r'', raw_out_header = Map.empty\<rparr>"

fun reply_body :: "(ipfs_reply \<times> add_task option) outcome \<Rightarrow> bytes" where
  "reply_body (Ret (IpfsBlob status hdr body, task)) = body"
| "reply_body _ = []"

section \<open>Properties\<close>

text \<open>
  C32. A request reaches the node as it was sent.  A path of the gateway with a key of 32 bytes
  yields that key, and the node is asked for the method after it; the query is written anew, and
  reads as the same values in the order of their names.
\<close>

theorem ipfs_address_kept:
  assumes "length k = 32" "CHR ''/'' \<notin> set k" "raw_path r = ''/ipfs/'' @ k @ ''/api/v0/'' @ m"
  shows "ipfs_bind_api_key (raw_path r) = Inr k \<and>
    (\<exists>q. proxy_url h (ipfs_method k (raw_path r)) (query_encode (parse_query (raw_query r))) =
           ih_endpoint h @ ''/api/v0/'' @ m @ (if q = [] then [] else ''?'' @ q) \<and>
         parse_query q = sort_key fst (parse_query (raw_query r)) \<and>
         map_of (parse_query q) = map_of (parse_query (raw_query r)))"
proof -
  have "str_split (CHR ''/'') (raw_path r) = [] # ''ipfs'' # k # str_split (CHR ''/'') (''api/v0/'' @ m)"
    using str_split_append [OF assms(2), of "''api/v0/'' @ m"] by (simp add: assms(3))
  then have key: "ipfs_bind_api_key (raw_path r) = Inr k"
    using assms(1) by (simp add: ipfs_bind_api_key_def Let_def not_less)
  have "ipfs_method k (raw_path r) = ''/'' @ m"
    using trim_prefix_append [of "''/ipfs''" "''/'' @ k @ ''/api/v0/'' @ m"] trim_prefix_append [of "''/'' @ k" "''/api/v0/'' @ m"]
      trim_prefix_append [of "''/api/v0''" "''/'' @ m"]
    by (simp add: ipfs_method_def assms(3))
  moreover have "parse_query (query_encode (parse_query (raw_query r))) = sort_key fst (parse_query (raw_query r))"
    by (rule parse_query_encode [OF parse_query_ok])
  moreover have "map_of (sort_key fst (parse_query (raw_query r))) = map_of (parse_query (raw_query r))"
    using parse_query_ok [of "raw_query r"] values_ok_sort [OF parse_query_ok [of "raw_query r"]]
    by (simp add: values_ok_def map_of_inject_set)
  ultimately show ?thesis
    using key by (intro conjI exI [of _ "query_encode (parse_query (raw_query r))"]) (simp_all add: proxy_url_def Let_def)
qed

theorem ipfs_address_kept_witness:
  "ipfs_bind_api_key (''/ipfs/'' @ demo_key @ ''/api/v0/cat'') = Inr demo_key \<and>
   proxy_url demo_ipfs_handler (ipfs_method demo_key (''/ipfs/'' @ demo_key @ ''/api/v0/cat'')) (query_encode (parse_query ''b=1+2&a=%2F'')) =
     ''http://ipfs:5001/api/v0/cat?a=%2F&b=1+2''"
proof -
  let ?r = "demo_ipfs_request ''/cat'' ''b=1+2&a=%2F'' Map.empty"
  have "length demo_key = 32" "CHR ''/'' \<notin> set demo_key" by (simp_all add: demo_key_def)
  moreover have "raw_path ?r = ''/ipfs/'' @ demo_key @ ''/api/v0/'' @ ''cat''" by (simp add: demo_ipfs_request_def)
  ultimately have "ipfs_bind_api_key (raw_path ?r) = Inr demo_key" by (rule ipfs_address_kept [THEN conjunct1])
  moreover have "proxy_url demo_ipfs_handler (ipfs_method demo_key (''/ipfs/'' @ demo_key @ ''/api/v0/cat''))
      (query_encode (parse_query ''b=1+2&a=%2F'')) = ''http://ipfs:5001/api/v0/cat?a=%2F&b=1+2''"
    by code_simp
  ultimately show ?thesis by (simp add: demo_ipfs_request_def)
qed

text \<open>
  C31. The lines of an upload are all read.  When the node lists the files it has added, one object on
  each line, with texts of printable ASCII characters that JSON writes as they are and that have no
  brace, the gateway reads exactly these files, in this order.
\<close>

theorem node_lines_are_read:
  assumes "vs \<noteq> []" "\<forall>v \<in> set vs. plain_entry v"
  shows "read_add_results (concat (map node_line vs)) = vs"
proof -
  obtain v us where vs: "vs = v # us" using assms(1) by (cases vs) auto
  then have v: "plain_entry v" and us: "\<forall>v \<in> set us. plain_entry v" using assms(2) by auto
  have z: "ar_wrap_with_dir_cid zero_add_resp = []" "ar_wrap_dir_name zero_add_resp = []" by (simp_all add: zero_add_resp_def)
  let ?rest = "newline # concat (map node_line us)"
  have body: "concat (map node_line vs) = node_text v @ ?rest" by (simp add: vs node_line_def)
  have u: "unmarshal_add_resp (node_text v @ ?rest) zero_add_resp = (if skip_ws ?rest = [] then (False, v) else (True, zero_add_resp))"
    using unmarshal_node [OF v, of "[]" zero_add_resp ?rest] z by simp
  show ?thesis
  proof (cases us)
    case Nil
    then have "skip_ws ?rest = []" by (simp add: skip_ws_Cons is_ws_newline) (simp add: skip_ws_def)
    then show ?thesis using u body vs Nil by (simp add: read_add_results_def)
  next
    case (Cons u' us')
    then have "skip_ws ?rest \<noteq> []"
      using us by (simp add: skip_ws_Cons is_ws_newline node_line_def node_text_open node_open_def)
    moreover have "str_split (CHR ''}'') (node_text v @ ?rest) = node_open v # map (\<lambda>v. newline # node_open v) us @ [[newline]]"
      using split_node_lines [OF us] str_split_append [OF node_open_no_brace [OF v], of ?rest] by (simp add: node_text_open [OF v])
    moreover have "unmarshal_add_resp (node_open v @ ''}'') zero_add_resp = (False, v)"
      using unmarshal_node [OF v, of "[]" zero_add_resp "[]"] z by (simp add: node_text_open [OF v] skip_ws_def)
    moreover have "read_pieces (map (\<lambda>v. newline # node_open v) us @ [[newline]]) v = us"
      using read_node_pieces [OF us] v by (simp add: plain_entry_def)
    ultimately show ?thesis
      using u body vs node_open_length [of v] by (simp add: read_add_results_def)
  qed
qed

theorem node_lines_are_read_witness:
  "read_add_results (node_line (demo_entry ''a.txt'' ''Qm1'' ''5'') @ node_line (demo_entry ''b.txt'' ''Qm2'' ''8'')) =
     [demo_entry ''a.txt'' ''Qm1'' ''5'', demo_entry ''b.txt'' ''Qm2'' ''8'']"
proof -
  have "plain_entry (demo_entry ''a.txt'' ''Qm1'' ''5'')" "plain_entry (demo_entry ''b.txt'' ''Qm2'' ''8'')" by code_simp+
  then show ?thesis
    using node_lines_are_read [of "[demo_entry ''a.txt'' ''Qm1'' ''5'', demo_entry ''b.txt'' ''Qm2'' ''8'']"] by simp
qed

text \<open>
  C10. Only admitted requests reach the IPFS node.  When the outcome of a request depends on the node
  at all, the request has an API key, its method is one of those allowed, one call was charged to
  the key and let through, and for an upload or a download the limit check succeeded, with the
  length the upload declares or the size of the object.
\<close>

theorem ipfs_node_sees_admitted_requests:
  assumes "ipfs_proxy E N h r w \<noteq> ipfs_proxy E N' h r w"
  shows "\<exists>k w1 w2. request_key E r w = (Inr k, w1) \<and> ipfs_method k (raw_path r) \<in> set allow_method \<and>
    rate_limit E (ih_json h) k 1 w1 = (None, w2) \<and>
    (ipfs_method k (raw_path r) \<in> set upload_paths \<longrightarrow>
       (\<exists>v vs w3. raw_header r ''Content-Length'' = Some (v # vs) \<and>
          check_ipfs_limit E k (ipfs_chain_id E) (cast_i64 E v) BandWidthUpload w2 = ((True, None), w3))) \<and>
    (ipfs_method k (raw_path r) \<in> set download_paths \<longrightarrow>
       (\<exists>stats w3 w4. get_ipfs_objects_stats E (values_get ''arg'' (parse_query (raw_query r))) w2 = (Inr stats, w3) \<and>
          check_ipfs_limit E k (ipfs_chain_id E) (ns_cumulative_size stats) BandWidthDownload w3 = ((True, None), w4)))"
proof -
  have "\<exists>k p w2 call w3. request_check E h r w = (Inr (k, p), w2) \<and> prepare_call E r k p w2 = (Ret (Inr call), w3)"
    using assms by (auto simp: ipfs_proxy_def split: outcome.splits sum.splits prod.splits)
  then obtain k p w2 call w3 where c: "request_check E h r w = (Inr (k, p), w2)"
    and p: "prepare_call E r k p w2 = (Ret (Inr call), w3)" by blast
  obtain w1 where "request_key E r w = (Inr k, w1)" "p = ipfs_method k (raw_path r)" "p \<in> set allow_method"
    "rate_limit E (ih_json h) k 1 w1 = (None, w2)"
    by (rule request_check_passed [OF c])
  then show ?thesis using prepared_upload [OF p] prepared_download [OF p] by blast
qed

theorem ipfs_node_sees_admitted_requests_witness:
  "\<exists>k w1 w2. request_key demo_gate_env (demo_ipfs_request ''/version'' [] Map.empty) demo_start = (Inr k, w1) \<and>
     ipfs_method k (''/ipfs/'' @ demo_key @ ''/api/v0/version'') \<in> set allow_method \<and>
     rate_limit demo_gate_env (ih_json demo_ipfs_handler) k 1 w1 = (None, w2)"
proof -
  let ?r = "demo_ipfs_request ''/version'' [] Map.empty"
  have "reply_body (fst (ipfs_proxy demo_gate_env (demo_node_of ''a'') demo_ipfs_handler ?r demo_start)) = ''a''"
    "reply_body (fst (ipfs_proxy demo_gate_env (demo_node_of ''b'') demo_ipfs_handler ?r demo_start)) = ''b''"
    by code_simp+
  then have "ipfs_proxy demo_gate_env (demo_node_of ''a'') demo_ipfs_handler ?r demo_start \<noteq>
      ipfs_proxy demo_gate_env (demo_node_of ''b'') demo_ipfs_handler ?r demo_start" by auto
  moreover have "raw_path ?r = ''/ipfs/'' @ demo_key @ ''/api/v0/version''" by (simp add: demo_ipfs_request_def)
  ultimately show ?thesis using ipfs_node_sees_admitted_requests [of demo_gate_env _ demo_ipfs_handler ?r demo_start] by metis
qed

text \<open>
  An upload that does not declare its length ends in a panic, after its call was charged: the
  first value of a header that is not there is read (a chunked upload has none).
\<close>

theorem upload_without_length_panics:
  assumes "ipfs_new_logger r = Ret ()" "request_check E h r w = (Inr (k, p), w1)" "p \<in> set upload_paths"
    and "raw_header r ''Content-Length'' = None"
  shows "ipfs_proxy E N h r w = (Panic ''index out of range'', w1)"
  using assms by (simp add: ipfs_proxy_def prepare_call_def upload_check_def Let_def)

theorem upload_without_length_panics_witness:
  "\<exists>w1. ipfs_proxy demo_gate_env (demo_node_of []) demo_ipfs_handler (demo_ipfs_request ''/add'' [] Map.empty) demo_start =
     (Panic ''index out of range'', w1)"
proof -
  let ?r = "demo_ipfs_request ''/add'' [] Map.empty"
  have "case request_check demo_gate_env demo_ipfs_handler ?r demo_start of
      (Inr x, w1) \<Rightarrow> x = (demo_key, ''/add'') | _ \<Rightarrow> False" by code_simp
  then obtain w1 where c: "request_check demo_gate_env demo_ipfs_handler ?r demo_start = (Inr (demo_key, ''/add''), w1)"
    by (auto split: prod.splits sum.splits)
  have "ipfs_new_logger ?r = Ret ()" "''/add'' \<in> set upload_paths" "raw_header ?r ''Content-Length'' = None"
    by (simp_all add: ipfs_new_logger_def demo_ipfs_request_def upload_paths_def)
  then show ?thesis using upload_without_length_panics [OF _ c] by (intro exI [of _ w1]) simp
qed

text \<open>What a prepared call counts: the direction, none being 0, and the amount.\<close>

definition transfer_of :: "('w, 'x) ipfs_gate_env_scheme \<Rightarrow> raw_request \<Rightarrow> string \<Rightarrow> string \<Rightarrow> 'w \<Rightarrow> nat \<times> int" where
  "transfer_of E r k p w =
     (if p \<in> set upload_paths then (BandWidthUpload, cast_i64 E (hd (the (raw_header r ''Content-Length''))))
      else if p \<in> set download_paths then
        (BandWidthDownload,
         case fst (get_ipfs_objects_stats E (values_get ''arg'' (parse_query (raw_query r))) w) of
           Inr stats \<Rightarrow> ns_cumulative_size stats | Inl _ \<Rightarrow> 0)
      else if pins_new_object E r k p w then (BandWidthUpload, 0) else (0, 0))"

lemma prepared_transfer:
  assumes "prepare_call E r k p w = (Ret (Inr call), w')"
  shows "ic_key call = k" "(ic_bw_type call, ic_bw_size call) = transfer_of E r k p w"
proof -
  have new: "ic_key (new_call k p) = k" by (simp add: new_call_def)
  consider "p \<in> set upload_paths" | "p \<in> set download_paths" | "p \<notin> set upload_paths" "p \<notin> set download_paths" by blast
  then have "ic_key call = k \<and> (ic_bw_type call, ic_bw_size call) = transfer_of E r k p w"
  proof cases
    case 1
    then show ?thesis using prepared_upload [OF assms] new by (auto simp: transfer_of_def)
  next
    case 2
    then have "p \<notin> set upload_paths" using paths_apart(1) by blast
    then show ?thesis using prepared_download [OF assms] 2 new by (auto simp: transfer_of_def)
  next
    case 3
    then show ?thesis using prepared_other [OF assms] by (simp add: transfer_of_def)
  qed
  then show "ic_key call = k" "(ic_bw_type call, ic_bw_size call) = transfer_of E r k p w" by simp_all
qed

text \<open>
  The counters after a transfer on the chain \<open>c\<close>, \<open>w1\<close> being the world in which the clock was
  read: the user's usage and that of the day.
\<close>

definition count_transfer ::
  "('w, 'x) ipfs_gate_env_scheme \<Rightarrow> string \<Rightarrow> nat \<Rightarrow> nat \<times> int \<Rightarrow> 'w \<Rightarrow> 'w" where
  "count_transfer E k c transfer w =
     (let (t, w1) = now E w; (ty, n) = transfer in
      if ty = BandWidthUpload then
        incr_ipfs_usage E k (fld_transfer_up E) c n (increase_and_set_expire E (ck_bw_day_up E k c t) n 129600 w1)
      else if ty = BandWidthDownload then
        incr_ipfs_usage E k (fld_transfer_down E) c n (increase_and_set_expire E (ck_bw_day_down E k c t) n 129600 w1)
      else w)"

lemma finished_call:
  assumes "record_call E r call body w = (Inr task, w1)" "ic_key call \<notin> set (h_whitelist (ih_json h))"
    and "ic_bw_type call \<in> {0, BandWidthUpload, BandWidthDownload}"
  shows "\<exists>out reply. finish_call E h r call (200, headers, Inr body) w = ((reply, task),
    snd (return_ipfs_result E 200 out body
      (count_transfer E (ic_key call) (h_chain_id (ih_json h)) (ic_bw_type call, ic_bw_size call) w1)))"
proof -
  let ?out = "fold (\<lambda>(k, v) g. g(k \<mapsto> v)) headers (raw_out_header r)"
  let ?w2 = "count_transfer E (ic_key call) (h_chain_id (ih_json h)) (ic_bw_type call, ic_bw_size call) w1"
  have "allow_whitelist E (h_whitelist (ih_json h)) c (ic_key call) 1 w1 = ((False, None), w1)" for c
    using assms(2) by (simp add: allow_whitelist_def check_in_white_list_iff)
  then have hook: "(if 0 < ic_bw_type call
      then snd (bandwidth_hook E (h_whitelist (ih_json h)) (h_chain_id (ih_json h)) (ic_key call) (ic_bw_size call) (ic_bw_type call) w1)
      else w1) = ?w2"
    using assms(3) by (auto simp: bandwidth_hook_def count_transfer_def BandWidthUpload_def BandWidthDownload_def
        Let_def split: prod.split)
  obtain reply w3 where r: "return_ipfs_result E 200 ?out body ?w2 = (reply, w3)" by fastforce
  have "finish_call E h r call (200, headers, Inr body) w = ((reply, task), w3)"
    unfolding finish_call_def Let_def prod.case sum.case assms(1) hook r by simp
  then show ?thesis using r by (intro exI [of _ ?out] exI [of _ reply]) simp
qed

text \<open>
  C37. What is counted as transferred.  When the node has answered a request of a key that is not
  whitelisted with success and what it did is recorded, the user's usage in the direction of the call, and
  that of the day, grow by: for an upload, the length it declares; for a download, the size of the object;
  for every other call, nothing.  This includes a pin of an object that the user does not have: its size
  was checked against the limit for uploads, but it is lost before it is counted, and the counters grow by 0.
\<close>

theorem transfer_counted:
  assumes "ipfs_new_logger r = Ret ()" "request_check E h r w = (Inr (k, p), w1)"
    and "prepare_call E r k p w1 = (Ret (Inr call), w2)"
    and "proxy_to_ipfs N h r p w2 = (Inr (200, headers, Inr body), w3)"
    and "record_call E r call body w3 = (Inr task, w4)" "k \<notin> set (h_whitelist (ih_json h))"
  shows "\<exists>out reply. ipfs_proxy E N h r w = (Ret (reply, task), snd (return_ipfs_result E 200 out body
    (let c = h_chain_id (ih_json h);
         (t, w5) = now E w4;
         up = (\<lambda>n. incr_ipfs_usage E k (fld_transfer_up E) c n
           (increase_and_set_expire E (ck_bw_day_up E k c t) n 129600 w5));
         down = (\<lambda>n. incr_ipfs_usage E k (fld_transfer_down E) c n
           (increase_and_set_expire E (ck_bw_day_down E k c t) n 129600 w5))
     in if p \<in> set upload_paths then up (cast_i64 E (hd (the (raw_header r ''Content-Length''))))
        else if p \<in> set download_paths then
          down (case fst (get_ipfs_objects_stats E (values_get ''arg'' (parse_query (raw_query r))) w1) of
                  Inr stats \<Rightarrow> ns_cumulative_size stats | Inl _ \<Rightarrow> 0)
        else if pins_new_object E r k p w1 then up 0 else w4)))"
proof -
  note tr = prepared_transfer [OF assms(3)]
  have neq: "BandWidthDownload \<noteq> BandWidthUpload" "0 \<noteq> BandWidthUpload" "0 \<noteq> BandWidthDownload"
    by (simp_all add: BandWidthUpload_def BandWidthDownload_def)
  have "ic_bw_type call = fst (transfer_of E r k p w1)" using tr(2) by (metis fst_conv)
  then have ty: "ic_bw_type call \<in> {0, BandWidthUpload, BandWidthDownload}" by (simp add: transfer_of_def)
  have wl: "ic_key call \<notin> set (h_whitelist (ih_json h))" using assms(6) tr(1) by simp
  obtain out reply where f: "finish_call E h r call (200, headers, Inr body) w3 = ((reply, task),
    snd (return_ipfs_result E 200 out body (count_transfer E k (h_chain_id (ih_json h)) (transfer_of E r k p w1) w4)))"
    using finished_call [OF assms(5) wl ty, where headers = headers] unfolding tr by blast
  have "ipfs_proxy E N h r w = (Ret (reply, task),
    snd (return_ipfs_result E 200 out body (count_transfer E k (h_chain_id (ih_json h)) (transfer_of E r k p w1) w4)))"
    using assms(1-4) f by (simp add: ipfs_proxy_def)
  moreover obtain t w5 where t: "now E w4 = (t, w5)" by (cases "now E w4")
  ultimately show ?thesis
    by (intro exI [of _ out] exI [of _ reply]) (simp add: count_transfer_def transfer_of_def Let_def t neq neq [symmetric])
qed

text \<open>A key with quotas of its own pins an object it does not have.\<close>

definition paying_handler :: ipfs_handler where
  "paying_handler = demo_ipfs_handler\<lparr>ih_json := demo_handler\<lparr>h_whitelist := []\<rparr>\<rparr>"

definition paying_start :: demo_world where
  "paying_start = \<lparr>store = Map.empty(sec_quota_key ''1'' (hash_tag demo_key) \<mapsto> (''2'', None),
     day_quota_key ''1'' (hash_tag demo_key) \<mapsto> (''10'', None)), sent = []\<rparr>"

theorem transfer_counted_witness:
  "\<exists>reply task t w5 out. ipfs_proxy demo_gate_env (demo_node_of ''{}'') paying_handler
       (demo_ipfs_request ''/pin/add'' ''arg=Qm1'' Map.empty) paying_start = (Ret (reply, task),
     snd (return_ipfs_result demo_gate_env 200 out ''{}''
       (incr_ipfs_usage demo_gate_env demo_key (fld_transfer_up demo_gate_env) (h_chain_id (ih_json paying_handler)) 0
         (increase_and_set_expire demo_gate_env
           (ck_bw_day_up demo_gate_env demo_key (h_chain_id (ih_json paying_handler)) t) 0 129600 w5))))"
proof -
  let ?E = demo_gate_env and ?h = paying_handler and ?r = "demo_ipfs_request ''/pin/add'' ''arg=Qm1'' Map.empty"
  have "case request_check ?E ?h ?r paying_start of
      (Inr x, w1) \<Rightarrow> x = (demo_key, ''/pin/add'') \<and> pins_new_object ?E ?r demo_key ''/pin/add'' w1 \<and>
        (case prepare_call ?E ?r demo_key ''/pin/add'' w1 of
           (Ret (Inr call), w2) \<Rightarrow> ic_path call = ''/pin/add''
         | _ \<Rightarrow> False)
    | _ \<Rightarrow> False" by code_simp
  then obtain w1 call w2 where c: "request_check ?E ?h ?r paying_start = (Inr (demo_key, ''/pin/add''), w1)"
    "prepare_call ?E ?r demo_key ''/pin/add'' w1 = (Ret (Inr call), w2)" "ic_path call = ''/pin/add''"
    and new: "pins_new_object ?E ?r demo_key ''/pin/add'' w1"
    by (auto split: prod.splits sum.splits outcome.splits)
  have l: "ipfs_new_logger ?r = Ret ()" by (simp add: ipfs_new_logger_def demo_ipfs_request_def)
  obtain w3 where n: "proxy_to_ipfs (demo_node_of ''{}'') ?h ?r ''/pin/add'' w2 = (Inr (200, [], Inr ''{}''), w3)"
    by (simp add: proxy_to_ipfs_def demo_node_of_def Let_def)
  obtain task w4 where rec: "record_call ?E ?r call ''{}'' w3 = (Inr task, w4)" using c(3) by (simp add: record_call_def)
  have wl: "demo_key \<notin> set (h_whitelist (ih_json ?h))" by code_simp
  obtain t w5 where t: "now ?E w4 = (t, w5)" by (cases "now ?E w4")
  show ?thesis
    using transfer_counted [OF l c(1,2) n rec wl] t new
    by (simp add: upload_paths_def download_paths_def Let_def) metis
qed

text \<open>
  C38. An upload that ends the process.  When the node answers an upload in a directory with an empty
  body, which is what it does when the client asks for silence, the goroutine that
  records the files takes the last of no files; nothing recovers that panic.
\<close>

theorem silent_upload_ends_the_process:
  assumes "ipfs_new_logger r = Ret ()" "request_check E h r w = (Inr (k, ''/add''), w1)"
    and "prepare_call E r k ''/add'' w1 = (Ret (Inr call), w2)"
    and "proxy_to_ipfs N h r ''/add'' w2 = (Inr (200, headers, Inr []), w3)"
    and "ap_wrap_with_directory (snd (bind_add E (parse_query (raw_query r))))"
  shows "\<exists>reply task w4. ipfs_proxy E N h r w = (Ret (reply, Some task), w4) \<and>
    (\<forall>w5. fst (run_task E task w5) = Panic ''index out of range'')"
proof -
  have call: "ic_path call = ''/add''" "ic_key call = k"
    using prepared_upload [OF assms(3)] by (auto simp: upload_paths_def new_call_def)
  have "json_parse [] = None" by code_simp
  then have "read_add_results [] = []" by (simp add: read_add_results_def unmarshal_add_resp_def)
  then obtain p where rec: "\<And>w. record_call E r call [] w = (Inr (Some (k, p, [])), w)" and wrap: "ap_wrap_with_directory p"
    using assms(5) call by (simp add: record_call_def get_add_file_list_def Let_def)
  have "\<exists>reply w4. finish_call E h r call (200, headers, Inr []) w3 = ((reply, Some (k, p, [])), w4)"
    by (simp add: finish_call_def Let_def rec split: prod.split)
  then obtain reply w4 where fin: "finish_call E h r call (200, headers, Inr []) w3 = ((reply, Some (k, p, [])), w4)" by blast
  have "fst (run_task E (k, p, []) w5) = Panic ''index out of range''" for w5
    using wrap by (simp add: run_task_def add_files_def split: prod.split)
  then show ?thesis using assms(1-4) fin by (auto simp: ipfs_proxy_def)
qed

theorem silent_upload_ends_the_process_witness:
  "\<exists>reply task w. ipfs_proxy demo_gate_env (demo_node_of []) demo_ipfs_handler
       (demo_ipfs_request ''/add'' ''silent=true&wrap-with-directory=true'' [''Content-Length'' \<mapsto> [''3'']]) demo_start =
       (Ret (reply, Some task), w) \<and>
     fst (run_task demo_gate_env task w) = Panic ''index out of range''"
proof -
  let ?E = demo_gate_env and ?N = "demo_node_of []" and ?h = demo_ipfs_handler
    and ?r = "demo_ipfs_request ''/add'' ''silent=true&wrap-with-directory=true'' [''Content-Length'' \<mapsto> [''3'']]"
  have "case request_check ?E ?h ?r demo_start of
      (Inr x, w1) \<Rightarrow> x = (demo_key, ''/add'') \<and>
        (case prepare_call ?E ?r demo_key ''/add'' w1 of (Ret (Inr call), w2) \<Rightarrow> True | _ \<Rightarrow> False)
    | _ \<Rightarrow> False" by code_simp
  then obtain w1 call w2 where c: "request_check ?E ?h ?r demo_start = (Inr (demo_key, ''/add''), w1)"
    "prepare_call ?E ?r demo_key ''/add'' w1 = (Ret (Inr call), w2)"
    by (auto split: prod.splits sum.splits outcome.splits)
  have l: "ipfs_new_logger ?r = Ret ()" by (simp add: ipfs_new_logger_def demo_ipfs_request_def)
  obtain w3 where n: "proxy_to_ipfs ?N ?h ?r ''/add'' w2 = (Inr (200, [], Inr []), w3)"
    by (simp add: proxy_to_ipfs_def demo_node_of_def Let_def)
  have b: "ap_wrap_with_directory (snd (bind_add ?E (parse_query (raw_query ?r))))" by code_simp
  show ?thesis using silent_upload_ends_the_process [OF l c n b] by metis
qed

end
