(* ===== verification/Start.thy ===== *)
theory Start
  imports Router Ipfs
begin

text \<open>
  The start of the program: \<^verbatim>\<open>NewApp\<close> of \<^verbatim>\<open>pkg/initapp/initApp.go\<close>, the
  database connection of \<^verbatim>\<open>pkg/db/db.go\<close>, \<^verbatim>\<open>Start\<close> of
  \<^verbatim>\<open>pkg/app/app.go\<close> and \<^verbatim>\<open>cmd/chainapi/chainapi.go\<close>.  Parameters: viper, the
  files, the whitelist of API keys (in Redis), gorm, the command line library, and serving HTTP.
\<close>

section \<open>Environment\<close>

text \<open>\<^verbatim>\<open>log.Fatal\<close> ends the process with a message; a panic that is not recovered does too.\<close>

datatype 'a proc = Returned 'a | Exited string gerr | Crashed string

record mysql_config =
  my_user :: string
  my_passwd :: string
  my_net :: string
  my_addr :: string
  my_db_name :: string
  my_allow_native_passwords :: bool

text \<open>
  A connection: its address, whether statements are logged, and the limits of the pool; the lifetime
  is in seconds.
\<close>

record db_conn =
  db_dsn :: string
  db_log_info :: bool
  db_skip_transaction :: bool
  db_max_idle :: nat
  db_max_open :: nat
  db_max_lifetime :: nat

text \<open>
  \<open>gorm_open\<close> opens an address and \<open>gorm_db\<close> gives the underlying connection, each an error if it
  fails.  \<open>toml_parse\<close> and \<open>toml_fill\<close> are those of \<^verbatim>\<open>Config\<close>.
\<close>

record ('q, 'w) start_env = "('q, 'w) probe_env" +
  set_tz :: "'w \<Rightarrow> gerr option \<times> 'w"
  cli_flags :: "string list \<Rightarrow> gerr + string \<times> string"
  viper_read :: "string \<Rightarrow> 'w \<Rightarrow> gerr option \<times> 'w"
  viper_fill :: "'w \<Rightarrow> gerr + config"
  log_rotate :: "string \<Rightarrow> nat \<Rightarrow> gerr option"
  load_whitelist :: "'w \<Rightarrow> (gerr + string list) \<times> 'w"
  format_dsn :: "mysql_config \<Rightarrow> string"
  gorm_open :: "string \<Rightarrow> 'w \<Rightarrow> gerr option \<times> 'w"
  gorm_db :: "'w \<Rightarrow> gerr option"
  read_file :: "string \<Rightarrow> 'w \<Rightarrow> (gerr + string) \<times> 'w"
  toml_parse :: "string \<Rightarrow> gerr + (string \<times> toml) list"
  toml_fill :: "toml \<Rightarrow> chain_config \<Rightarrow> gerr + chain_config"
  ipfs_url_api :: "string \<Rightarrow> gerr option"
  chain_const :: "chain \<Rightarrow> chain_constant"
  ipfs_const :: chain_constant
  http_start :: "string \<Rightarrow> 'w \<Rightarrow> gerr option \<times> 'w"

section \<open>pkg/db/db.go\<close>

definition mysql_config_of :: "mysql_settings \<Rightarrow> mysql_config" where
  "mysql_config_of m =
     \<lparr>my_user = ms_user m, my_passwd = ms_password m, my_net = ''tcp'',
      my_addr = ms_host m @ '':'' @ show_int (ms_port m), my_db_name = ms_database m,
      my_allow_native_passwords = True\<rparr>"

definition new_db :: "('q, 'w, 'x) start_env_scheme \<Rightarrow> config \<Rightarrow> 'w \<Rightarrow> (gerr + db_conn) \<times> 'w" where
  "new_db E c w =
     (let dsn = format_dsn E (mysql_config_of (cf_mysql c)) in
      case gorm_open E dsn w of
        (Some e, w1) \<Rightarrow> (Inl e, w1)
      | (None, w1) \<Rightarrow>
          (case gorm_db E w1 of
             Some e \<Rightarrow> (Inl e, w1)
           | None \<Rightarrow>
               (Inr \<lparr>db_dsn = dsn, db_log_info = (cf_log_level c = ''debug''), db_skip_transaction = True,
                     db_max_idle = 10, db_max_open = 100, db_max_lifetime = 3600\<rparr>, w1)))"

section \<open>NewApp\<close>

text \<open>
  What is running: the application with its handlers and routes, and the address of the gateway for
  error counts, a variable of \<^verbatim>\<open>pkg/prometheus\<close>.
\<close>

record 'q running =
  rn_app :: app
  rn_ipfs :: ipfs_handler
  rn_routes :: "'q route list"
  rn_push_base :: string
  rn_logger :: logger
  rn_db :: db_conn

definition default_push_base :: string where
  "default_push_base = ''http://localhost:9091''"

text \<open>The RPC configuration and the gateway's address.\<close>

definition read_rpc_config ::
  "('q, 'w, 'x) start_env_scheme \<Rightarrow> string \<Rightarrow> 'w \<Rightarrow> (rpc_config option \<times> string) proc \<times> 'w" where
  "read_rpc_config E file w =
     (if file = [] then (Returned (None, default_push_base), w)
      else case read_file E file w of
        (Inl e, w1) \<Rightarrow> (Exited ''fail to read rpc config file'' e, w1)
      | (Inr data, w1) \<Rightarrow>
          (case load_rpc_config (toml_parse E) (toml_fill E) data of
             Panic p \<Rightarrow> (Crashed p, w1)
           | Ret (Inl e) \<Rightarrow> (Exited ''fail to load rpc config'' e, w1)
           | Ret (Inr rc) \<Rightarrow> (Returned (Some rc, health_pushgateway rc), w1)))"

text \<open>The init functions in their order, the last of them IPFS's, and the router.\<close>

definition build_app :: "('q, 'w, 'x) start_env_scheme \<Rightarrow> app \<Rightarrow> (app \<times> ipfs_handler \<times> 'q route list) proc" where
  "build_app E a0 =
     (let a = init_handlers (chain_const E) a0 in
      case new_ipfs_handler (ipfs_url_api E) (ipfs_const E) a of
        Panic p \<Rightarrow> Crashed p
      | Ret ih \<Rightarrow>
          (case new_router E a of
             Panic p \<Rightarrow> Crashed p
           | Ret routes \<Rightarrow> Returned (a, ih, routes)))"

definition new_app ::
  "('q, 'w, 'x) start_env_scheme \<Rightarrow> string \<Rightarrow> string \<Rightarrow> 'w \<Rightarrow> 'q running proc \<times> 'w" where
  "new_app E config_file rpc_file w =
     (case load_config (viper_read E) (viper_fill E) config_file w of
        (Inl e, w1) \<Rightarrow> (Exited ''LoadConfig'' e, w1)
      | (Inr cfg, w1) \<Rightarrow>
          (let lg = new_rolling_logger (log_rotate E) cfg in
           case load_whitelist E w1 of
             (Inl e, w2) \<Rightarrow> (Exited (map char_of [232::nat, 142, 183, 229, 143, 150] @ ''apikey'' @
                 map char_of [231::nat, 153, 189, 229, 144, 141, 229, 141, 149, 229, 135, 186, 233, 148, 153]) e, w2)
           | (Inr keys, w2) \<Rightarrow>
               (case new_db E cfg w2 of
                  (Inl e, w3) \<Rightarrow> (Exited [] e, w3)
                | (Inr db, w3) \<Rightarrow>
                    (case read_rpc_config E rpc_file w3 of
                       (Exited m e, w4) \<Rightarrow> (Exited m e, w4)
                     | (Crashed p, w4) \<Rightarrow> (Crashed p, w4)
                     | (Returned (rc, base), w4) \<Rightarrow>
                         (case build_app E \<lparr>app_config = cfg, app_rpc_config = rc, app_whitelist = keys,
                                             app_http = Map.empty, app_ws = Map.empty\<rparr> of
                            Exited m e \<Rightarrow> (Exited m e, w4)
                          | Crashed p \<Rightarrow> (Crashed p, w4)
                          | Returned (a, ih, routes) \<Rightarrow>
                              (Returned \<lparr>rn_app = a, rn_ipfs = ih, rn_routes = routes, rn_push_base = base,
                                 rn_logger = lg, rn_db = db\<rparr>, w4))))))"

section \<open>The program\<close>

text \<open>\<^verbatim>\<open>App.Start\<close> serves until it fails, which is logged.\<close>

definition start_app :: "('q, 'w, 'x) start_env_scheme \<Rightarrow> 'q running \<Rightarrow> 'w \<Rightarrow> 'w" where
  "start_app E r w = snd (http_start E (cf_listen (app_config (rn_app r))) w)"

definition chainapi_main :: "('q, 'w, 'x) start_env_scheme \<Rightarrow> string list \<Rightarrow> 'w \<Rightarrow> unit proc \<times> 'w" where
  "chainapi_main E args w =
     (case set_tz E w of
        (Some e, w1) \<Rightarrow> (Crashed e, w1)
      | (None, w1) \<Rightarrow>
          (case cli_flags E args of
             Inl e \<Rightarrow> (Returned (), w1)
           | Inr (config_file, rpc_file) \<Rightarrow>
               (case new_app E config_file rpc_file w1 of
                  (Exited m e, w2) \<Rightarrow> (Exited m e, w2)
                | (Crashed p, w2) \<Rightarrow> (Crashed p, w2)
                | (Returned r, w2) \<Rightarrow> (Returned (), start_app E r w2))))"

section \<open>A started program\<close>

text \<open>The steps behind a start that succeeds.\<close>

lemma new_app_steps:
  assumes "new_app E config_file rpc_file w = (Returned r, w')"
  obtains cfg w1 keys w2 w3 w4 rc a0 where
    "load_config (viper_read E) (viper_fill E) config_file w = (Inr cfg, w1)"
    "load_whitelist E w1 = (Inr keys, w2)" "new_db E cfg w2 = (Inr (rn_db r), w3)"
    "read_rpc_config E rpc_file w3 = (Returned (rc, rn_push_base r), w4)"
    "a0 = \<lparr>app_config = cfg, app_rpc_config = rc, app_whitelist = keys, app_http = Map.empty, app_ws = Map.empty\<rparr>"
    "build_app E a0 = Returned (rn_app r, rn_ipfs r, rn_routes r)"
  using assms by (auto simp: new_app_def Let_def split: prod.splits sum.splits proc.splits)

lemma build_app_steps:
  assumes "build_app E a0 = Returned (a, ih, routes)"
  shows "a = init_handlers (chain_const E) a0" "new_ipfs_handler (ipfs_url_api E) (ipfs_const E) a = Ret ih"
    "new_router E a = Ret routes"
  using assms by (auto simp: build_app_def Let_def split: outcome.splits)

lemma new_router_parts:
  assumes "new_router E a = Ret rs"
  obtains fixed extra where "add_routes (fixed_routes a) = Ret fixed" "rs = fixed @ extra"
    "\<forall>rc. app_rpc_config a = Some rc \<longrightarrow> rpc_routes E (api_key rc) (chains rc) = Ret extra"
  using assms by (auto simp: new_router_def split: outcome.splits option.splits)

lemma read_rpc_config_steps:
  assumes "read_rpc_config E file w = (Returned (rc, base), w1)"
  shows "if file = [] then rc = None \<and> base = default_push_base
    else \<exists>data c. read_file E file w = (Inr data, w1) \<and>
      load_rpc_config (toml_parse E) (toml_fill E) data = Ret (Inr c) \<and> rc = Some c \<and> base = health_pushgateway c"
  using assms by (auto simp: read_rpc_config_def split: if_splits prod.splits sum.splits outcome.splits)

lemma ipfs_handler_whitelist: "new_ipfs_handler u k a = Ret ih \<Longrightarrow> h_whitelist (ih_json ih) = app_whitelist a"
  by (auto simp: new_ipfs_handler_def Let_def new_json_rpc_handler_def split: option.splits)

text \<open>A chain's handlers in the application that is built, and their routes.\<close>

lemma built_chain:
  assumes "build_app E a0 = Returned (a, ih, routes)" "app_http a0 = Map.empty" "app_ws a0 = Map.empty"
  shows "\<exists>h. app_http a c = Some h \<and> app_ws a c = Some h \<and> handler_ok (chain_const E) a0 c h \<and>
    (c \<noteq> Solana \<longrightarrow> (POST, route_path c @ ''/v1/:apiKey'', HttpEndpoint h) \<in> set routes \<and>
       (GET, ''/ws'' @ route_path c @ ''/v1/:apiKey'', WsEndpoint h) \<in> set routes)"
proof -
  note a = build_app_steps [OF assms(1)]
  obtain fixed extra where fixed: "add_routes (fixed_routes a) = Ret fixed" "routes = fixed @ extra"
    using a(3) by (rule new_router_parts)
  have same: "app_ws a = app_http a" unfolding a(1) by (rule init_handlers_same) (simp add: assms(2,3))
  obtain h where h: "app_http a c = Some h" "handler_ok (chain_const E) a0 c h"
    using init_handlers_ok [of "chain_const E" a0 c] a(1) by auto
  then show ?thesis using chain_routes [OF fixed(1) same h(1)] same by (auto simp: fixed(2))
qed

lemma built_rpc_chain:
  assumes "build_app E a0 = Returned (a, ih, routes)" "app_rpc_config a = Some rc" "ch \<in> set (chains rc)"
  shows "\<exists>h. new_rpc_handler E ch (api_key rc) = Inr h \<and>
    (Any, ''/rpc/'' @ chain_name ch @ ''/'' @ api_key rc @ ''/*'', RpcHttpEndpoint h) \<in> set routes"
proof -
  obtain fixed extra where "routes = fixed @ extra" and
    extra: "\<forall>rc. app_rpc_config a = Some rc \<longrightarrow> rpc_routes E (api_key rc) (chains rc) = Ret extra"
    using build_app_steps(3) [OF assms(1)] by (rule new_router_parts)
  moreover obtain h where "new_rpc_handler E ch (api_key rc) = Inr h" "set (rpc_routes_of (api_key rc) ch h) \<subseteq> set extra"
    using rpc_routes_cover extra assms(2,3) by blast
  ultimately show ?thesis by (auto simp: rpc_routes_of_def with_rest_def Let_def split: if_splits)
qed

text \<open>
  C12. A program that has started is wired to its configuration.  Every chain's handler, and that of
  IPFS, exempts exactly the API keys that were read from Redis, sends to the address the file gives
  for that chain, and is behind the chain's routes (Solana has none).  Without an RPC file there is no
  RPC configuration; with one, which is read once the database is open, it is the one the file's
  content gives, and every chain of it is complete and has a route to a handler of its own.
\<close>

theorem started_program_is_wired:
  assumes "new_app E config_file rpc_file w = (Returned r, w')"
  shows "\<exists>cfg w1 keys w2 w3.
    load_config (viper_read E) (viper_fill E) config_file w = (Inr cfg, w1) \<and> load_whitelist E w1 = (Inr keys, w2) \<and>
    new_db E cfg w2 = (Inr (rn_db r), w3) \<and>
    h_whitelist (ih_json (rn_ipfs r)) = keys \<and>
    (\<forall>c. \<exists>h. app_http (rn_app r) c = Some h \<and> app_ws (rn_app r) c = Some h \<and> h_whitelist h = keys \<and>
       h_chain_id h = cc_chain_id (chain_const E c) \<and>
       http_upstream (h_proxy h) = us_http (upstream_of c (cf_upstream cfg)) \<and>
       (c \<noteq> Solana \<longrightarrow>
          (POST, route_path c @ ''/v1/:apiKey'', HttpEndpoint h) \<in> set (rn_routes r) \<and>
          (GET, ''/ws'' @ route_path c @ ''/v1/:apiKey'', WsEndpoint h) \<in> set (rn_routes r))) \<and>
    (if rpc_file = [] then app_rpc_config (rn_app r) = None
     else \<exists>data w4 rc. read_file E rpc_file w3 = (Inr data, w4) \<and>
       load_rpc_config (toml_parse E) (toml_fill E) data = Ret (Inr rc) \<and> app_rpc_config (rn_app r) = Some rc \<and>
       (\<forall>ch \<in> set (chains rc). complete_chain ch \<and>
          (\<exists>h. new_rpc_handler E ch (api_key rc) = Inr h \<and>
             (Any, ''/rpc/'' @ chain_name ch @ ''/'' @ api_key rc @ ''/*'', RpcHttpEndpoint h) \<in> set (rn_routes r))))"
proof -
  obtain cfg w1 keys w2 w3 w4 rc a0 where
    steps: "load_config (viper_read E) (viper_fill E) config_file w = (Inr cfg, w1)" "load_whitelist E w1 = (Inr keys, w2)"
      "new_db E cfg w2 = (Inr (rn_db r), w3)"
    and rpc: "read_rpc_config E rpc_file w3 = (Returned (rc, rn_push_base r), w4)"
    and a0: "a0 = \<lparr>app_config = cfg, app_rpc_config = rc, app_whitelist = keys, app_http = Map.empty, app_ws = Map.empty\<rparr>"
    and built: "build_app E a0 = Returned (rn_app r, rn_ipfs r, rn_routes r)"
    using assms by (rule new_app_steps)
  have kept: "app_rpc_config (rn_app r) = rc" "app_whitelist (rn_app r) = keys"
    unfolding build_app_steps(1) [OF built] by (simp_all add: init_handlers_kept a0)
  have "h_whitelist (ih_json (rn_ipfs r)) = keys"
    using ipfs_handler_whitelist [OF build_app_steps(2) [OF built]] kept(2) by simp
  moreover have "\<exists>h. app_http (rn_app r) c = Some h \<and> app_ws (rn_app r) c = Some h \<and> h_whitelist h = keys \<and>
       h_chain_id h = cc_chain_id (chain_const E c) \<and> http_upstream (h_proxy h) = us_http (upstream_of c (cf_upstream cfg)) \<and>
       (c \<noteq> Solana \<longrightarrow> (POST, route_path c @ ''/v1/:apiKey'', HttpEndpoint h) \<in> set (rn_routes r) \<and>
          (GET, ''/ws'' @ route_path c @ ''/v1/:apiKey'', WsEndpoint h) \<in> set (rn_routes r))" for c
    using built_chain [OF built, of c] by (auto simp: a0 handler_ok_def)
  moreover have "if rpc_file = [] then app_rpc_config (rn_app r) = None
     else \<exists>data w4 rc. read_file E rpc_file w3 = (Inr data, w4) \<and>
       load_rpc_config (toml_parse E) (toml_fill E) data = Ret (Inr rc) \<and> app_rpc_config (rn_app r) = Some rc \<and>
       (\<forall>ch \<in> set (chains rc). complete_chain ch \<and>
          (\<exists>h. new_rpc_handler E ch (api_key rc) = Inr h \<and>
             (Any, ''/rpc/'' @ chain_name ch @ ''/'' @ api_key rc @ ''/*'', RpcHttpEndpoint h) \<in> set (rn_routes r)))"
    using read_rpc_config_steps [OF rpc] load_rpc_config_complete built_rpc_chain [OF built] kept(1)
    by (auto split: if_splits)
  ultimately show ?thesis using steps by blast
qed



section \<open>A start\<close>

text \<open>An environment for the witnesses, in which every step succeeds and the file is the given one.\<close>

definition demo_start_env :: "(string \<times> toml) list \<Rightarrow> (string list, unit) start_env" where
  "demo_start_env file =
     probe_env.extend (demo_probe demo_height [])
       (start_env.fields
          (\<lambda>w. (None, w)) (\<lambda>args. Inr (args ! 0, args ! 1)) (\<lambda>f w. (None, w)) (\<lambda>w. Inr (app_config demo_app))
          (\<lambda>p n. None) (\<lambda>w. (Inr [''vip''], w)) my_addr (\<lambda>dsn w. (None, w)) (\<lambda>w. None)
          (\<lambda>f w. (Inr f, w)) (\<lambda>data. Inr file) demo_fill (\<lambda>url. None) demo_constant
          \<lparr>cc_chain_id = 20, cc_name = ''ipfs''\<rparr> (\<lambda>addr w. (None, w)))"

lemma demo_start_fields:
  "viper_read (demo_start_env f) = (\<lambda>f w. (None, w))" "viper_fill (demo_start_env f) = (\<lambda>w. Inr (app_config demo_app))"
  "load_whitelist (demo_start_env f) = (\<lambda>w. (Inr [''vip''], w))" "gorm_open (demo_start_env f) = (\<lambda>dsn w. (None, w))"
  "gorm_db (demo_start_env f) = (\<lambda>w. None)" "read_file (demo_start_env f) = (\<lambda>f w. (Inr f, w))"
  "toml_parse (demo_start_env f) = (\<lambda>data. Inr f)" "toml_fill (demo_start_env f) = demo_fill"
  "ipfs_url_api (demo_start_env f) = (\<lambda>url. None)" "chain_const (demo_start_env f) = demo_constant"
  "jq_parse (demo_start_env f) = (\<lambda>s. Inr (str_split (CHR ''.'') (drop 1 s)))"
  by (simp_all add: demo_start_env_def demo_probe_def probe_env.defs start_env.defs)

definition demo_rpc_config :: rpc_config where
  "demo_rpc_config = \<lparr>api_key = ''k'', health_pushgateway = [], chains =
     [(default_chain ''lisk'')\<lparr>block_number_method := ''eth_blockNumber''\<rparr>,
      (default_chain ''tron'')\<lparr>chain_type := ''tron'', block_number_method := ''eth_blockNumber'', max_behind_blocks := 40\<rparr>]\<rparr>"

lemma demo_starts: "\<exists>r w'. new_app (demo_start_env demo_toml) ''app.toml'' ''rpc.toml'' () = (Returned r, w')"
proof -
  let ?E = "demo_start_env demo_toml"
  let ?cs = "[(default_chain ''lisk'')\<lparr>block_number_method := ''eth_blockNumber''\<rparr>,
      (default_chain ''tron'')\<lparr>chain_type := ''tron'', block_number_method := ''eth_blockNumber'', max_behind_blocks := 40\<rparr>]"
  define rc where "rc = \<lparr>api_key = ''k'', health_pushgateway = [], chains = ?cs\<rparr>"
  have rc: "load_rpc_config (toml_parse ?E) (toml_fill ?E) ''rpc.toml'' = Ret (Inr rc)"
    by (simp add: rc_def demo_start_fields load_rpc_config_def demo_toml_def reserved_key_def finish_chain_def default_chain_def)
  have chains: "chains rc = ?cs" by (simp add: rc_def)
  let ?start = "\<lparr>app_config = app_config demo_app, app_rpc_config = Some rc, app_whitelist = [''vip''], app_http = Map.empty, app_ws = Map.empty\<rparr>"
  let ?a = "init_handlers (chain_const ?E) ?start"
  have same: "app_ws ?a = app_http ?a" by (rule init_handlers_same) simp
  obtain H where "app_http ?a c = Some (H c)" for c
    using init_handlers_total by blast
  then obtain fixed :: "string list route list" where "add_routes (fixed_routes ?a) = Ret fixed"
    using fixed_routes_built [OF same] by blast
  then have "\<exists>routes. new_router ?E ?a = Ret routes"
    by (simp add: new_router_def init_handlers_kept chains new_rpc_handler_def demo_start_fields default_chain_def)
  then obtain ih routes where "build_app ?E ?start = Returned (?a, ih, routes)"
    by (auto simp: build_app_def new_ipfs_handler_def demo_start_fields Let_def)
  then show ?thesis
    by (simp add: new_app_def load_config_def new_db_def read_rpc_config_def rc [unfolded demo_start_fields] demo_start_fields Let_def)
qed

theorem started_program_is_wired_witness:
  "\<exists>r w'. new_app (demo_start_env demo_toml) ''app.toml'' ''rpc.toml'' () = (Returned r, w') \<and>
     (\<exists>h. app_http (rn_app r) Kava = Some h \<and> h_whitelist h = [''vip''] \<and>
        (POST, ''/kava/tendermint/v1/:apiKey'', HttpEndpoint h) \<in> set (rn_routes r)) \<and>
     (\<exists>h. (Any, ''/rpc/lisk/k/*'', RpcHttpEndpoint h) \<in> set (rn_routes r))"
proof -
  let ?E = "demo_start_env demo_toml"
  obtain r w' where r: "new_app ?E ''app.toml'' ''rpc.toml'' () = (Returned r, w')"
    using demo_starts by blast
  have "load_rpc_config (toml_parse ?E) (toml_fill ?E) data = Ret (Inr demo_rpc_config)" for data
    by (simp add: demo_rpc_config_def demo_start_fields load_rpc_config_def demo_toml_def reserved_key_def
        finish_chain_def default_chain_def)
  then show ?thesis
    using started_program_is_wired [OF r] r
    by (auto simp: demo_start_fields demo_rpc_config_def default_chain_def dest: spec [of _ Kava])
qed


end
