(* ===== verification/ChainHead.thy ===== *)
theory ChainHead
  imports JsonText Md5
begin

text \<open>
  \<^verbatim>\<open>pkg/initapp/chainlinktest/chainlinkEvmTypesHead.go\<close>: the head of a chain as
  subscriptions announce it, and the two kinds of number it holds, an \<^verbatim>\<open>int64\<close> that may be
  null and a big integer, with their JSON, text and SQL forms.  The hexadecimal codecs of go-ethereum
  are parameters.
\<close>

section \<open>Values of the SQL driver, and errors\<close>

text \<open>Any other value carries its text and the name of its type, which errors quote.\<close>

datatype db_value =
    DbNil
  | DbInt int
  | DbInt32 int
  | DbInt64 int
  | DbUint nat
  | DbUint64 nat
  | DbString string
  | DbBytes bytes
  | DbOther string string

datatype null_error =
    BadJson
  | BadField gerr
  | BadNumber num_error
  | WrongType string
  | Unconvertible db_value
  | Overflowing db_value
  | NotBig string

section \<open>Int64\<close>

record int64_null =
  i_int64 :: int
  i_valid :: bool

definition NewInt64 :: "int \<Rightarrow> bool \<Rightarrow> int64_null" where
  "NewInt64 i valid = \<lparr>i_int64 = i, i_valid = valid\<rparr>"

definition Int64From :: "int \<Rightarrow> int64_null" where
  "Int64From i = NewInt64 i True"

text \<open>
  \<^verbatim>\<open>strconv.ParseInt(s, 10, 64)\<close>: a value comes with every error, the bound that was passed
  if the number is out of range and 0 otherwise.
\<close>

definition parse64 :: "string \<Rightarrow> int \<times> num_error option" where
  "parse64 s =
     (let (neg, t) = strip_sign s in
      case parse_uint 10 t of
        Inl e \<Rightarrow> if e = ErrRange then (if neg then - (2 ^ 63) else 2 ^ 63 - 1, Some e) else (0, Some e)
      | Inr un \<Rightarrow>
          if \<not> neg \<and> 2 ^ 63 \<le> un then (2 ^ 63 - 1, Some ErrRange)
          else if neg \<and> 2 ^ 63 < un then (- (2 ^ 63), Some ErrRange)
          else (if neg then - int un else int un, None))"

text \<open>
  A number is read again from its text, so an integer is not rounded; a decoder that fails leaves the
  field alone, while \<open>parse64\<close> also sets it.
\<close>

definition int64_unmarshal_json :: "bytes \<Rightarrow> int64_null \<Rightarrow> null_error option \<times> int64_null" where
  "int64_unmarshal_json data i =
     (case json_parse data of
        None \<Rightarrow> (Some BadJson, i)
      | Some j \<Rightarrow>
          if any_of j = None then (Some BadJson, i)
          else (case j of
            JNum t \<Rightarrow>
              (case parse64 t of
                 (n, None) \<Rightarrow> (None, i\<lparr>i_int64 := n, i_valid := True\<rparr>)
               | (n, Some e) \<Rightarrow> (Some (WrongType (''number '' @ t)), i\<lparr>i_valid := False\<rparr>))
          | JStr s \<Rightarrow>
              if s = [] then (None, i\<lparr>i_valid := False\<rparr>)
              else (case parse64 s of
                (n, e) \<Rightarrow> (map_option BadNumber e, i\<lparr>i_int64 := n, i_valid := (e = None)\<rparr>))
          | JNull \<Rightarrow> (None, i\<lparr>i_valid := False\<rparr>)
          | JBool b \<Rightarrow> (Some (WrongType ''bool''), i\<lparr>i_valid := False\<rparr>)
          | JArr js \<Rightarrow> (Some (WrongType []), i\<lparr>i_valid := False\<rparr>)
          | JObj ms \<Rightarrow> (Some (WrongType []), i\<lparr>i_valid := False\<rparr>)))"

definition int64_unmarshal_text :: "bytes \<Rightarrow> int64_null \<Rightarrow> null_error option \<times> int64_null" where
  "int64_unmarshal_text text i =
     (if text = [] \<or> text = ''null'' then (None, i\<lparr>i_valid := False\<rparr>)
      else (case parse64 text of
        (n, e) \<Rightarrow> (map_option BadNumber e, i\<lparr>i_int64 := n, i_valid := (e = None)\<rparr>)))"

definition int64_marshal_json :: "int64_null \<Rightarrow> bytes" where
  "int64_marshal_json i = (if \<not> i_valid i then ''null'' else show_int (i_int64 i))"

definition int64_marshal_text :: "int64_null \<Rightarrow> bytes" where
  "int64_marshal_text i = (if \<not> i_valid i then [] else show_int (i_int64 i))"

definition int64_set_valid :: "int \<Rightarrow> int64_null \<Rightarrow> int64_null" where
  "int64_set_valid n i = i\<lparr>i_int64 := n, i_valid := True\<rparr>"

definition int64_value :: "int64_null \<Rightarrow> db_value" where
  "int64_value i = (if \<not> i_valid i then DbNil else DbInt64 (i_int64 i))"

definition max_int64 :: nat where
  "max_int64 = 9223372036854775807"

fun int64_scan :: "db_value \<Rightarrow> int64_null \<Rightarrow> null_error option \<times> int64_null" where
  "int64_scan DbNil i = (None, NewInt64 0 False)"
| "int64_scan (DbInt n) i = (None, Int64From n)"
| "int64_scan (DbInt32 n) i = (None, Int64From n)"
| "int64_scan (DbInt64 n) i = (None, Int64From n)"
| "int64_scan (DbUint n) i =
     (if max_int64 < n then (Some (Overflowing (DbUint n)), i) else (None, Int64From (int n)))"
| "int64_scan (DbUint64 n) i =
     (if max_int64 < n then (Some (Overflowing (DbUint64 n)), i) else (None, Int64From (int n)))"
| "int64_scan v i = (Some (Unconvertible v), i)"

section \<open>Big\<close>

definition IsQuoted :: "bytes \<Rightarrow> bool" where
  "IsQuoted input \<longleftrightarrow>
     2 \<le> length input \<and>
     (input ! 0 = CHR 0x22 \<and> input ! (length input - 1) = CHR 0x22 \<or>
      input ! 0 = CHR 0x27 \<and> input ! (length input - 1) = CHR 0x27)"

definition RemoveQuotes :: "bytes \<Rightarrow> bytes" where
  "RemoveQuotes input = (if IsQuoted input then take (length input - 2) (drop 1 input) else input)"

definition HasHexPrefix :: "string \<Rightarrow> bool" where
  "HasHexPrefix s \<longleftrightarrow> 2 \<le> length s \<and> s ! 0 = CHR ''0'' \<and> (s ! 1 = CHR ''x'' \<or> s ! 1 = CHR ''X'')"

text \<open>
  go-ethereum: the JSON and text forms of hashes, of big integers and of \<^verbatim>\<open>uint64\<close>, and
  \<^verbatim>\<open>DecodeBig\<close> and \<^verbatim>\<open>EncodeBig\<close>; the latter is given a pointer.  \<open>big_junk\<close> is what
  \<^verbatim>\<open>SetString\<close> leaves after a text it cannot read, which Go does not say.
\<close>

record eth_codec =
  hash_json :: "bytes \<Rightarrow> gerr + bytes"
  hash_text :: "bytes \<Rightarrow> bytes"
  hexbig_json :: "bytes \<Rightarrow> gerr + int"
  hexbig_text :: "int \<Rightarrow> bytes"
  hexu64_json :: "bytes \<Rightarrow> gerr + nat"
  hexu64_text :: "nat \<Rightarrow> bytes"
  decode_big :: "string \<Rightarrow> gerr + int"
  encode_big :: "int option \<Rightarrow> string outcome"
  big_junk :: "string \<Rightarrow> int \<Rightarrow> int"

text \<open>\<^verbatim>\<open>big.Int.SetString(s, 10)\<close>.\<close>

definition set_string :: "string \<Rightarrow> int option" where
  "set_string s =
     (let (neg, t) = strip_sign s in
      if t \<noteq> [] \<and> list_all (is_digit_of 10) t
      then Some (if neg then - int (positional 10 0 t) else int (positional 10 0 t))
      else None)"

definition NewBig :: "int option \<Rightarrow> int option" where
  "NewBig i = (case i of Some n \<Rightarrow> Some n | None \<Rightarrow> None)"

definition NewBigI :: "int \<Rightarrow> int option" where
  "NewBigI i = NewBig (Some i)"

definition big_marshal_text :: "int \<Rightarrow> bytes" where
  "big_marshal_text b = show_int b"

definition big_marshal_json :: "int \<Rightarrow> bytes" where
  "big_marshal_json b = enc_string (big_marshal_text b)"

definition big_set :: "('x) eth_codec_scheme \<Rightarrow> null_error \<Rightarrow> string \<Rightarrow> int \<Rightarrow> null_error option \<times> int" where
  "big_set G e s b = (case set_string s of Some n \<Rightarrow> (None, n) | None \<Rightarrow> (Some e, big_junk G s b))"

definition big_unmarshal_text :: "'x eth_codec_scheme \<Rightarrow> bytes \<Rightarrow> int \<Rightarrow> null_error option \<times> int" where
  "big_unmarshal_text G input b =
     (let str = RemoveQuotes input in
      if HasHexPrefix str then
        (case decode_big G str of Inl e \<Rightarrow> (Some (BadField e), b) | Inr n \<Rightarrow> (None, n))
      else big_set G (NotBig str) str b)"

definition big_unmarshal_json :: "'x eth_codec_scheme \<Rightarrow> bytes \<Rightarrow> int \<Rightarrow> null_error option \<times> int" where
  "big_unmarshal_json G input b = big_unmarshal_text G input b"

definition big_string :: "int option \<Rightarrow> string" where
  "big_string b = (case b of Some n \<Rightarrow> show_int n | None \<Rightarrow> ''<nil>'')"

definition big_value :: "int \<Rightarrow> db_value" where
  "big_value b = DbString (big_string (Some b))"

fun big_scan :: "'x eth_codec_scheme \<Rightarrow> db_value \<Rightarrow> int \<Rightarrow> null_error option \<times> int" where
  "big_scan G (DbString v) b = big_set G (Unconvertible (DbString v)) v b"
| "big_scan G (DbBytes v) b = big_set G (Unconvertible (DbBytes v)) v b"
| "big_scan G v b = (Some (Unconvertible v), b)"

definition big_hex :: "'x eth_codec_scheme \<Rightarrow> int option \<Rightarrow> string outcome" where
  "big_hex G b = encode_big G b"

text \<open>Two nil pointers are the same pointer; one nil pointer is dereferenced.\<close>

definition big_cmp :: "int option \<Rightarrow> int option \<Rightarrow> int outcome" where
  "big_cmp b c =
     (case (b, c) of
        (Some m, Some n) \<Rightarrow> Ret (sgn (m - n))
      | (None, None) \<Rightarrow> Ret 0
      | _ \<Rightarrow> Panic ''nil pointer dereference'')"

definition big_equal :: "int option \<Rightarrow> int option \<Rightarrow> bool outcome" where
  "big_equal b c = (case big_cmp b c of Ret n \<Rightarrow> Ret (n = 0) | Panic p \<Rightarrow> Panic p)"

section \<open>Head\<close>

text \<open>
  A time: seconds of the epoch, nanoseconds, and the zone, empty for UTC.  The zero time is the start
  of the year 1.
\<close>

record instant =
  at_unix :: int
  at_nsec :: nat
  at_zone :: string

definition zero_instant :: instant where
  "zero_instant = \<lparr>at_unix = - 62135596800, at_nsec = 0, at_zone = []\<rparr>"

definition unix_utc :: "int \<Rightarrow> instant" where
  "unix_utc s = \<lparr>at_unix = s, at_nsec = 0, at_zone = []\<rparr>"

datatype head = Head
  (hd_id: nat)
  (hd_hash: bytes)
  (hd_number: int)
  (hd_l1: int64_null)
  (hd_parent_hash: bytes)
  (hd_parent: "head option")
  (hd_chain: "int option")
  (hd_timestamp: instant)
  (hd_created: instant)
  (hd_base_fee: "int option")

text \<open>Hashes have 32 bytes.\<close>

definition zero_hash :: bytes where
  "zero_hash = replicate 32 (CHR 0x00)"

definition zero_head :: head where
  "zero_head = Head 0 zero_hash 0 (NewInt64 0 False) zero_hash None None zero_instant zero_instant None"

text \<open>The structure that is decoded; a null sets a pointer to nil without asking the codec.\<close>

record json_head =
  jh_hash :: bytes
  jh_number :: "int option"
  jh_parent_hash :: bytes
  jh_timestamp :: nat
  jh_l1 :: "int option"
  jh_base_fee :: "int option"

definition zero_json_head :: json_head where
  "zero_json_head =
     \<lparr>jh_hash = zero_hash, jh_number = None, jh_parent_hash = zero_hash, jh_timestamp = 0, jh_l1 = None,
      jh_base_fee = None\<rparr>"

definition read_field :: "(bytes \<Rightarrow> gerr + 'a) \<Rightarrow> bytes \<Rightarrow> ('a \<Rightarrow> json_head) \<Rightarrow> null_error + json_head" where
  "read_field f raw upd = (case f raw of Inl e \<Rightarrow> Inl (BadField e) | Inr x \<Rightarrow> Inr (upd x))"

definition head_member ::
  "'x eth_codec_scheme \<Rightarrow> string \<times> string \<times> json \<Rightarrow> json_head \<Rightarrow> null_error + json_head" where
  "head_member G m r =
     (case m of (k, raw, j) \<Rightarrow>
        if field_matches ''hash'' k then read_field (hash_json G) raw (\<lambda>x. r\<lparr>jh_hash := x\<rparr>)
        else if field_matches ''number'' k then
          (if j = JNull then Inr (r\<lparr>jh_number := None\<rparr>)
           else read_field (hexbig_json G) raw (\<lambda>x. r\<lparr>jh_number := Some x\<rparr>))
        else if field_matches ''parentHash'' k then read_field (hash_json G) raw (\<lambda>x. r\<lparr>jh_parent_hash := x\<rparr>)
        else if field_matches ''timestamp'' k then read_field (hexu64_json G) raw (\<lambda>x. r\<lparr>jh_timestamp := x\<rparr>)
        else if field_matches ''l1BlockNumber'' k then
          (if j = JNull then Inr (r\<lparr>jh_l1 := None\<rparr>)
           else read_field (hexbig_json G) raw (\<lambda>x. r\<lparr>jh_l1 := Some x\<rparr>))
        else if field_matches ''baseFeePerGas'' k then
          (if j = JNull then Inr (r\<lparr>jh_base_fee := None\<rparr>)
           else (case big_unmarshal_json G raw (case jh_base_fee r of Some b \<Rightarrow> b | None \<Rightarrow> 0) of
             (Some e, _) \<Rightarrow> Inl e
           | (None, n) \<Rightarrow> Inr (r\<lparr>jh_base_fee := Some n\<rparr>)))
        else Inr r)"

fun head_members ::
  "'x eth_codec_scheme \<Rightarrow> (string \<times> string \<times> json) list \<Rightarrow> json_head \<Rightarrow> null_error + json_head" where
  "head_members G [] r = Inr r"
| "head_members G (m # ms) r =
     (case head_member G m r of Inl e \<Rightarrow> Inl e | Inr r' \<Rightarrow> head_members G ms r')"

text \<open>\<^verbatim>\<open>big.Int.Int64\<close> keeps the low 64 bits.\<close>

definition head_unmarshal :: "'x eth_codec_scheme \<Rightarrow> bytes \<Rightarrow> head \<Rightarrow> null_error option \<times> head" where
  "head_unmarshal G bs h =
     (case (case json_parse bs of
              None \<Rightarrow> Inl BadJson
            | Some JNull \<Rightarrow> Inr zero_json_head
            | Some (JObj ms) \<Rightarrow> head_members G ms zero_json_head
            | Some _ \<Rightarrow> Inl (WrongType ''chainlinktest.head'')) of
        Inl e \<Rightarrow> (Some e, h)
      | Inr r \<Rightarrow>
          (case jh_number r of
             None \<Rightarrow> (None, zero_head)
           | Some n \<Rightarrow>
               (None, Head (hd_id h) (jh_hash r) (i64 n)
                  (case jh_l1 r of None \<Rightarrow> hd_l1 h | Some l \<Rightarrow> Int64From (i64 l))
                  (jh_parent_hash r) (hd_parent h) (hd_chain h) (unix_utc (i64 (int (jh_timestamp r))))
                  (hd_created h) (jh_base_fee r))))"

definition head_marshal :: "'x eth_codec_scheme \<Rightarrow> head \<Rightarrow> bytes" where
  "head_marshal G h =
     enc_object (map (\<lambda>(k, t). enc_member k (enc_string t))
       ((if hd_hash h \<noteq> zero_hash then [(''hash'', hash_text G (hd_hash h))] else []) @
        [(''number'', hexbig_text G (hd_number h))] @
        (if hd_parent_hash h \<noteq> zero_hash then [(''parentHash'', hash_text G (hd_parent_hash h))] else []) @
        (if hd_timestamp h \<noteq> zero_instant
         then [(''timestamp'', hexu64_text G (nat (at_unix (hd_timestamp h) mod 2 ^ 64)))] else [])))"

section \<open>Round trips\<close>

lemma parse64_show_int:
  assumes "- (2 ^ 63) \<le> n" "n < 2 ^ 63"
  shows "parse64 (show_int n) = (n, None)"
proof -
  have "nat \<bar>n\<bar> \<le> 2 ^ 63" using assms by simp
  then have "parse_uint 10 (show_nat (nat \<bar>n\<bar>)) = Inr (nat \<bar>n\<bar>)"
    by (intro parse_show_nat) (simp add: max_u64_def)
  then show ?thesis using assms by (auto simp: parse64_def strip_sign_show_int)
qed

lemma set_string_show_int: "set_string (show_int n) = Some n"
  by (auto simp: set_string_def strip_sign_show_int positional_show_nat show_nat_digits)

text \<open>
  C40. A nullable integer survives JSON, text and SQL.  A valid 64-bit integer is read back exactly,
  also beyond the integers a float can hold; null is read as null, which in JSON and text keeps the
  old number and in SQL resets it.
\<close>

theorem int64_round_trips:
  assumes "- (2 ^ 63) \<le> i_int64 i" "i_int64 i < 2 ^ 63"
  shows "int64_unmarshal_json (int64_marshal_json i) j = (None, if i_valid i then i else j\<lparr>i_valid := False\<rparr>) \<and>
    int64_unmarshal_text (int64_marshal_text i) j = (None, if i_valid i then i else j\<lparr>i_valid := False\<rparr>) \<and>
    int64_scan (int64_value i) j = (None, if i_valid i then i else NewInt64 0 False)"
proof -
  have same: "j\<lparr>i_int64 := i_int64 i, i_valid := True\<rparr> = i" if "i_valid i" using that by simp
  have "json_parse ''null'' = Some JNull" by code_simp
  moreover have "show_int (i_int64 i) \<noteq> []" "show_int (i_int64 i) \<noteq> ''null''"
    using show_nat_head by (cases "i_int64 i" rule: show_int_cases; force simp: is_digit_def byte_def)+
  ultimately show ?thesis
    using same any_of_show_int [OF assms]
    by (auto simp: int64_unmarshal_json_def int64_marshal_json_def int64_unmarshal_text_def int64_marshal_text_def
        int64_value_def json_parse_show_int parse64_show_int [OF assms] Int64From_def NewInt64_def)
qed

theorem int64_round_trips_witness:
  "int64_unmarshal_json (int64_marshal_json (Int64From 9007199254740993)) (NewInt64 0 False) =
     (None, Int64From 9007199254740993)"
  using int64_round_trips [of "Int64From 9007199254740993" "NewInt64 0 False"] by (simp add: Int64From_def NewInt64_def)

text \<open>
  A big integer survives JSON, text and SQL, whatever its size and sign and whatever the variable
  held before.
\<close>

theorem big_round_trips:
  "big_unmarshal_json G (big_marshal_json b) c = (None, b) \<and>
   big_unmarshal_text G (big_marshal_text b) c = (None, b) \<and>
   big_scan G (big_value b) c = (None, b)"
proof -
  have quote: "RemoveQuotes (CHR 0x22 # s @ [CHR 0x22]) = s" for s by (simp add: RemoveQuotes_def IsQuoted_def)
  have no: "\<not> HasHexPrefix (show_int b)" "RemoveQuotes (show_int b) = show_int b"
    using show_nat_head show_nat_is_digits
    by (cases b rule: show_int_cases; force simp: HasHexPrefix_def RemoveQuotes_def IsQuoted_def is_digit_def byte_def)+
  show ?thesis
    by (simp add: big_unmarshal_json_def big_unmarshal_text_def big_marshal_json_def big_marshal_text_def big_set_def
        big_value_def big_string_def enc_plain [OF plain_show_int] quote no set_string_show_int)
qed

lemma i64_mod: "i64 (x mod 2 ^ 64) = i64 x"
  by (simp add: i64_def mod_add_left_eq)

lemma head_field_names:
  "field_matches ''hash'' ''hash''" "\<not> field_matches ''hash'' ''number''" "\<not> field_matches ''hash'' ''parentHash''"
  "\<not> field_matches ''hash'' ''timestamp''" "field_matches ''number'' ''number''"
  "\<not> field_matches ''number'' ''parentHash''" "\<not> field_matches ''number'' ''timestamp''"
  "field_matches ''parentHash'' ''parentHash''" "\<not> field_matches ''parentHash'' ''timestamp''"
  "field_matches ''timestamp'' ''timestamp''"
  by code_simp+

text \<open>Texts that a codec of go-ethereum writes and reads back.\<close>

definition codec_reads :: "(bytes \<Rightarrow> gerr + 'a) \<Rightarrow> ('a \<Rightarrow> bytes) \<Rightarrow> 'a \<Rightarrow> bool" where
  "codec_reads r t x \<longleftrightarrow> plain_text (t x) \<and> r (enc_string (t x)) = Inr x"

lemma codec_reads_iff:
  "codec_reads r t x \<longleftrightarrow> plain_text (t x) \<and> r (CHR 0x22 # t x @ [CHR 0x22]) = Inr x"
  by (auto simp: codec_reads_def enc_plain)

text \<open>
  C39. What a head keeps in JSON.  A head is read back with its hash, its number, its parent's hash
  and its time in whole seconds, the rest coming from the head it is read into and the base fee
  becoming nil; but a head without a time gets the start of 1970.
\<close>

theorem head_survives_json:
  assumes "codec_reads (hash_json G) (hash_text G) (hd_hash h)" "codec_reads (hash_json G) (hash_text G) (hd_parent_hash h)"
    and "codec_reads (hexbig_json G) (hexbig_text G) (hd_number h)"
    and "codec_reads (hexu64_json G) (hexu64_text G) (nat (at_unix (hd_timestamp h) mod 2 ^ 64))"
    and "i64 (hd_number h) = hd_number h" "i64 (at_unix (hd_timestamp h)) = at_unix (hd_timestamp h)"
  shows "head_unmarshal G (head_marshal G h) h0 =
    (None, Head (hd_id h0) (hd_hash h) (hd_number h) (hd_l1 h0) (hd_parent_hash h) (hd_parent h0) (hd_chain h0)
       (unix_utc (if hd_timestamp h = zero_instant then 0 else at_unix (hd_timestamp h))) (hd_created h0) None)"
proof -
  let ?t = "nat (at_unix (hd_timestamp h) mod 2 ^ 64)"
  define kvs where "kvs = (if hd_hash h \<noteq> zero_hash then [(''hash'', hash_text G (hd_hash h))] else []) @
        [(''number'', hexbig_text G (hd_number h))] @
        (if hd_parent_hash h \<noteq> zero_hash then [(''parentHash'', hash_text G (hd_parent_hash h))] else []) @
        (if hd_timestamp h \<noteq> zero_instant then [(''timestamp'', hexu64_text G ?t)] else [])"
  have names: "plain_text ''hash''" "plain_text ''number''" "plain_text ''parentHash''" "plain_text ''timestamp''"
    by code_simp+
  have plain: "plain_texts kvs"
    using assms(1-4) names by (auto simp: plain_texts_def kvs_def codec_reads_iff)
  have "head_marshal G h = object_text kvs"
    unfolding head_marshal_def kvs_def [symmetric] object_text_def
    using plain by (auto simp: plain_texts_def intro!: arg_cong [where f = enc_object] enc_plain_member)
  then have "json_parse (head_marshal G h) = Some (JObj (json_members kvs))"
    using json_parse_object [OF plain, of "[]" "[]"] by (simp add: skip_ws_def)
  moreover have "head_members G (json_members kvs) zero_json_head =
      Inr (zero_json_head\<lparr>jh_hash := hd_hash h, jh_number := Some (hd_number h), jh_parent_hash := hd_parent_hash h,
        jh_timestamp := (if hd_timestamp h = zero_instant then 0 else ?t)\<rparr>)"
    using assms(1-4)
    by (simp add: kvs_def json_members_def head_member_def head_field_names read_field_def codec_reads_iff zero_json_head_def)
  moreover have "i64 (int ?t) = at_unix (hd_timestamp h)" using assms(6) i64_mod [of "at_unix (hd_timestamp h)"] by simp
  moreover have "i64 0 = 0" by (simp add: i64_def)
  ultimately show ?thesis using assms(5) by (simp add: head_unmarshal_def zero_json_head_def)
qed

text \<open>A codec for the witness: hexadecimal digits behind \<^verbatim>\<open>0x\<close>.\<close>

fun hex_digits :: "nat \<Rightarrow> string" where
  "hex_digits n = (if n < 16 then [hex_char n] else hex_digits (n div 16) @ [hex_char (n mod 16)])"

fun unhex :: "string \<Rightarrow> bytes" where
  "unhex (a # b # s) = char_of (positional 16 0 [a, b]) # unhex s"
| "unhex _ = []"

definition demo_codec :: eth_codec where
  "demo_codec =
     \<lparr>hash_json = (\<lambda>raw. Inr (unhex (drop 3 (butlast raw)))),
      hash_text = (\<lambda>x. ''0x'' @ concat (map (\<lambda>c. hex_byte (byte c)) x)),
      hexbig_json = (\<lambda>raw. Inr (int (positional 16 0 (drop 3 (butlast raw))))),
      hexbig_text = (\<lambda>n. ''0x'' @ hex_digits (nat n)),
      hexu64_json = (\<lambda>raw. Inr (positional 16 0 (drop 3 (butlast raw)))),
      hexu64_text = (\<lambda>n. ''0x'' @ hex_digits n),
      decode_big = (\<lambda>s. Inr (int (positional 16 0 (drop 2 s)))),
      encode_big = (\<lambda>b. case b of Some n \<Rightarrow> Ret (''0x'' @ hex_digits (nat n)) | None \<Rightarrow> Panic ''nil pointer dereference''),
      big_junk = (\<lambda>s b. b)\<rparr>"

lemma hex_digits_parse: "positional 16 0 (hex_digits n) = n \<and> plain_text (hex_digits n)"
proof (induction n rule: hex_digits.induct)
  case (1 n)
  have "digit_val (hex_char d) = Some d \<and> plain_text [hex_char d]" if "d < 16" for d
    using that by (cases "d < 10") (auto simp: hex_char_def digit_val_def ascii_lower_def plain_text_def byte_def Let_def)
  then show ?case
    using 1 by (cases "n < 16") (simp_all add: hex_digits.simps [of n] positional_append plain_text_def)
qed

lemma demo_codec_reads:
  "0 \<le> n \<Longrightarrow> codec_reads (hexbig_json demo_codec) (hexbig_text demo_codec) n"
  "codec_reads (hexu64_json demo_codec) (hexu64_text demo_codec) t"
  using hex_digits_parse
  by (simp_all add: codec_reads_iff demo_codec_def butlast_append plain_text_def byte_def del: hex_digits.simps)

definition demo_hash :: bytes where
  "demo_hash = replicate 31 (CHR 0x00) @ [CHR 0xA5]"

definition demo_head :: "instant \<Rightarrow> head" where
  "demo_head t = Head 7 demo_hash 15000000 (NewInt64 0 False) zero_hash None (Some 1) t t (Some 9)"

theorem head_survives_json_witness:
  "head_unmarshal demo_codec (head_marshal demo_codec (demo_head (unix_utc 1655000000))) zero_head =
     (None, Head 0 demo_hash 15000000 (NewInt64 0 False) zero_hash None None (unix_utc 1655000000) zero_instant None) \<and>
   head_unmarshal demo_codec (head_marshal demo_codec (demo_head zero_instant)) zero_head =
     (None, Head 0 demo_hash 15000000 (NewInt64 0 False) zero_hash None None (unix_utc 0) zero_instant None)"
proof -
  let ?G = demo_codec
  have c: "codec_reads (hash_json ?G) (hash_text ?G) demo_hash" "codec_reads (hash_json ?G) (hash_text ?G) zero_hash"
    by code_simp+
  have "i64 15000000 = 15000000" "i64 1655000000 = 1655000000" "i64 (- 62135596800) = - 62135596800"
    by (simp_all add: i64_def)
  then show ?thesis
    using head_survives_json [of ?G "demo_head (unix_utc 1655000000)" zero_head]
      head_survives_json [of ?G "demo_head zero_instant" zero_head] c
    by (simp add: demo_codec_reads demo_head_def unix_utc_def zero_instant_def zero_head_def)
qed

end
