(* ===== verification/Tools.thy ===== *)
theory Tools
  imports Net
begin

text \<open>
  The command line tools beside the server: \<^verbatim>\<open>cmd/wscat/wscat.go\<close>, a WebSocket client for a terminal, and
  \<^verbatim>\<open>NewIPFSClient\<close> of \<^verbatim>\<open>pkg/initapp/ipfs.go\<close>, a trial of the IPFS cluster's client.  Parameters: the
  terminal, the WebSocket client, the command line library, and the cluster's packages.
\<close>

section \<open>The terminal\<close>

text \<open>
  What the terminal, a file or a pipe still holds, as the pieces that single reads of at most 4096
  bytes return; when none is left a read is at the end of the input.
\<close>

type_synonym stdin = "bytes list"

text \<open>
  \<^verbatim>\<open>ReadString('\n')\<close> of a fresh \<^verbatim>\<open>bufio.Reader\<close>: it reads pieces until one has the delimiter.  The
  line is returned with it; what the reader holds beyond the line is lost with the reader.
\<close>

fun read_string :: "stdin \<Rightarrow> bytes \<times> stdin" where
  "read_string [] = ([], [])"
| "read_string (b # bs) =
     (if CHR 0x0A \<in> set b then (takeWhile (\<lambda>c. c \<noteq> CHR 0x0A) b @ [CHR 0x0A], bs)
      else (let (l, rest) = read_string bs in (b @ l, rest)))"

section \<open>cmd/wscat\<close>

text \<open>
  \<open>wc_flag\<close> parses the arguments: an error, or the flag \<^verbatim>\<open>eth_blockNumber\<close> and the arguments after it.
  \<open>wc_dial\<close> connects with headers, \<open>wc_write\<close> and \<open>wc_read\<close> use the connection, \<open>wc_close\<close> closes it.
\<close>

record 'w wscat_env =
  wc_set_tz :: "'w \<Rightarrow> gerr option \<times> 'w"
  wc_flag :: "string list \<Rightarrow> gerr + bool \<times> string list"
  wc_dial :: "string \<Rightarrow> (string \<times> string) list \<Rightarrow> 'w \<Rightarrow> gerr option \<times> 'w"
  wc_write :: "bytes \<Rightarrow> 'w \<Rightarrow> gerr option \<times> 'w"
  wc_read :: "'w \<Rightarrow> (gerr + bytes) \<times> 'w"
  wc_close :: "'w \<Rightarrow> 'w"

definition block_number_call :: bytes where
  \<open>block_number_call = ''{"id":0,"jsonrpc":"2.0","method":"eth_blockNumber","params":[]}''\<close>

definition wscat_headers :: "(string \<times> string) list" where
  "wscat_headers = [(''X-Forwarded-For'', ''127.0.0.1''), (''X-Real-Ip'', ''127.0.0.1'')]"

text \<open>\<^verbatim>\<open>c.Args().Get(0)\<close>\<close>

definition first_arg :: "string list \<Rightarrow> string" where
  "first_arg args = (case args of [] \<Rightarrow> [] | a # _ \<Rightarrow> a)"

text \<open>
  With the flag one call is sent and one reply is printed.  The connection is closed, and once more
  by the deferred call.  The result has the lines printed so far.
\<close>

definition block_number :: "('w, 'x) wscat_env_scheme \<Rightarrow> 'w \<Rightarrow> (gerr option \<times> string list) \<times> 'w" where
  "block_number E w =
     (let out = [''> '' @ block_number_call] in
      case wc_write E block_number_call w of
        (Some e, w1) \<Rightarrow> ((Some e, out), wc_close E w1)
      | (None, w1) \<Rightarrow>
          (case wc_read E w1 of
             (Inl e, w2) \<Rightarrow> ((Some e, out), wc_close E w2)
           | (Inr m, w2) \<Rightarrow> ((None, out @ [''< '' @ m]), wc_close E (wc_close E w2))))"

text \<open>
  Without it three goroutines share the connection: one sends the lines of the terminal, one prints
  what arrives, and the main one waits for an interrupt.  \<open>cat_done\<close> is the cancelled context.
\<close>

record 'w wscat =
  cat_world :: 'w
  cat_in :: stdin
  cat_out :: "string list"
  cat_prompted :: bool
  cat_sending :: bool
  cat_receiving :: bool
  cat_waiting :: bool
  cat_done :: bool

definition start_wscat :: "stdin \<Rightarrow> string list \<Rightarrow> 'w \<Rightarrow> 'w wscat" where
  "start_wscat i out w =
     \<lparr>cat_world = w, cat_in = i, cat_out = out, cat_prompted = False, cat_sending = True, cat_receiving = True,
      cat_waiting = True, cat_done = False\<rparr>"

text \<open>The sender begins with a prompt.\<close>

definition prompt_turn :: "'w wscat \<Rightarrow> 'w wscat" where
  "prompt_turn s = s\<lparr>cat_out := cat_out s @ [''> ''], cat_prompted := True\<rparr>"

text \<open>One turn of the sender.  The errors of reading and of writing are dropped.\<close>

definition send_turn :: "('w, 'x) wscat_env_scheme \<Rightarrow> 'w wscat \<Rightarrow> 'w wscat" where
  "send_turn E s =
     (if cat_done s then s\<lparr>cat_out := cat_out s @ [''received signal, exiting''], cat_sending := False\<rparr>
      else
        (let (message, rest) = read_string (cat_in s)
         in s\<lparr>cat_in := rest, cat_world := snd (wc_write E message (cat_world s))\<rparr>))"

definition receive_turn :: "('w, 'x) wscat_env_scheme \<Rightarrow> 'w wscat \<Rightarrow> 'w wscat" where
  "receive_turn E s =
     (if cat_done s then s\<lparr>cat_out := cat_out s @ [''received signal, exiting''], cat_receiving := False\<rparr>
      else case wc_read E (cat_world s) of
        (Inl e, w1) \<Rightarrow> s\<lparr>cat_world := w1, cat_receiving := False\<rparr>
      | (Inr m, w1) \<Rightarrow> s\<lparr>cat_world := w1, cat_out := cat_out s @ [''< '' @ m @ [CHR 0x0A] @ ''> '']\<rparr>)"

text \<open>The interrupt: the connection is closed twice and the context is cancelled.\<close>

definition interrupt_turn :: "('w, 'x) wscat_env_scheme \<Rightarrow> 'w wscat \<Rightarrow> 'w wscat" where
  "interrupt_turn E s =
     s\<lparr>cat_world := wc_close E (wc_close E (cat_world s)),
       cat_out := cat_out s @ [''received signal, exiting''], cat_waiting := False, cat_done := True\<rparr>"

inductive wscat_run :: "('w, 'x) wscat_env_scheme \<Rightarrow> 'w wscat \<Rightarrow> 'w wscat \<Rightarrow> bool" for E s0 where
  started: "wscat_run E s0 s0"
| prompts: "wscat_run E s0 s \<Longrightarrow> \<not> cat_prompted s \<Longrightarrow> wscat_run E s0 (prompt_turn s)"
| sends: "wscat_run E s0 s \<Longrightarrow> cat_prompted s \<Longrightarrow> cat_sending s \<Longrightarrow> wscat_run E s0 (send_turn E s)"
| receives: "wscat_run E s0 s \<Longrightarrow> cat_receiving s \<Longrightarrow> wscat_run E s0 (receive_turn E s)"
| interrupted: "wscat_run E s0 s \<Longrightarrow> cat_waiting s \<Longrightarrow> wscat_run E s0 (interrupt_turn E s)"

text \<open>
  \<^verbatim>\<open>main\<close>: how the program ends, or the session it enters.  The error of the action is dropped.
\<close>

datatype 'w wscat_end = WcPanic gerr | WcDone "string list" | WcSession "'w wscat"

definition wscat_main :: "('w, 'x) wscat_env_scheme \<Rightarrow> string list \<Rightarrow> stdin \<Rightarrow> 'w \<Rightarrow> 'w wscat_end \<times> 'w" where
  "wscat_main E args i w =
     (case wc_set_tz E w of
        (Some e, w1) \<Rightarrow> (WcPanic e, w1)
      | (None, w1) \<Rightarrow>
          (case wc_flag E args of
             Inl e \<Rightarrow> (WcDone [], w1)
           | Inr (eth_block_number, rest) \<Rightarrow>
               (case wc_dial E (first_arg rest) wscat_headers w1 of
                  (Some e, w2) \<Rightarrow> (WcDone [], w2)
                | (None, w2) \<Rightarrow>
                    (let out = [''connected to websocket''] in
                     if eth_block_number then
                       (case block_number E w2 of ((e, o1), w3) \<Rightarrow> (WcDone (out @ o1), w3))
                     else (WcSession (start_wscat i out w2), w2)))))"

text \<open>
  What the sender sends: the first line of each piece that has one.  A pipe that delivers several
  lines in one piece loses all but the first, and after the end of the input empty messages follow.
\<close>

lemma read_string_piece:
  assumes "CHR 0x0A \<notin> set l"
  shows "read_string ((l @ CHR 0x0A # beyond) # rest) = (l @ [CHR 0x0A], rest)"
proof -
  have "takeWhile (\<lambda>c. c \<noteq> CHR 0x0A) (l @ CHR 0x0A # beyond) = l" using assms by (induction l) auto
  then show ?thesis by simp
qed

lemma sent_line:
  assumes "cat_in s = (l @ CHR 0x0A # beyond) # rest" "CHR 0x0A \<notin> set l" "\<not> cat_done s"
  shows "send_turn E s = s\<lparr>cat_in := rest, cat_world := snd (wc_write E (l @ [CHR 0x0A]) (cat_world s))\<rparr>"
  using assms by (simp add: send_turn_def read_string_piece del: read_string.simps)

lemma sent_after_end:
  "cat_in s = [] \<Longrightarrow> \<not> cat_done s \<Longrightarrow> send_turn E s = s\<lparr>cat_world := snd (wc_write E [] (cat_world s))\<rparr>"
  by (simp add: send_turn_def)

text \<open>The main goroutine waits exactly as long as the context is not cancelled.\<close>

lemma wscat_waits:
  "wscat_run E s0 s \<Longrightarrow> cat_waiting s0 = (\<not> cat_done s0) \<Longrightarrow> cat_waiting s = (\<not> cat_done s)"
  by (induction rule: wscat_run.induct)
     (auto simp: prompt_turn_def send_turn_def receive_turn_def interrupt_turn_def split: prod.splits sum.splits)

text \<open>So there is one interrupt at most, and the goroutines do not end it: only an interrupt ends the program.\<close>

lemma wscat_ends_by_interrupt:
  assumes "wscat_run E (start_wscat i out w) s" "\<not> cat_done s"
  shows "cat_waiting s \<and> cat_sending s"
proof -
  have "\<not> cat_done s \<longrightarrow> cat_waiting s \<and> cat_sending s"
    using assms(1)
    by (induction rule: wscat_run.induct)
       (auto simp: start_wscat_def prompt_turn_def send_turn_def receive_turn_def interrupt_turn_def split: prod.splits sum.splits)
  then show ?thesis using assms(2) by simp
qed

section \<open>NewIPFSClient\<close>

text \<open>
  \<open>cl_add\<close>: what the cluster's \<^verbatim>\<open>Add\<close> sends on the channel, and whether it closes it at the end.
\<close>

record 'w cluster_env =
  cl_multiaddr :: "string \<Rightarrow> gerr + string"
  cl_client :: "string \<Rightarrow> bool \<Rightarrow> 'w \<Rightarrow> gerr option \<times> 'w"
  cl_add :: "string list \<Rightarrow> 'w \<Rightarrow> (string list \<times> bool) \<times> 'w"

text \<open>
  The CIDs the function prints: the first one, or the empty one of a closed channel.  \<open>None\<close>: it waits for ever.
  Further outputs are never received, so the goroutine that sends them waits.
\<close>

definition NewIPFSClient :: "('w, 'x) cluster_env_scheme \<Rightarrow> 'w \<Rightarrow> (gerr + string) option \<times> 'w" where
  "NewIPFSClient E w =
     (case cl_multiaddr E (''/ip4/127.0.0.1/tcp/'' @ show_nat 9094) of
        Inl e \<Rightarrow> (Some (Inl e), w)
      | Inr addr \<Rightarrow>
          (case cl_client E addr True w of
             (Some e, w1) \<Rightarrow> (Some (Inl e), w1)
           | (None, w1) \<Rightarrow>
               (case cl_add E [''filePath''] w1 of
                  ((cid # _, _), w2) \<Rightarrow> (Some (Inr cid), w2)
                | (([], True), w2) \<Rightarrow> (Some (Inr []), w2)
                | (([], False), w2) \<Rightarrow> (None, w2))))"

end
