(* ===== verification/Names.thy ===== *)
theory Names
  imports JsonText Utils
begin

text \<open>
  \<^verbatim>\<open>CamelCase\<close> of \<^verbatim>\<open>pkg/utils/string.go\<close> and \<^verbatim>\<open>LowerFirst\<close> of \<^verbatim>\<open>pkg/utils/common.go\<close>, with what they
  use of \<^verbatim>\<open>strings\<close>.  The tables of \<^verbatim>\<open>unicode\<close> are a parameter.
\<close>

section \<open>Code points\<close>

record unicode =
  to_lower :: "nat \<Rightarrow> nat"
  to_title :: "nat \<Rightarrow> nat"
  is_letter :: "nat \<Rightarrow> bool"
  is_number :: "nat \<Rightarrow> bool"
  is_blank :: "nat \<Rightarrow> bool"

text \<open>The code point of a valid sequence, and the first one of a text with its width; what is not valid is U+FFFD.\<close>

fun code_point :: "string \<Rightarrow> nat" where
  "code_point [a] = byte a"
| "code_point [a, b] = (byte a - 192) * 64 + (byte b - 128)"
| "code_point [a, b, c] = (byte a - 224) * 4096 + (byte b - 128) * 64 + (byte c - 128)"
| "code_point [a, b, c, d] =
     (byte a - 240) * 262144 + (byte b - 128) * 4096 + (byte c - 128) * 64 + (byte d - 128)"
| "code_point _ = 65533"

definition decode_rune :: "string \<Rightarrow> nat \<times> nat" where
  "decode_rune s = (let n = utf8_size s in if n = 0 then (65533, 1) else (code_point (take n s), n))"

function runes :: "string \<Rightarrow> nat list" where
  "runes [] = []"
| "runes (c # cs) = (let (r, n) = decode_rune (c # cs) in r # runes (drop (n - 1) cs))"
  by pat_completeness auto
termination by (relation "measure length") auto

text \<open>\<^verbatim>\<open>string(r)\<close>\<close>

definition rune_string :: "nat \<Rightarrow> string" where
  "rune_string r = (if 1114111 < r \<or> 55296 \<le> r \<and> r < 57344 then replacement else utf8_enc r)"

section \<open>strings.Title and TrimSpace\<close>

definition is_separator :: "unicode \<Rightarrow> nat \<Rightarrow> bool" where
  "is_separator U r =
     (if r < 128 then \<not> (48 \<le> r \<and> r < 58 \<or> 97 \<le> r \<and> r < 123 \<or> 65 \<le> r \<and> r < 91 \<or> r = 95)
      else \<not> is_letter U r \<and> \<not> is_number U r \<and> is_blank U r)"

fun title_runes :: "unicode \<Rightarrow> nat \<Rightarrow> nat list \<Rightarrow> nat list" where
  "title_runes U prev [] = []"
| "title_runes U prev (r # rs) = (if is_separator U prev then to_title U r else r) # title_runes U r rs"

definition Title :: "unicode \<Rightarrow> string \<Rightarrow> string" where
  "Title U s = concat (map rune_string (title_runes U 32 (runes s)))"

section \<open>CamelCase and LowerFirst\<close>

definition CamelCase :: "unicode \<Rightarrow> string \<Rightarrow> string" where
  "CamelCase U name = trim_space (concat (map (Title U) (str_split (CHR ''_'') name)))"

text \<open>The loop returns in its first turn, at index 0; what it keeps starts at the second byte.\<close>

definition LowerFirst :: "unicode \<Rightarrow> string \<Rightarrow> string" where
  "LowerFirst U name =
     (if name = [] then [] else rune_string (to_lower U (fst (decode_rune name))) @ drop 1 name)"

text \<open>A text of one-byte characters is its own list of code points.\<close>

lemma runes_ascii: "\<forall>c \<in> set s. byte c < 128 \<Longrightarrow> runes s = map byte s"
  by (induction s) (simp_all add: decode_rune_def utf8_size_def)

lemma LowerFirst_ascii:
  "byte c < 128 \<Longrightarrow> LowerFirst U (c # cs) = rune_string (to_lower U (byte c)) @ cs"
  by (simp add: LowerFirst_def decode_rune_def utf8_size_def)

text \<open>
  A first character of several bytes is not replaced as a whole: its other bytes stay, and the result is
  not valid UTF-8.
\<close>

lemma utf8_size_cont: "cont c \<Longrightarrow> utf8_size (c # cs) = 0"
  by (simp add: utf8_size_def cont_def Let_def)

lemma second_byte_cont: "1 < utf8_size (c # cs) \<Longrightarrow> \<exists>d ds. cs = d # ds \<and> cont d"
  by (cases cs; cases "tl cs"; cases "tl (tl cs)") (auto simp: utf8_size_def Let_def split: if_splits list.splits)

lemma LowerFirst_splits_a_character:
  assumes "1 < utf8_size (c # cs)"
  shows "\<exists>rest. LowerFirst U (c # cs) = rune_string (to_lower U (fst (decode_rune (c # cs)))) @ rest \<and>
    \<not> valid_utf8 rest"
proof -
  obtain d ds where "cs = d # ds" "cont d" using second_byte_cont [OF assms] by blast
  then have "\<not> valid_utf8 cs" by (simp add: utf8_size_cont)
  then show ?thesis by (simp add: LowerFirst_def)
qed

text \<open>A word of letters and digits gets its first letter in title case, and keeps the rest.\<close>

definition word_char :: "char \<Rightarrow> bool" where
  "word_char c \<longleftrightarrow> (let r = byte c in 48 \<le> r \<and> r < 58 \<or> 97 \<le> r \<and> r < 123 \<or> 65 \<le> r \<and> r < 91 \<or> r = 95)"

lemma word_char_no_separator: "word_char c \<Longrightarrow> byte c < 128 \<and> \<not> is_separator U (byte c)"
  by (auto simp: word_char_def is_separator_def Let_def)

lemma rune_string_byte: "byte c < 128 \<Longrightarrow> rune_string (byte c) = [c]"
  by (simp add: rune_string_def utf8_enc_byte)

lemma title_rest:
  "\<forall>c \<in> set s. word_char c \<Longrightarrow> \<not> is_separator U prev \<Longrightarrow>
   concat (map rune_string (title_runes U prev (map byte s))) = s"
  by (induction s arbitrary: prev) (auto simp: rune_string_byte dest: word_char_no_separator [of _ U])

lemma Title_word:
  assumes "\<forall>x \<in> set (c # cs). word_char x"
  shows "Title U (c # cs) = rune_string (to_title U (byte c)) @ cs"
proof -
  have "runes (c # cs) = byte c # map byte cs"
    using runes_ascii [of "c # cs"] assms word_char_no_separator by fastforce
  moreover have "is_separator U 32" by (simp add: is_separator_def)
  ultimately show ?thesis
    using title_rest [of cs U "byte c"] assms word_char_no_separator [of c U] by (simp add: Title_def)
qed

lemma CamelCase_words:
  assumes "w \<noteq> [] \<and> (\<forall>x \<in> set w. word_char x \<and> x \<noteq> CHR ''_'')"
    and "v \<noteq> [] \<and> (\<forall>x \<in> set v. word_char x \<and> x \<noteq> CHR ''_'')"
  shows "CamelCase U (w @ CHR ''_'' # v) =
    trim_space (rune_string (to_title U (byte (hd w))) @ tl w @ rune_string (to_title U (byte (hd v))) @ tl v)"
proof -
  have "CHR ''_'' \<notin> set w" "CHR ''_'' \<notin> set v" using assms by auto
  then have "str_split (CHR ''_'') (w @ CHR ''_'' # v) = [w, v]" by (metis str_split_append str_split_no_sep)
  then show ?thesis
    using assms Title_word [of "hd w" "tl w" U] Title_word [of "hd v" "tl v" U] by (simp add: CamelCase_def)
qed

end
