(* ===== verification/Spec2Isabelle.thy ===== *)
theory Spec2Isabelle
  imports CacheRun NodeView Start ChainHead Tools Names
begin

text \<open>
  A model of the chain API gateway (Go, \<^verbatim>\<open>src/\<close>) and the theorems that make it correct.

  \<^bold>\<open>The program.\<close>  The gateway sells access to blockchain nodes.  A client sends JSON-RPC calls for one
  of thirteen chains, over HTTP or a WebSocket, or a Tendermint call in the path of a GET request; the
  API key is in the path.  The handler (\<^verbatim>\<open>pkg/handler/jsonRpcHandler.go\<close>) decodes the call, compares its
  methods with the chain's lists, charges the API key in Redis through a Lua script
  (\<^verbatim>\<open>ratelimit/v1\<close>), and passes the call to the proxy (\<^verbatim>\<open>pkg/proxy\<close>), which asks the node or takes
  the result from its cache.  A second group of endpoints (\<^verbatim>\<open>pkg/handler/rpcHandler.go\<close>) passes
  requests as they are to a node of the chain that was healthy in the last round of health checks.
  The IPFS gateway (\<^verbatim>\<open>pkg/handler/ipfsHandler.go\<close>, \<^verbatim>\<open>ipfs_proxy.go\<close>,
  \<^verbatim>\<open>service/ipfsService.go\<close>, \<^verbatim>\<open>ratelimit_ipfs.go\<close>) passes API calls to an IPFS node and keeps
  account of storage and transfer.  At start \<^verbatim>\<open>pkg/initapp\<close> builds the chains' handlers from the
  configuration (\<^verbatim>\<open>config\<close>) and \<^verbatim>\<open>router/router.go\<close> the routes.

  \<^bold>\<open>Style.\<close>  Definitions keep the names and the order of the code.  State is passed explicitly: the outside
  world is a type \<open>'w\<close>, and each client operation of Redis, HTTP, the clock and so on is a field of an
  environment record that gives a result and the next world.  Environment records extend each
  other (\<open>redis\<close>, \<open>limiter_env\<close>, \<open>gateway_env\<close>, \<open>ws_env\<close>, \<open>ipfs_env\<close>, \<open>ipfs_limit_env\<close>, ...),
  so a theorem of the limiter holds in each of them.  Errors are values: \<open>gerr + 'a\<close> for a Go
  \<^verbatim>\<open>(T, error)\<close>, and \<open>'a outcome\<close> where the code may panic.  Machine integers are words where the code
  computes with them, and otherwise \<open>int\<close> with the wrap-around written out (\<open>wrap64\<close>).

  \<^bold>\<open>Theories.\<close>
  \<^item> \<open>Prelude\<close>: results, Go's \<^verbatim>\<open>strings\<close>, decimal texts, wrap-around; the shared lemmas and simp collections.
  \<^item> \<open>Numbers\<close>: \<^verbatim>\<open>strconv\<close> and \<^verbatim>\<open>pkg/utils/number.go\<close>.  \<open>Json\<close>: \<^verbatim>\<open>encoding/json\<close>.  \<open>Md5\<close>: \<^verbatim>\<open>crypto/md5\<close>.
    \<open>Query\<close>: \<^verbatim>\<open>net/url\<close> queries, with their round trip.  \<open>PlainJson\<close>: objects of plain texts are read back.
    \<open>JsonText\<close>: so are decimal numbers, integers held as floats, and texts with escapes.  \<open>RoundTrip\<close>:
    a request that is written for a node is read as the same request.  \<open>Literals\<close>, \<open>Scanned\<close>, \<open>Compact\<close>: for any text
    that is read, compacting it keeps its value, so every request that was decoded is sent on as it was.
  \<^item> \<open>Utils\<close>: \<^verbatim>\<open>pkg/utils\<close>.  \<open>Net\<close>: headers, addresses and the network clients.
  \<^item> \<open>Redis\<close>: the commands, the contract \<open>redis_contract\<close> the proofs use, a store that keeps the contract, and
    \<^verbatim>\<open>pkg/utils/cache.go\<close>.  \<open>RateLimit\<close>: the Lua script, \<^verbatim>\<open>RedisAllow\<close> and \<^verbatim>\<open>RateLimiter\<close>; an abstract
    limit of day and second windows which the script refines; the safety of the day quota.
  \<^item> \<open>JsonRpc\<close>: \<^verbatim>\<open>pkg/jsonrpc\<close>.  \<open>Proxy\<close>: \<^verbatim>\<open>jsonRpcProxy.go\<close> and \<^verbatim>\<open>tendermintRpcProxy.go\<close> with the result
    cache.  \<open>Handler\<close>: \<^verbatim>\<open>jsonRpcHandler.go\<close> over HTTP: which calls reach a node, and that they were paid.
  \<^item> \<open>WsProxy\<close>: \<^verbatim>\<open>handleWs\<close> and \<^verbatim>\<open>pkg/proxy/websocket.go\<close>: the four goroutines of a session as functions that
    take one turn, \<open>ws_run\<close> as their runs in any order, and invariants by rule induction.
  \<^item> \<open>Quota\<close>: what the commands of a request leave alone (the locale \<open>command_frame\<close>, once for the keys of
    Redis and once for what the nodes are seen to be asked), and the day quota over runs of whole requests to
    all the handlers.  \<open>CacheRun\<close>: over such runs every
    reply goes back to what a node of the chain answered to the same call.  \<open>NodeView\<close>: nodes see nothing but the
    calls a client made.
  \<^item> \<open>Prometheus\<close>, \<open>Health\<close>, \<open>Forward\<close>: \<^verbatim>\<open>pkg/prometheus\<close> and \<^verbatim>\<open>rpcHandler.go\<close>: rounds of health checks
    (heights, the choice of healthy nodes, termination) and the forwarding of a request.
  \<^item> \<open>Config\<close>: \<^verbatim>\<open>config.go\<close> and \<^verbatim>\<open>logger.go\<close>.  \<open>Chains\<close>: \<^verbatim>\<open>pkg/initapp\<close>.  \<open>Router\<close>: \<^verbatim>\<open>router.go\<close>.
  \<^item> \<open>IpfsService\<close>, \<open>IpfsLimit\<close>, \<open>Ipfs\<close>: the IPFS gateway from its records to its handler.
  \<^item> \<open>Start\<close>: \<^verbatim>\<open>cmd/chainapi\<close>, \<^verbatim>\<open>NewApp\<close>, \<^verbatim>\<open>pkg/db\<close>: from the files to a program that serves.
  \<^item> \<open>ChainHead\<close>: \<^verbatim>\<open>chainlinktest\<close>, the heads the repository's subscription tests decode.
  \<^item> \<open>Tools\<close>: \<^verbatim>\<open>cmd/wscat\<close> and \<^verbatim>\<open>NewIPFSClient\<close>.  \<open>Names\<close>: \<^verbatim>\<open>CamelCase\<close> and \<^verbatim>\<open>LowerFirst\<close> of \<^verbatim>\<open>pkg/utils\<close>.
  \<^item> This theory: what follows from the composition of sessions and chains.

  \<^bold>\<open>Recursion and fuel.\<close>  The JSON reader recurses with the decoder's own nesting limit of 10000.  Loops of the
  code that end are structural recursions or have a termination proof.  The wait for a WebSocket reply
  in \<open>Health\<close> may not end, so it is a \<open>partial_function\<close> and the theorem \<open>ws_wait_ends_iff\<close> says when it
  does.  No result depends on a bound the code does not have.

  \<^bold>\<open>Parameters.\<close>  Not in the repository, hence parameters: Redis, the HTTP and WebSocket clients, the clock, the jq
  engine, the TOML library, the database, the packages \<^verbatim>\<open>starnet/...\<close> (cache keys, chain constants, data access),
  the IPFS libraries, echo's parameter binder.  Theorems name what they need of them as hypotheses
  or locale assumptions, and each such theorem has a witness on a concrete environment.

  \<^bold>\<open>Not modelled.\<close>  \<^verbatim>\<open>service/ipfsService_cluster.go\<close> (empty), \<^verbatim>\<open>Inpect\<close> of \<^verbatim>\<open>pkg/utils\<close> (one call of a
  library, and nothing calls it), types that nothing uses (\<^verbatim>\<open>SubscriptionNotification\<close>, \<^verbatim>\<open>IpfsObjectStat\<close>),
  constructors that only store their arguments (these are arguments of the definitions), what is
  logged, and echo's routing and middleware.  Tests are not modelled.
\<close>

section \<open>Cosmos over WebSockets\<close>

lemma cosmos_handler:
  assumes "app_ws (init_handlers K a) Cosmos = Some h"
  shows "ws_black_methods h = []" "just_white_methods h = []" "set (erigon_methods h) = {''dial_seeds'', ''dial_peers''}"
    "ws_erigon_upstream (h_proxy h) = []" "cacheable_methods (h_proxy h) = tendermint_cacheable"
  using assms
  by (auto simp: init_handlers_def init_function_defs Let_def new_json_rpc_handler_def plain_proxy_def tendermint_http_black_def)

text \<open>
  C26. A client of Cosmos crashes its session with one call.  The init function gives the Tendermint
  black list as Erigon methods and no Erigon node.  So in every session of Cosmos, at any time, a
  paid call of dial_seeds or dial_peers is accepted, charged, and sent on a connection that is nil.
\<close>

theorem cosmos_dial_panics:
  assumes "app_ws (init_handlers K a) Cosmos = Some h"
    and "open_ws E h q st = (Inr s0, w0)" "ws_run E h uri s0 s"
    and "unmarshal_request raw = Some req" "batch_call req = None" "single_call req = Some r"
    and "rq_method r \<in> {''dial_seeds'', ''dial_peers''}"
    and "rate_limit E h (ss_key s) 1 (erigon_count E 1 (ss_world s)) = (None, w1)"
  shows "\<exists>s1. client_frame E h raw s = (Panic ''nil pointer dereference'', s1)"
proof -
  note h = cosmos_handler [OF assms(1)]
  let ?req = "req\<lparr>request_type := RequestTypeErigon\<rparr>"
  have bl: "black_list h (ss_key s) (ws_black_methods h) = []" by (simp add: black_list_def h)
  have m: "rq_method r \<noteq> []" "In (rq_method r) (erigon_methods h)" "\<not> In (rq_method r) []"
    using assms(7) by (auto simp only: In_iff h(3) list.set list.distinct empty_iff insert_iff)
  then have b: "bind E h (ss_key s) raw (ws_black_methods h) (erigon_methods h) (ss_world s) =
      (Ret (Inr ?req), erigon_count E 1 (ss_world s))"
    using assms(5) by (simp add: bind_def assms(4,6) is_batch_call_def validate_req_def bl m)
  have c: "cost ?req = 1" using assms(6) by (simp add: cost_def)
  have "\<not> ss_erigon s" using ws_run_erigon [OF assms(3)] open_ws_erigon [OF assms(2)] h(4) by simp
  moreover have "\<not> In (rq_method r) (cacheable_methods (h_proxy h))"
    using assms(7) cacheable_lists_apart(5) unfolding In_iff h(5) tendermint_http_black_def by auto
  ultimately obtain s2 where "ws_proxy_send E (h_proxy h) ?req (s\<lparr>ss_world := w1\<rparr>) = (Panic ''nil pointer dereference'', s2)"
    using erigon_call_without_connection [of "s\<lparr>ss_world := w1\<rparr>" ?req r "h_proxy h" E] assms(5,6) by auto
  then show ?thesis using assms(8) by (simp add: client_frame_def b c)
qed

theorem cosmos_dial_panics_witness:
  "\<exists>h (s :: demo_world session) s1. app_ws (init_handlers (\<lambda>c. \<lparr>cc_chain_id = 1, cc_name = ''chain''\<rparr>) demo_app) Cosmos = Some h \<and>
     client_frame (demo_ws_env []) h (demo_text ''dial_seeds'') s = (Panic ''nil pointer dereference'', s1)"
proof -
  let ?K = "\<lambda>c. \<lparr>cc_chain_id = 1, cc_name = ''chain''\<rparr>" and ?E = "demo_ws_env []"
  have "app_ws (init_handlers ?K demo_app) = app_http (init_handlers ?K demo_app)"
    by (rule init_handlers_same) (simp add: demo_app_def)
  then obtain h where h: "app_ws (init_handlers ?K demo_app) Cosmos = Some h" "handler_ok ?K demo_app Cosmos h"
    using init_handlers_ok [of ?K demo_app Cosmos] by auto
  have "bind_api_key (demo_request ''/ws/cosmos/v1/k'' []) = Inr ''k''" by code_simp
  then have "\<exists>s. open_ws ?E h (demo_request ''/ws/cosmos/v1/k'' []) (0, quota_start) = (Inr s, quota_start) \<and>
      ss_key s = ''k'' \<and> ss_world s = quota_start"
    by (simp add: open_ws_def new_upstream_ws_def demo_ws_env_def ws_env.defs gateway_env.defs cosmos_handler(4) [OF h(1)])
  then obtain s where s: "open_ws ?E h (demo_request ''/ws/cosmos/v1/k'' []) (0, quota_start) = (Inr s, quota_start)"
    "ss_key s = ''k''" "ss_world s = quota_start" by blast
  let ?req = "zero_rpc_request\<lparr>single_call := Some (demo_call_of ''dial_seeds'')\<rparr>"
  have req: "unmarshal_request (demo_text ''dial_seeds'') = Some ?req" "batch_call ?req = None"
    "single_call ?req = Some (demo_call_of ''dial_seeds'')" "rq_method (demo_call_of ''dial_seeds'') = ''dial_seeds''"
    by (simp_all add: demo_reads zero_rpc_request_def demo_call_of_def)
  have "h_whitelist h = [] \<and> h_chain_id h = 1"
    using h(2) by (simp add: demo_app_def handler_ok_def)
  moreover have "fst (allow ?E [] 1 ''k'' 1 (erigon_count ?E 1 quota_start)) = None" by code_simp
  ultimately have "\<exists>w1. rate_limit ?E h ''k'' 1 (erigon_count ?E 1 quota_start) = (None, w1)"
    by (auto simp: rate_limit_def split: prod.splits)
  then show ?thesis
    using cosmos_dial_panics [OF h(1) s(1) ws_run.opened [of ?E h "''u''" s] req(1-3)] req(4) s h(1) by auto
qed

end
